(* ===== verification/Prelude.thy ===== *)
theory Prelude
  imports Main "HOL-Library.Word" "HOL-Library.AList" "HOL-Library.List_Lexorder"
    "HOL-Library.Char_ord" "HOL-Library.Multiset"
begin

text \<open>
  Shared vocabulary of the development. A C++ member function that may throw and that
  changes its object is a function to \<open>('e, 'a, 's) outcome\<close>: the exception
  (\<open>Inl\<close>) or the returned value (\<open>Inr\<close>), together with the state the call leaves behind,
  which exists in both cases because a throw does not undo assignments made before it.
  The theory also holds the decimal rendering that \<open>operator<<\<close> gives an integer and the
  small list and association-list facts the components share.
\<close>

type_synonym ('e, 'a, 's) outcome = "('e + 'a) \<times> 's"
type_synonym u32 = "32 word"

text \<open>Sequencing: an exception skips the rest and keeps the state it was thrown in.\<close>

definition and_then ::
  "('e, 'a, 's) outcome \<Rightarrow> ('a \<Rightarrow> 's \<Rightarrow> ('e, 'b, 's) outcome) \<Rightarrow> ('e, 'b, 's) outcome" where
  "and_then r f = (case fst r of Inl e \<Rightarrow> (Inl e, snd r) | Inr a \<Rightarrow> f a (snd r))"

lemma and_then_simps [simp]:
  "and_then (Inl e, s) f = (Inl e, s)" "and_then (Inr a, s) f = f a s"
  by (simp_all add: and_then_def)

lemma and_then_Inr_iff:
  "and_then r f = (Inr b, s') \<longleftrightarrow> (\<exists>a s. r = (Inr a, s) \<and> f a s = (Inr b, s'))"
  by (cases r; cases "fst r") auto

lemma and_then_Inl_iff:
  "and_then r f = (Inl e, s') \<longleftrightarrow>
     r = (Inl e, s') \<or> (\<exists>a s. r = (Inr a, s) \<and> f a s = (Inl e, s'))"
  by (cases r; cases "fst r") auto

named_theorems state_simps \<open>projections of the state an operation leaves behind\<close>
named_theorems inv_intros \<open>preservation of component invariants\<close>

lemma takeWhile_notin: "x \<notin> set xs \<Longrightarrow> takeWhile (\<lambda>y. y \<noteq> x) xs = xs"
  by (induction xs) auto

lemma count_list_replicate [simp]: "count_list (replicate n x) x = n"
  by (induction n) auto

lemma split_at_unique:
  "x \<notin> set a \<Longrightarrow> x \<notin> set b \<Longrightarrow> a @ x # c = b @ x # e \<Longrightarrow> a = b \<and> c = e"
  by (induction a arbitrary: b) (auto simp: Cons_eq_append_conv)

text \<open>The same from the end: the part after the last separator.\<close>

lemma split_at_last:
  assumes "x \<notin> set c" "x \<notin> set e" "a @ x # c = b @ x # e"
  shows "a = b \<and> c = e"
proof -
  have "rev c @ x # rev a = rev e @ x # rev b" using arg_cong [OF assms(3), of rev] by simp
  from split_at_unique [OF _ _ this] assms(1,2) show ?thesis by simp
qed

section \<open>Decimal rendering of integers\<close>

definition digit_char :: "nat \<Rightarrow> char" where
  "digit_char n = ''0123456789'' ! n"

fun show_nat :: "nat \<Rightarrow> string" where
  "show_nat n =
     (if n < 10 then [digit_char n] else show_nat (n div 10) @ [digit_char (n mod 10)])"

declare show_nat.simps [simp del]

definition show_int :: "int \<Rightarrow> string" where
  "show_int i = (if i < 0 then CHR ''-'' # show_nat (nat (- i)) else show_nat (nat i))"

definition decimal_digit :: "char \<Rightarrow> bool" where
  "decimal_digit c \<longleftrightarrow> c \<in> set ''0123456789''"

lemma digit_char_decimal: "n < 10 \<Longrightarrow> decimal_digit (digit_char n)"
  unfolding digit_char_def decimal_digit_def by (rule nth_mem) simp

lemma show_nat_nonempty [simp]: "show_nat n \<noteq> []"
  by (subst show_nat.simps) simp

lemma show_nat_digits: "c \<in> set (show_nat n) \<Longrightarrow> decimal_digit c"
proof (induction n rule: show_nat.induct)
  case (1 n)
  then show ?case
    by (cases "n < 10") (auto simp: show_nat.simps [of n] digit_char_decimal)
qed

lemma show_nat_snoc:
  assumes "10 \<le> n"
  shows "show_nat n = show_nat (n div 10) @ [digit_char (n mod 10)]"
  using assms by (subst show_nat.simps) simp

lemma show_nat_single: "n < 10 \<Longrightarrow> show_nat n = [digit_char n]"
  by (subst show_nat.simps) simp

text \<open>Reading the digits back gives the number, so rendering is injective.\<close>

definition digits_value :: "string \<Rightarrow> nat" where
  "digits_value s = foldl (\<lambda>n c. 10 * n + (of_char c - 48)) 0 s"

lemma digit_char_value: "n < 10 \<Longrightarrow> of_char (digit_char n) - 48 = n"
proof -
  have "\<forall>n\<in>set [0..<10]. of_char (digit_char n) - 48 = n" by code_simp
  then show "n < 10 \<Longrightarrow> of_char (digit_char n) - 48 = n" by simp
qed

lemma digits_value_snoc [simp]:
  "digits_value (s @ [c]) = 10 * digits_value s + (of_char c - 48)"
  by (simp add: digits_value_def)

lemma digits_value_zero [simp]: "digits_value (CHR ''0'' # s) = digits_value s"
  by (simp add: digits_value_def)

lemma digits_value_show [simp]: "digits_value (show_nat n) = n"
proof (induction n rule: show_nat.induct)
  case (1 n)
  show ?case
  proof (cases "n < 10")
    case True
    then show ?thesis by (simp add: show_nat_single digits_value_def digit_char_value)
  next
    case False
    with 1 show ?thesis by (simp add: show_nat_snoc digit_char_value)
  qed
qed

lemma show_nat_inj: "show_nat m = show_nat n \<Longrightarrow> m = n"
  by (metis digits_value_show)

lemma show_nat_eq [simp]: "show_nat m = show_nat n \<longleftrightarrow> m = n"
  by (auto dest: show_nat_inj)

lemma show_nat_length:
  "length (show_nat n) = (if n < 10 then 1 else Suc (length (show_nat (n div 10))))"
  by (simp add: show_nat_single show_nat_snoc)

lemma show_nat_no_minus: "show_nat n \<noteq> CHR ''-'' # s"
proof
  assume "show_nat n = CHR ''-'' # s"
  then have "CHR ''-'' \<in> set (show_nat n)" by simp
  then have "decimal_digit CHR ''-''" by (rule show_nat_digits)
  then show False by (simp add: decimal_digit_def)
qed

lemma show_int_inj: "show_int i = show_int j \<Longrightarrow> i = j"
  by (auto simp: show_int_def show_nat_no_minus show_nat_no_minus [THEN not_sym] split: if_splits)

lemma show_int_eq [simp]: "show_int i = show_int j \<longleftrightarrow> i = j"
  by (auto dest: show_int_inj)

lemma show_int_chars: "c \<in> set (show_int i) \<Longrightarrow> decimal_digit c \<or> c = CHR ''-''"
  by (auto simp: show_int_def split: if_splits dest: show_nat_digits)

end
