(* ===== verification/Std_Map.thy ===== *)
theory Std_Map
  imports Prelude
begin

text \<open>
  \<open>std::map\<close>: the entries in increasing order of their keys, one per key. The interface the
  components rely on is the locale \<open>ordered_map\<close>; the model's operations interpret it.
  \<open>operator[]\<close> on an absent key is \<open>smap_put\<close> of the value the code assigns next, or of the
  default value of the mapped type where the code reads it instead.
\<close>

type_synonym ('k, 'v) smap = "('k \<times> 'v) list"

definition smap_find :: "('k, 'v) smap \<Rightarrow> 'k \<Rightarrow> 'v option" where
  "smap_find m k = map_of m k"

fun smap_put :: "'k::linorder \<Rightarrow> 'v \<Rightarrow> ('k, 'v) smap \<Rightarrow> ('k, 'v) smap" where
  "smap_put k v [] = [(k, v)]"
| "smap_put k v ((k', v') # m) =
     (if k < k' then (k, v) # (k', v') # m
      else if k = k' then (k, v) # m
      else (k', v') # smap_put k v m)"

definition smap_erase :: "'k \<Rightarrow> ('k, 'v) smap \<Rightarrow> ('k, 'v) smap" where
  "smap_erase k m = filter (\<lambda>e. fst e \<noteq> k) m"

definition smap_wf :: "('k::linorder, 'v) smap \<Rightarrow> bool" where
  "smap_wf m = sorted_wrt (<) (map fst m)"

section \<open>The interface\<close>

locale ordered_map =
  fixes find :: "'m \<Rightarrow> 'k::linorder \<Rightarrow> 'v option"
    and put :: "'k \<Rightarrow> 'v \<Rightarrow> 'm \<Rightarrow> 'm"
    and erase :: "'k \<Rightarrow> 'm \<Rightarrow> 'm"
    and entries :: "'m \<Rightarrow> ('k \<times> 'v) list"
    and nothing :: "'m"
    and wf :: "'m \<Rightarrow> bool"
  assumes find_nothing: "find nothing k = None"
    and find_put: "find (put k v m) = (find m)(k \<mapsto> v)"
    and find_erase: "find (erase k m) = (find m)(k := None)"
    and find_entries: "wf m \<Longrightarrow> find m k = map_of (entries m) k"
    and entries_sorted: "wf m \<Longrightarrow> sorted_wrt (<) (map fst (entries m))"
    and wf_nothing: "wf nothing"
    and wf_put: "wf m \<Longrightarrow> wf (put k v m)"
    and wf_erase: "wf m \<Longrightarrow> wf (erase k m)"
begin

lemma entries_distinct: "wf m \<Longrightarrow> distinct (map fst (entries m))"
  using entries_sorted strict_sorted_iff by blast

lemma entries_iff: "wf m \<Longrightarrow> (k, v) \<in> set (entries m) \<longleftrightarrow> find m k = Some v"
  using entries_distinct by (simp add: find_entries map_of_eq_Some_iff)

lemma keys_iff: "wf m \<Longrightarrow> k \<in> fst ` set (entries m) \<longleftrightarrow> find m k \<noteq> None"
  by (simp add: find_entries map_of_eq_None_iff)

text \<open>Two well-formed maps with the same lookups list the same entries in the same order.\<close>

lemma entries_ext:
  assumes "wf m" "wf n" "find m = find n"
  shows "entries m = entries n"
proof -
  have "set (entries m) = set (entries n)"
    using assms by (auto simp: entries_iff)
  moreover have "inj_on fst (set (entries n))"
    using entries_distinct [OF assms(2)] by (simp add: distinct_map)
  ultimately show ?thesis
    using entries_sorted [OF assms(1)] entries_sorted [OF assms(2)]
    by (intro map_sorted_distinct_set_unique [of fst]) (simp_all add: strict_sorted_iff)
qed

text \<open>The loop \<open>for(itr) r[f(itr->first)] = itr->second\<close> that copies a map under new keys.\<close>

lemma find_copy:
  assumes "inj f" "distinct (map fst xs)"
  shows "find (fold (\<lambda>e. put (f (fst e)) (g (snd e))) xs m) (f k) =
    (case map_of xs k of None \<Rightarrow> find m (f k) | Some v \<Rightarrow> Some (g v))"
  using assms(2)
proof (induction xs arbitrary: m)
  case (Cons e xs)
  then have "map_of xs (fst e) = None" by (simp add: map_of_eq_None_iff)
  with Cons assms(1) show ?case
    by (cases "k = fst e") (auto simp: find_put inj_eq split: option.splits)
qed simp

lemma wf_copy: "wf m \<Longrightarrow> wf (fold (\<lambda>e. put (f (fst e)) (g (snd e))) xs m)"
  by (induction xs arbitrary: m) (auto simp: wf_put)

lemma find_copy_entries:
  assumes "inj f" "wf n"
  shows "find (fold (\<lambda>e. put (f (fst e)) (g (snd e))) (entries n) nothing) (f k) =
    map_option g (find n k)"
  using find_copy [OF assms(1) entries_distinct [OF assms(2)]] assms(2)
  by (simp add: find_nothing find_entries split: option.splits)

end

section \<open>The model's maps provide it\<close>

lemma smap_find_put: "smap_find (smap_put k v m) = (smap_find m)(k \<mapsto> v)"
  by (induction k v m rule: smap_put.induct) (auto simp: smap_find_def fun_eq_iff)

lemma set_smap_put: "set (map fst (smap_put k v m)) = insert k (set (map fst m))"
  by (induction k v m rule: smap_put.induct) auto

lemma smap_wf_put: "smap_wf m \<Longrightarrow> smap_wf (smap_put k v m)"
proof (induction k v m rule: smap_put.induct)
  case (2 k v k' v' m)
  then show ?case
    using set_smap_put [of k v m] by (auto simp: smap_wf_def)
qed (simp add: smap_wf_def)

lemma smap_wf_erase: "smap_wf m \<Longrightarrow> smap_wf (smap_erase k m)"
  by (induction m) (auto simp: smap_wf_def smap_erase_def)

lemma smap_find_erase: "smap_find (smap_erase k m) = (smap_find m)(k := None)"
  by (induction m) (auto simp: smap_find_def smap_erase_def fun_eq_iff)

interpretation smap: ordered_map smap_find smap_put smap_erase "\<lambda>m. m" "[]" smap_wf
  by unfold_locales
    (simp_all add: smap_find_put smap_find_erase smap_wf_put smap_wf_erase,
      simp_all add: smap_find_def smap_wf_def)

lemma smap_find_Nil [simp]: "smap_find [] k = None"
  by (simp add: smap_find_def)

lemmas smap_simps = smap_find_put smap_find_erase

end
