(* ===== verification/Property_Tree.thy ===== *)
theory Property_Tree
  imports Std_Map
begin

text \<open>
  What the program uses of \<open>boost::property_tree\<close>. The operations are the fields of
  \<open>pt_ops\<close>, a parameter of every definition that handles requests, responses or the
  configuration; the locale \<open>property_tree\<close> names the documented laws the proofs rely on. A
  path is a string whose components are separated by dots. \<open>None\<close> stands for
  \<open>ptree_bad_path\<close>; \<open>bad_path_what\<close> is that exception's text.
\<close>

record 'p pt_ops =
  pt_new :: 'p
  pt_children :: "'p \<Rightarrow> (string \<times> 'p) list"
  pt_data :: "'p \<Rightarrow> string"
  pt_get :: "'p \<Rightarrow> string \<Rightarrow> string option"
  pt_get_child :: "'p \<Rightarrow> string \<Rightarrow> 'p option"
  pt_put :: "string \<Rightarrow> string \<Rightarrow> 'p \<Rightarrow> 'p"
  pt_add :: "string \<Rightarrow> string \<Rightarrow> 'p \<Rightarrow> 'p"
  pt_add_child :: "string \<Rightarrow> 'p \<Rightarrow> 'p \<Rightarrow> 'p"
  bad_path_what :: "string \<Rightarrow> string"

text \<open>\<open>t.find(k) != t.not_found()\<close>: a direct child with that very key.\<close>

definition pt_has :: "'p pt_ops \<Rightarrow> 'p \<Rightarrow> string \<Rightarrow> bool" where
  "pt_has ops t k \<longleftrightarrow> k \<in> set (map fst (pt_children ops t))"

definition pt_get_or :: "'p pt_ops \<Rightarrow> 'p \<Rightarrow> string \<Rightarrow> string \<Rightarrow> string" where
  "pt_get_or ops t p d = (case pt_get ops t p of None \<Rightarrow> d | Some v \<Rightarrow> v)"

section \<open>Paths\<close>

fun path_parts :: "string \<Rightarrow> string list" where
  "path_parts [] = [[]]"
| "path_parts (c # s) =
     (if c = CHR ''.'' then [] # path_parts s
      else case path_parts s of [] \<Rightarrow> [[c]] | w # ws \<Rightarrow> (c # w) # ws)"

definition is_prefix :: "string list \<Rightarrow> string list \<Rightarrow> bool" where
  "is_prefix a b \<longleftrightarrow> take (length a) b = a"

text \<open>The empty path has no component and names the tree itself.\<close>

definition path_of :: "string \<Rightarrow> string list" where
  "path_of p = (if p = [] then [] else path_parts p)"

text \<open>Two paths of which neither leads through the other's node.\<close>

definition apart :: "string \<Rightarrow> string \<Rightarrow> bool" where
  "apart p q \<longleftrightarrow> \<not> is_prefix (path_of p) (path_of q) \<and> \<not> is_prefix (path_of q) (path_of p)"

definition one_part :: "string \<Rightarrow> bool" where
  "one_part k \<longleftrightarrow> k \<noteq> [] \<and> CHR ''.'' \<notin> set k"

lemma path_parts_nonempty [simp]: "path_parts s \<noteq> []"
  by (induction s) (auto split: list.split)

lemma path_parts_one: "CHR ''.'' \<notin> set k \<Longrightarrow> path_parts k = [k]"
  by (induction k) auto

lemma path_parts_dot: "CHR ''.'' \<notin> set k \<Longrightarrow> path_parts (k @ CHR ''.'' # s) = k # path_parts s"
  by (induction k) auto

lemma apart_one: "one_part k \<Longrightarrow> one_part l \<Longrightarrow> k \<noteq> l \<Longrightarrow> apart k l"
  by (simp add: apart_def is_prefix_def one_part_def path_parts_one path_of_def)

lemma apart_sym: "apart p q \<Longrightarrow> apart q p"
  by (simp add: apart_def)

locale property_tree =
  fixes ops :: "'p pt_ops"
  assumes get_new: "p \<noteq> [] \<Longrightarrow> pt_get ops (pt_new ops) p = None"
    and get_put: "p \<noteq> [] \<Longrightarrow> pt_get ops (pt_put ops p v t) p = Some v"
    and get_put_other: "apart p q \<Longrightarrow> pt_get ops (pt_put ops p v t) q = pt_get ops t q"
    and get_add: "p \<noteq> [] \<Longrightarrow> pt_get ops t p = None \<Longrightarrow> pt_get ops (pt_add ops p v t) p = Some v"
    and get_add_other: "apart p q \<Longrightarrow> pt_get ops (pt_add ops p v t) q = pt_get ops t q"
    and get_add_child_other: "apart p q \<Longrightarrow> pt_get ops (pt_add_child ops p u t) q = pt_get ops t q"
    and has_get: "one_part k \<Longrightarrow> pt_has ops t k \<longleftrightarrow> pt_get ops t k \<noteq> None"
    and children_get: "one_part k \<Longrightarrow> pt_get ops t k =
      map_option (pt_data ops) (map_of (pt_children ops t) k)"
begin

lemma get_put_cases:
  "one_part k \<Longrightarrow> one_part l \<Longrightarrow>
   pt_get ops (pt_put ops k v t) l = (if l = k then Some v else pt_get ops t l)"
  using get_put [of k v t] get_put_other [OF apart_one, of k l v t] by (auto simp: one_part_def)

lemma get_add_cases:
  "one_part k \<Longrightarrow> one_part l \<Longrightarrow> pt_get ops t k = None \<Longrightarrow>
   pt_get ops (pt_add ops k v t) l = (if l = k then Some v else pt_get ops t l)"
  using get_add [of k t v] get_add_other [OF apart_one, of k l v t] by (auto simp: one_part_def)

end

section \<open>An instance that evaluates\<close>

text \<open>
  Trees as the library documents them: data and an ordered list of children, whose keys may
  repeat; a path follows the first child of each name, \<open>put\<close> creates what is missing at the
  end, \<open>add\<close> always creates its last node.
\<close>

datatype ptree = Ptree string "(string \<times> ptree) list"

fun tree_data :: "ptree \<Rightarrow> string" where
  "tree_data (Ptree d cs) = d"

fun tree_children :: "ptree \<Rightarrow> (string \<times> ptree) list" where
  "tree_children (Ptree d cs) = cs"

definition child_or_new :: "string \<Rightarrow> (string \<times> ptree) list \<Rightarrow> ptree" where
  "child_or_new k cs = (case map_of cs k of None \<Rightarrow> Ptree [] [] | Some t \<Rightarrow> t)"

text \<open>Replace the first child of that name, or append one.\<close>

fun set_child :: "string \<Rightarrow> ptree \<Rightarrow> (string \<times> ptree) list \<Rightarrow> (string \<times> ptree) list" where
  "set_child k t [] = [(k, t)]"
| "set_child k t (c # cs) = (if fst c = k then (k, t) # cs else c # set_child k t cs)"

fun tree_sub :: "string list \<Rightarrow> ptree \<Rightarrow> ptree option" where
  "tree_sub [] t = Some t"
| "tree_sub (k # ks) t =
     (case map_of (tree_children t) k of None \<Rightarrow> None | Some u \<Rightarrow> tree_sub ks u)"

fun tree_put :: "string list \<Rightarrow> string \<Rightarrow> ptree \<Rightarrow> ptree" where
  "tree_put [] v t = Ptree v (tree_children t)"
| "tree_put (k # ks) v t =
     Ptree (tree_data t)
       (set_child k (tree_put ks v (child_or_new k (tree_children t))) (tree_children t))"

fun tree_add_child :: "string list \<Rightarrow> ptree \<Rightarrow> ptree \<Rightarrow> ptree" where
  "tree_add_child [] u t = Ptree (tree_data t) (tree_children t @ [([], u)])"
| "tree_add_child [k] u t = Ptree (tree_data t) (tree_children t @ [(k, u)])"
| "tree_add_child (k # l # ks) u t =
     Ptree (tree_data t)
       (set_child k (tree_add_child (l # ks) u (child_or_new k (tree_children t))) (tree_children t))"

definition ptree_ops :: "ptree pt_ops" where
  "ptree_ops =
     \<lparr>pt_new = Ptree [] [], pt_children = tree_children, pt_data = tree_data,
      pt_get = (\<lambda>t p. map_option tree_data (tree_sub (path_of p) t)),
      pt_get_child = (\<lambda>t p. tree_sub (path_of p) t),
      pt_put = (\<lambda>p v t. tree_put (path_of p) v t),
      pt_add = (\<lambda>p v t. tree_add_child (path_of p) (Ptree v []) t),
      pt_add_child = (\<lambda>p u t. tree_add_child (path_of p) u t),
      bad_path_what = (\<lambda>p. ''No such node ('' @ p @ '')'')\<rparr>"

lemma map_of_set_child: "map_of (set_child k t cs) = (map_of cs)(k \<mapsto> t)"
  by (induction k t cs rule: set_child.induct) (auto simp: fun_eq_iff)

lemma keys_set_child: "fst ` set (set_child k t cs) = insert k (fst ` set cs)"
  by (induction k t cs rule: set_child.induct) auto

lemma tree_sub_put: "tree_sub ks (tree_put ks v t) = Some (Ptree v (case tree_sub ks t of
    None \<Rightarrow> [] | Some u \<Rightarrow> tree_children u))"
proof (induction ks v t rule: tree_put.induct)
  case (2 k ks v t)
  have "tree_sub (l # ls) (Ptree [] []) = None" for l ls by simp
  then have "(case tree_sub ks (Ptree [] []) of None \<Rightarrow> [] | Some u \<Rightarrow> tree_children u) = []"
    by (cases ks) simp_all
  with 2 show ?case
    by (auto simp: map_of_set_child child_or_new_def split: option.splits)
qed simp

lemma is_prefix_Cons: "is_prefix (k # ks) (l # ls) \<longleftrightarrow> k = l \<and> is_prefix ks ls"
  by (auto simp: is_prefix_def)

lemma is_prefix_Nil [simp]: "is_prefix [] ls" "\<not> is_prefix (k # ks) []"
  by (simp_all add: is_prefix_def)

definition data_at :: "string list \<Rightarrow> ptree \<Rightarrow> string option" where
  "data_at ks t = map_option tree_data (tree_sub ks t)"

lemma data_at_simps [simp]:
  "data_at [] t = Some (tree_data t)"
  "data_at (k # ks) t =
     (case map_of (tree_children t) k of None \<Rightarrow> None | Some u \<Rightarrow> data_at ks u)"
  by (simp_all add: data_at_def split: option.split)

lemma data_at_new: "ls \<noteq> [] \<Longrightarrow> data_at ls (Ptree d []) = None"
  by (cases ls) simp_all

lemma data_at_put_other:
  "\<not> is_prefix ks ls \<Longrightarrow> \<not> is_prefix ls ks \<Longrightarrow> data_at ls (tree_put ks v t) = data_at ls t"
proof (induction ks v t arbitrary: ls rule: tree_put.induct)
  case (2 k ks v t)
  then obtain l ls' where l: "ls = l # ls'" by (cases ls) auto
  show ?case
  proof (cases "l = k")
    case True
    with 2 l have "data_at ls' (tree_put ks v (child_or_new k (tree_children t))) =
        data_at ls' (child_or_new k (tree_children t))" "ls' \<noteq> []"
      by (auto simp: is_prefix_Cons)
    with True l data_at_new show ?thesis
      by (auto simp: map_of_set_child child_or_new_def split: option.splits)
  next
    case False
    with l show ?thesis by (simp add: map_of_set_child)
  qed
qed simp

lemma data_at_add_other:
  "\<not> is_prefix ks ls \<Longrightarrow> \<not> is_prefix ls ks \<Longrightarrow> data_at ls (tree_add_child ks u t) = data_at ls t"
proof (induction ks u t arbitrary: ls rule: tree_add_child.induct)
  case (2 k u t)
  then obtain l ls' where "ls = l # ls'" by (cases ls) auto
  with 2 show ?case by (auto simp: is_prefix_Cons map_add_def split: option.splits)
next
  case (3 k m ks u t)
  then obtain l ls' where l: "ls = l # ls'" by (cases ls) auto
  show ?case
  proof (cases "l = k")
    case True
    with 3 l have "data_at ls' (tree_add_child (m # ks) u (child_or_new k (tree_children t))) =
        data_at ls' (child_or_new k (tree_children t))" "ls' \<noteq> []"
      by (auto simp: is_prefix_Cons)
    with True l data_at_new show ?thesis
      by (auto simp: map_of_set_child child_or_new_def split: option.splits)
  next
    case False
    with l show ?thesis by (simp add: map_of_set_child)
  qed
qed simp

text \<open>A value that is there stays: \<open>put\<close> changes the one at its path only, \<open>add\<close> adds behind.\<close>

lemma data_at_put_stays:
  "data_at ls t = Some w \<Longrightarrow> ls \<noteq> ks \<Longrightarrow> data_at ls (tree_put ks v t) = Some w"
proof (induction ks v t arbitrary: ls rule: tree_put.induct)
  case (1 v t)
  then show ?case by (cases ls) auto
next
  case (2 k ks v t)
  then show ?case
    by (cases ls) (auto simp: map_of_set_child child_or_new_def split: option.splits)
qed

lemma data_at_add_stays:
  "data_at ls t = Some w \<Longrightarrow> data_at ls (tree_add_child ks u t) = Some w"
proof (induction ks u t arbitrary: ls rule: tree_add_child.induct)
  case (3 k m ks u t)
  then show ?case
    by (cases ls) (auto simp: map_of_set_child child_or_new_def split: option.splits)
qed (case_tac ls; auto simp: map_add_def split: option.splits)+

lemma data_at_add:
  "ks \<noteq> [] \<Longrightarrow> data_at ks t = None \<Longrightarrow> data_at ks (tree_add_child ks u t) = Some (tree_data u)"
proof (induction ks u t rule: tree_add_child.induct)
  case (2 k u t)
  then show ?case by (auto simp: map_add_def split: option.splits)
next
  case (3 k l ks u t)
  then have "data_at (l # ks) (child_or_new k (tree_children t)) = None"
    by (auto simp: child_or_new_def split: option.splits)
  with 3 show ?case by (simp add: map_of_set_child del: data_at_simps(2)) (simp add: map_of_set_child)
qed simp

interpretation boost: property_tree ptree_ops
proof unfold_locales
  show "p \<noteq> [] \<Longrightarrow> pt_get ptree_ops (pt_new ptree_ops) p = None" for p
    using data_at_new by (simp add: ptree_ops_def path_of_def data_at_def [symmetric])
  show "p \<noteq> [] \<Longrightarrow> pt_get ptree_ops (pt_put ptree_ops p v t) p = Some v" for p v t
    by (simp add: ptree_ops_def tree_sub_put)
  show "apart p q \<Longrightarrow> pt_get ptree_ops (pt_put ptree_ops p v t) q = pt_get ptree_ops t q" for p q v t
    using data_at_put_other by (auto simp: ptree_ops_def apart_def data_at_def [symmetric])
  show "apart p q \<Longrightarrow> pt_get ptree_ops (pt_add ptree_ops p v t) q = pt_get ptree_ops t q" for p q v t
    using data_at_add_other by (auto simp: ptree_ops_def apart_def data_at_def [symmetric])
  show "apart p q \<Longrightarrow> pt_get ptree_ops (pt_add_child ptree_ops p u t) q = pt_get ptree_ops t q" for p q u t
    using data_at_add_other by (auto simp: ptree_ops_def apart_def data_at_def [symmetric])
  show "p \<noteq> [] \<Longrightarrow> pt_get ptree_ops t p = None \<Longrightarrow> pt_get ptree_ops (pt_add ptree_ops p v t) p = Some v" for p v t
    using data_at_add by (simp add: ptree_ops_def path_of_def data_at_def [symmetric])
  show "one_part k \<Longrightarrow> pt_has ptree_ops t k \<longleftrightarrow> pt_get ptree_ops t k \<noteq> None" for k t
    by (auto simp: ptree_ops_def pt_has_def one_part_def path_parts_one path_of_def map_of_eq_None_iff split: option.splits)
      (force dest: map_of_SomeD)
  show "one_part k \<Longrightarrow> pt_get ptree_ops t k = map_option (pt_data ptree_ops) (map_of (pt_children ptree_ops t) k)" for k t
    by (auto simp: ptree_ops_def one_part_def path_parts_one path_of_def split: option.splits)
qed

end
