(* ===== verification/Ptree_Util.thy ===== *)
theory Ptree_Util
  imports Property_Tree
begin

text \<open>
  \<open>ptreeMerge\<close> and \<open>ptreeAddOrPut\<close> (kisscpp/boost_ptree.cpp). The recursion of \<open>ptreeMerge\<close>
  follows paths into the second tree, which for an arbitrary implementation of trees need not
  end, so it carries fuel: \<open>None\<close> means the fuel ran out, \<open>Some (Inl p)\<close> that \<open>get_child\<close> threw
  for the path \<open>p\<close>.
\<close>

section \<open>Operations\<close>

definition ptreeAddOrPut :: "'p pt_ops \<Rightarrow> 'p \<Rightarrow> string \<Rightarrow> string \<Rightarrow> 'p" where
  "ptreeAddOrPut ops pt1 name val =
     (if pt_has ops pt1 name then pt_put ops name val pt1 else pt_add ops name val pt1)"

text \<open>The loop over the children of a node of the second tree; \<open>rec\<close> is the recursive call.\<close>

fun merge_children ::
  "'p pt_ops \<Rightarrow> ('p \<Rightarrow> string \<Rightarrow> (string + 'p) option) \<Rightarrow> string \<Rightarrow> (string \<times> 'p) list \<Rightarrow> 'p \<Rightarrow>
   (string + 'p) option" where
  "merge_children ops rec node [] pt1 = Some (Inr pt1)"
| "merge_children ops rec node ((k, v) # cs) pt1 =
     (let full_node_path = (if node = [] then k else node @ ''.'' @ k) in
      if pt_children ops v = [] then
        merge_children ops rec node cs
          (if pt_has ops pt1 full_node_path then pt_put ops full_node_path (pt_data ops v) pt1
           else pt_add ops full_node_path (pt_data ops v) pt1)
      else
        (case rec pt1 full_node_path of
           None \<Rightarrow> None
         | Some (Inl e) \<Rightarrow> Some (Inl e)
         | Some (Inr pt) \<Rightarrow> merge_children ops rec node cs pt))"

primrec merge_fuel ::
  "nat \<Rightarrow> 'p pt_ops \<Rightarrow> 'p \<Rightarrow> 'p \<Rightarrow> string \<Rightarrow> (string + 'p) option" where
  "merge_fuel 0 ops pt2 pt1 node = None"
| "merge_fuel (Suc n) ops pt2 pt1 node =
     (case (if node = [] then Some pt2 else pt_get_child ops pt2 node) of
        None \<Rightarrow> Some (Inl node)
      | Some t \<Rightarrow> merge_children ops (merge_fuel n ops pt2) node (pt_children ops t) pt1)"

definition ptreeMerge :: "nat \<Rightarrow> 'p pt_ops \<Rightarrow> 'p \<Rightarrow> 'p \<Rightarrow> (string + 'p) option" where
  "ptreeMerge n ops pt1 pt2 = merge_fuel n ops pt2 pt1 []"

section \<open>Trees of one level\<close>

text \<open>A tree whose children are leaves with distinct plain names.\<close>

definition flat_tree :: "'p pt_ops \<Rightarrow> 'p \<Rightarrow> bool" where
  "flat_tree ops t \<longleftrightarrow> distinct (map fst (pt_children ops t)) \<and>
     (\<forall>(k, v)\<in>set (pt_children ops t). one_part k \<and> pt_children ops v = [])"

context property_tree
begin

lemma add_or_put:
  "one_part k \<Longrightarrow> one_part l \<Longrightarrow>
   pt_get ops (ptreeAddOrPut ops t k v) l = (if l = k then Some v else pt_get ops t l)"
  using has_get [of k t] get_put_cases [of k l v t] get_add_cases [of k l t v]
  by (auto simp: ptreeAddOrPut_def)

lemma merge_children_flat:
  assumes "\<forall>(k, v)\<in>set cs. one_part k \<and> pt_children ops v = []" "distinct (map fst cs)"
  obtains t where "merge_children ops rec [] cs pt1 = Some (Inr t)"
    "\<forall>l. one_part l \<longrightarrow> pt_get ops t l =
       (case map_of cs l of None \<Rightarrow> pt_get ops pt1 l | Some v \<Rightarrow> Some (pt_data ops v))"
proof -
  have "\<exists>t. merge_children ops rec [] cs pt1 = Some (Inr t) \<and> (\<forall>l. one_part l \<longrightarrow> pt_get ops t l =
      (case map_of cs l of None \<Rightarrow> pt_get ops pt1 l | Some v \<Rightarrow> Some (pt_data ops v)))"
    using assms
  proof (induction cs arbitrary: pt1)
    case (Cons c cs)
    obtain k v where c: "c = (k, v)" by fastforce
    have k: "one_part k" "pt_children ops v = []" "map_of cs k = None"
      using Cons.prems c by (auto simp: map_of_eq_None_iff)
    let ?t = "ptreeAddOrPut ops pt1 k (pt_data ops v)"
    obtain t where t: "merge_children ops rec [] cs ?t = Some (Inr t)"
      "\<forall>l. one_part l \<longrightarrow> pt_get ops t l =
        (case map_of cs l of None \<Rightarrow> pt_get ops ?t l | Some v \<Rightarrow> Some (pt_data ops v))"
      using Cons.IH [of ?t] Cons.prems by auto
    have "merge_children ops rec [] (c # cs) pt1 = Some (Inr t)"
      using t(1) k c by (simp add: ptreeAddOrPut_def Let_def)
    moreover have "pt_get ops t l = (case map_of (c # cs) l of None \<Rightarrow> pt_get ops pt1 l
        | Some v \<Rightarrow> Some (pt_data ops v))" if "one_part l" for l
      using t(2) that k c add_or_put [OF k(1) that] by (auto split: option.split)
    ultimately show ?case by blast
  qed simp
  with that show thesis by blast
qed

lemma merge_flat:
  assumes "flat_tree ops pt2" "0 < n"
  obtains t where "ptreeMerge n ops pt1 pt2 = Some (Inr t)"
    "\<forall>l. one_part l \<longrightarrow> pt_get ops t l =
       (case pt_get ops pt2 l of None \<Rightarrow> pt_get ops pt1 l | Some v \<Rightarrow> Some v)"
proof -
  obtain m where n: "n = Suc m" using assms(2) by (cases n) auto
  obtain t where t: "merge_children ops (merge_fuel m ops pt2) [] (pt_children ops pt2) pt1 = Some (Inr t)"
    "\<forall>l. one_part l \<longrightarrow> pt_get ops t l = (case map_of (pt_children ops pt2) l of
       None \<Rightarrow> pt_get ops pt1 l | Some v \<Rightarrow> Some (pt_data ops v))"
    using merge_children_flat [of "pt_children ops pt2"] assms(1) by (auto simp: flat_tree_def)
  show thesis
    by (rule that [of t]) (use t children_get in \<open>auto simp: ptreeMerge_def n split: option.splits\<close>)
qed

end

section \<open>How much fuel is enough\<close>

fun tree_depth :: "ptree \<Rightarrow> nat" where
  "tree_depth (Ptree d cs) = foldr max (map (\<lambda>c. Suc (tree_depth (snd c))) cs) 0"

lemma foldr_max_ge: "x \<in> set xs \<Longrightarrow> x \<le> foldr max xs (0 :: nat)"
  by (induction xs) auto

lemma child_depth: "(k, v) \<in> set (tree_children t) \<Longrightarrow> Suc (tree_depth v) \<le> tree_depth t"
  using foldr_max_ge [of "Suc (tree_depth v)" "map (\<lambda>c. Suc (tree_depth (snd c))) (tree_children t)"]
  by (cases t) force

lemma inner_depth: "tree_children v \<noteq> [] \<Longrightarrow> 0 < tree_depth v"
  by (cases v; cases "tree_children v") auto

lemma sub_depth: "tree_sub ks t = Some u \<Longrightarrow> length ks + tree_depth u \<le> tree_depth t"
proof (induction ks t rule: tree_sub.induct)
  case (2 k ks t)
  then obtain v where v: "map_of (tree_children t) k = Some v" "tree_sub ks v = Some u"
    by (auto split: option.splits)
  from child_depth [OF map_of_SomeD [OF v(1)]] 2(1) [OF v] show ?case by simp
qed simp

lemma path_parts_join: "path_parts (a @ CHR ''.'' # b) = path_parts a @ path_parts b"
  by (induction a) (auto split: list.split)

lemma longer_path:
  "node \<noteq> [] \<Longrightarrow> length (path_of node) < length (path_of (node @ CHR ''.'' # k))"
  "k \<noteq> [] \<Longrightarrow> 0 < length (path_of k)"
  by (simp_all add: path_of_def path_parts_join)

lemma merge_children_ends:
  assumes "\<And>pt k v. (k, v) \<in> set cs \<Longrightarrow> pt_children ops v \<noteq> [] \<Longrightarrow>
    rec pt (if node = [] then k else node @ ''.'' @ k) \<noteq> None"
  shows "merge_children ops rec node cs pt1 \<noteq> None"
  using assms
proof (induction cs arbitrary: pt1)
  case (Cons c cs)
  obtain k v where c: "c = (k, v)" by fastforce
  have IH: "merge_children ops rec node cs pt \<noteq> None" for pt
    by (rule Cons.IH) (rule Cons.prems; simp)
  show ?case
  proof (cases "pt_children ops v = []")
    case True
    with c IH show ?thesis by (simp add: Let_def del: not_None_eq)
  next
    case False
    with Cons.prems [of k v pt1] c
    obtain r where "rec pt1 (if node = [] then k else node @ ''.'' @ k) = Some r" by auto
    with c False IH show ?thesis by (cases r) (simp_all add: Let_def del: not_None_eq)
  qed
qed simp

lemma merge_fuel_ends:
  assumes "\<forall>(k, v)\<in>set (tree_children pt2). k = [] \<longrightarrow> tree_children v = []"
    and "tree_depth pt2 - length (path_of node) < n"
  shows "merge_fuel n ptree_ops pt2 pt1 node \<noteq> None"
  using assms(2)
proof (induction n arbitrary: node pt1)
  case (Suc n)
  show ?case
  proof (cases "if node = [] then Some pt2 else pt_get_child ptree_ops pt2 node")
    case (Some t)
    then have sub: "tree_sub (path_of node) pt2 = Some t"
      by (cases "node = []") (simp_all add: ptree_ops_def path_of_def)
    have "merge_children ptree_ops (merge_fuel n ptree_ops pt2) node (pt_children ptree_ops t) pt1 \<noteq> None"
    proof (rule merge_children_ends)
      fix pt k v
      assume v: "(k, v) \<in> set (pt_children ptree_ops t)" "pt_children ptree_ops v \<noteq> []"
      then have d: "length (path_of node) + 2 \<le> tree_depth pt2"
        using sub_depth [OF sub] child_depth [of k v t] inner_depth [of v] by (simp add: ptree_ops_def)
      have "k \<noteq> []" if "node = []" using assms(1) v Some that by (auto simp: ptree_ops_def)
      then have "length (path_of node) < length (path_of (if node = [] then k else node @ ''.'' @ k))"
        using longer_path(1) [of node k] longer_path(2) [of k] by (auto simp: path_of_def)
      with d Suc.prems have "tree_depth pt2 - length (path_of (if node = [] then k else node @ ''.'' @ k)) < n"
        by linarith
      from Suc.IH [OF this]
      show "merge_fuel n ptree_ops pt2 pt (if node = [] then k else node @ ''.'' @ k) \<noteq> None" .
    qed
    with Some show ?thesis by (simp del: not_None_eq)
  qed simp
qed simp

section \<open>Nested values of the first tree stay\<close>

text \<open>No child at the top has a dot in its name, as \<open>find\<close> would need to see a nested path.\<close>

definition plain_keys :: "ptree \<Rightarrow> bool" where
  "plain_keys t \<longleftrightarrow> (\<forall>(k, v)\<in>set (tree_children t). CHR ''.'' \<notin> set k)"

lemma path_parts_plain: "k \<in> set (path_parts s) \<Longrightarrow> CHR ''.'' \<notin> set k"
  by (induction s arbitrary: k) (auto split: if_splits list.splits)

lemma path_of_plain: "k \<in> set (path_of s) \<Longrightarrow> CHR ''.'' \<notin> set k"
  by (auto simp: path_of_def path_parts_plain split: if_splits)

lemma plain_keys_iff: "plain_keys t \<longleftrightarrow> (\<forall>k\<in>fst ` set (tree_children t). CHR ''.'' \<notin> set k)"
  by (auto simp: plain_keys_def)

lemma plain_keys_put: "plain_keys t \<Longrightarrow> plain_keys (tree_put (path_of p) v t)"
  using path_of_plain [of _ p]
  by (cases "path_of p") (auto simp: plain_keys_iff keys_set_child)

lemma plain_keys_add: "plain_keys t \<Longrightarrow> plain_keys (tree_add_child (path_of p) u t)"
  using path_of_plain [of _ p]
  by (cases "(path_of p, u, t)" rule: tree_add_child.cases) (auto simp: plain_keys_iff keys_set_child)

definition keeps :: "string list \<Rightarrow> string \<Rightarrow> ptree \<Rightarrow> bool" where
  "keeps ks w t \<longleftrightarrow> plain_keys t \<and> data_at ks t = Some w"

lemma keeps_put: "keeps ks w t \<Longrightarrow> path_of q \<noteq> ks \<Longrightarrow> keeps ks w (tree_put (path_of q) v t)"
  by (simp add: keeps_def plain_keys_put data_at_put_stays)

lemma keeps_step:
  assumes "keeps ks w t" "1 < length ks"
  shows "keeps ks w (if pt_has ptree_ops t q then pt_put ptree_ops q v t else pt_add ptree_ops q v t)"
proof (cases "pt_has ptree_ops t q")
  case True
  with assms(1) have "CHR ''.'' \<notin> set q"
    by (auto simp: pt_has_def ptree_ops_def keeps_def plain_keys_iff)
  then have "length (path_of q) \<le> 1" by (simp add: path_of_def path_parts_one)
  with assms have "path_of q \<noteq> ks" by auto
  with True keeps_put [OF assms(1)] show ?thesis by (simp add: ptree_ops_def)
next
  case False
  with assms(1) show ?thesis by (simp add: ptree_ops_def keeps_def plain_keys_add data_at_add_stays)
qed

lemma keeps_merge_children:
  assumes "\<And>pt q r. keeps ks w pt \<Longrightarrow> rec pt q = Some (Inr r) \<Longrightarrow> keeps ks w r" and "1 < length ks"
  shows "keeps ks w pt1 \<Longrightarrow> merge_children ptree_ops rec node cs pt1 = Some (Inr t) \<Longrightarrow> keeps ks w t"
proof (induction cs arbitrary: pt1)
  case (Cons c cs)
  obtain k v where c: "c = (k, v)" by fastforce
  note steps = keeps_step [OF Cons.prems(1) assms(2)]
  from Cons.prems(2) c show ?case
    by (auto simp: Let_def simp del: if_split intro: Cons.IH [OF steps] Cons.IH [OF assms(1) [OF Cons.prems(1)]]
        split: if_splits option.splits sum.splits)
qed simp

lemma keeps_merge:
  assumes "keeps ks w pt1" "1 < length ks" "ptreeMerge n ptree_ops pt1 pt2 = Some (Inr t)"
  shows "keeps ks w t"
proof -
  have "merge_fuel n ptree_ops pt2 pt1 node = Some (Inr t) \<Longrightarrow> keeps ks w pt1 \<Longrightarrow> keeps ks w t" for node pt1 t
  proof (induction n arbitrary: node pt1 t)
    case (Suc n)
    from Suc.prems(1) obtain u where
      "merge_children ptree_ops (merge_fuel n ptree_ops pt2) node (pt_children ptree_ops u) pt1 = Some (Inr t)"
      by (auto split: option.splits)
    from keeps_merge_children [OF _ assms(2) Suc.prems(2) this] Suc.IH show ?case by blast
  qed simp
  with assms show ?thesis by (simp add: ptreeMerge_def)
qed

section \<open>Properties\<close>

text \<open>
  Merging a tree of one level: every value of the second tree replaces or joins those of the
  first, and the other values of the first stay.
\<close>

theorem merge_overrides_flat:
  assumes "property_tree ops" and "flat_tree ops pt2" and "0 < n"
  shows "\<exists>t. ptreeMerge n ops pt1 pt2 = Some (Inr t) \<and>
    (\<forall>l. one_part l \<longrightarrow> pt_get ops t l =
       (case pt_get ops pt2 l of None \<Rightarrow> pt_get ops pt1 l | Some v \<Rightarrow> Some v))"
  by (rule property_tree.merge_flat [OF assms]) blast

definition leaf :: "string \<Rightarrow> ptree" where
  "leaf v = Ptree v []"

lemma merge_overrides_flat_witness:
  "\<exists>t. ptreeMerge 1 ptree_ops (Ptree [] [(''a'', leaf ''1''), (''b'', leaf ''2'')])
        (Ptree [] [(''b'', leaf ''3'')]) = Some (Inr t) \<and>
     pt_get ptree_ops t ''a'' = Some ''1'' \<and> pt_get ptree_ops t ''b'' = Some ''3''"
proof -
  have f: "flat_tree ptree_ops (Ptree [] [(''b'', leaf ''3'')])" by code_simp
  have o1: "one_part ''a''" "one_part ''b''" by code_simp+
  have g: "pt_get ptree_ops (Ptree [] [(''b'', leaf ''3'')]) ''a'' = None"
    "pt_get ptree_ops (Ptree [] [(''b'', leaf ''3'')]) ''b'' = Some ''3''"
    "pt_get ptree_ops (Ptree [] [(''a'', leaf ''1''), (''b'', leaf ''2'')]) ''a'' = Some ''1''"
    by code_simp+
  obtain t where t: "ptreeMerge 1 ptree_ops (Ptree [] [(''a'', leaf ''1''), (''b'', leaf ''2'')])
        (Ptree [] [(''b'', leaf ''3'')]) = Some (Inr t)"
    "\<forall>l. one_part l \<longrightarrow> pt_get ptree_ops t l =
       (case pt_get ptree_ops (Ptree [] [(''b'', leaf ''3'')]) l of
          None \<Rightarrow> pt_get ptree_ops (Ptree [] [(''a'', leaf ''1''), (''b'', leaf ''2'')]) l
        | Some v \<Rightarrow> Some v)"
    using merge_overrides_flat [OF boost.property_tree_axioms f, of 1] by auto
  then have "pt_get ptree_ops t ''a'' = Some ''1''" "pt_get ptree_ops t ''b'' = Some ''3''"
    using t(2) o1 g by auto
  with t(1) show ?thesis by blast
qed

text \<open>
  Below the first level nothing is replaced, although the comment on \<open>ptreeMerge\<close> says that
  the second tree's values overwrite the first's: \<open>find\<close> is asked for the whole path as if it
  were the name of a child, so the value is added behind the old one, which a lookup finds first.
\<close>

theorem merge_keeps_nested:
  "(case ptreeMerge 3 ptree_ops
       (Ptree [] [(''server'', Ptree [] [(''port'', leaf ''9000'')])])
       (Ptree [] [(''server'', Ptree [] [(''port'', leaf ''9001'')])]) of
      Some (Inr t) \<Rightarrow> pt_get ptree_ops t ''server.port'' = Some ''9000'' \<and>
        t = Ptree [] [(''server'', Ptree [] [(''port'', leaf ''9000''), (''port'', leaf ''9001'')])]
    | _ \<Rightarrow> False)"
  by code_simp

text \<open>
  \<open>ptreeMerge\<close> ends, on trees as the library documents them, whenever no child at the top
  with an empty name has children of its own: fuel for one call more than the depth of the second
  tree is enough.
\<close>

theorem merge_ends:
  assumes "\<forall>(k, v)\<in>set (tree_children pt2). k = [] \<longrightarrow> tree_children v = []" and "tree_depth pt2 < n"
  shows "\<exists>r. ptreeMerge n ptree_ops pt1 pt2 = Some r"
  using merge_fuel_ends [OF assms(1), of "[]" n pt1] assms(2)
  by (simp add: ptreeMerge_def path_of_def)

lemma merge_ends_witness:
  "\<exists>r. ptreeMerge 3 ptree_ops (leaf []) (Ptree [] [(''a'', Ptree [] [(''b'', leaf ''1'')])]) = Some r"
  by (rule merge_ends) (simp_all add: leaf_def)

text \<open>
  A child at the top with an empty name and children of its own, which is what the JSON parser
  makes of an array of objects, sends \<open>ptreeMerge\<close> into itself with the same arguments: the call
  does not end, whatever the fuel.
\<close>

theorem merge_of_array_never_ends:
  "ptreeMerge n ptree_ops pt1 (Ptree [] [([], Ptree [] [(''a'', leaf ''1'')])]) = None"
proof -
  let ?t = "Ptree [] [([], Ptree [] [(''a'', leaf ''1'')])]"
  have "merge_fuel n ptree_ops ?t pt1 [] = None"
    by (induction n) (simp_all add: ptree_ops_def Let_def)
  then show ?thesis by (simp add: ptreeMerge_def)
qed

end
