(* ===== verification/Disk.thy ===== *)
theory Disk
  imports Prelude
begin

text \<open>
  The file system the program runs on, as far as the queue, the configuration and the lock
  file see it: the entries by their native path, and for every path whether the process may
  open it for reading, open it for writing and delete it. \<open>std::ofstream::open\<close> truncates an
  existing file or creates one; \<open>boost::filesystem::remove\<close> throws when it may not delete.
\<close>

datatype node = Regular string | Directory

record disk =
  entries :: "(string \<times> node) list"
  rd_ok :: "string \<Rightarrow> bool"
  wr_ok :: "string \<Rightarrow> bool"
  rm_ok :: "string \<Rightarrow> bool"

definition node_at :: "disk \<Rightarrow> string \<Rightarrow> node option" where
  "node_at d p = map_of (entries d) p"

definition disk_exists :: "disk \<Rightarrow> string \<Rightarrow> bool" where
  "disk_exists d p = (node_at d p \<noteq> None)"

definition disk_is_regular :: "disk \<Rightarrow> string \<Rightarrow> bool" where
  "disk_is_regular d p = (case node_at d p of Some (Regular c) \<Rightarrow> True | _ \<Rightarrow> False)"

definition disk_read :: "disk \<Rightarrow> string \<Rightarrow> string option" where
  "disk_read d p =
     (case node_at d p of
        Some (Regular c) \<Rightarrow> if rd_ok d p then Some c else None
      | _ \<Rightarrow> None)"

definition disk_write :: "string \<Rightarrow> string \<Rightarrow> disk \<Rightarrow> disk" where
  "disk_write p c d = d\<lparr>entries := AList.update p (Regular c) (entries d)\<rparr>"

definition disk_can_write :: "disk \<Rightarrow> string \<Rightarrow> bool" where
  "disk_can_write d p \<longleftrightarrow> wr_ok d p \<and> node_at d p \<noteq> Some Directory"

definition disk_delete :: "string \<Rightarrow> disk \<Rightarrow> disk" where
  "disk_delete p d = d\<lparr>entries := AList.delete p (entries d)\<rparr>"

lemma node_at_write [simp]:
  "node_at (disk_write p c d) = (node_at d)(p \<mapsto> Regular c)"
  by (simp add: node_at_def disk_write_def update_conv' fun_eq_iff)

lemma node_at_delete [simp]:
  "node_at (disk_delete p d) = (node_at d)(p := None)"
  by (simp add: node_at_def disk_delete_def delete_conv' fun_eq_iff)

lemma disk_perms [simp]:
  "rd_ok (disk_write p c d) = rd_ok d" "wr_ok (disk_write p c d) = wr_ok d"
  "rm_ok (disk_write p c d) = rm_ok d" "rd_ok (disk_delete p d) = rd_ok d"
  "wr_ok (disk_delete p d) = wr_ok d" "rm_ok (disk_delete p d) = rm_ok d"
  by (simp_all add: disk_write_def disk_delete_def)

lemma disk_read_write: "rd_ok d p \<Longrightarrow> disk_read (disk_write p c d) p = Some c"
  by (simp add: disk_read_def)

lemma disk_read_write_other: "p \<noteq> q \<Longrightarrow> disk_read (disk_write p c d) q = disk_read d q"
  by (simp add: disk_read_def split: option.split node.split)

lemma disk_read_delete_other: "p \<noteq> q \<Longrightarrow> disk_read (disk_delete p d) q = disk_read d q"
  by (simp add: disk_read_def split: option.split node.split)

lemma disk_exists_simps [simp]:
  "disk_exists (disk_write p c d) q \<longleftrightarrow> q = p \<or> disk_exists d q"
  "disk_exists (disk_delete p d) q \<longleftrightarrow> q \<noteq> p \<and> disk_exists d q"
  by (auto simp: disk_exists_def)

lemma disk_is_regular_simps [simp]:
  "disk_is_regular (disk_write p c d) q \<longleftrightarrow> q = p \<or> disk_is_regular d q"
  "disk_is_regular (disk_delete p d) q \<longleftrightarrow> q \<noteq> p \<and> disk_is_regular d q"
  by (auto simp: disk_is_regular_def)

lemma disk_can_write_after [simp]:
  "disk_can_write d p \<Longrightarrow> disk_can_write (disk_write p c d) r = disk_can_write d r"
  by (auto simp: disk_can_write_def)

end
