(* ===== verification/Configuration.thy ===== *)
theory Configuration
  imports Ptree_Util Disk
begin

text \<open>
  \<open>Config\<close> (kisscpp/configuration.hpp and .cpp): where the configuration files are, how the
  common and the instance file combine, the white lists, the default directories and the
  singleton. \<open>cfg_env\<close> holds what the code calls: the environment, \<open>create_directories\<close> (\<open>None\<close>
  when it throws) and Boost's JSON reader applied to a file's contents. \<open>fuel\<close> bounds the
  recursion of \<open>ptreeMerge\<close>, which need not end; running out is the error \<open>Cfg_no_return\<close>.
\<close>

section \<open>State\<close>

record 'p cfg_env =
  env_var :: "string \<Rightarrow> string option"
  make_dirs :: "string \<Rightarrow> disk \<Rightarrow> disk option"
  parse_json :: "string \<Rightarrow> 'p option"
  fuel :: nat

record instance_list =
  all_instances :: bool
  instances :: "string set"

record 'p config =
  config_path_instance :: string
  config_path_common :: string
  cfg_data :: 'p
  application_id :: string
  application_instance :: string
  allow_all_ip_addrs :: bool
  allow_all_applications :: bool
  comms_white_list_ip_addrs :: "string set"
  comms_white_list_applications :: "(string, instance_list) smap"

datatype cfg_error =
  Cfg_bad_path string | Cfg_bad_data string | Cfg_json string | Cfg_filesystem string | Cfg_no_return

type_synonym 'p cstate = "'p config \<times> disk"

section \<open>Questions\<close>

definition addAppInstance :: "string \<Rightarrow> instance_list \<Rightarrow> instance_list" where
  "addAppInstance instanceId l = l\<lparr>instances := insert instanceId (instances l)\<rparr>"

definition isAllowedInstance :: "instance_list \<Rightarrow> string \<Rightarrow> bool" where
  "isAllowedInstance l instanceId \<longleftrightarrow> (if all_instances l then True else instanceId \<in> instances l)"

definition isAllowedIp :: "'p config \<Rightarrow> string \<Rightarrow> bool" where
  "isAllowedIp c ip_address \<longleftrightarrow>
     (if allow_all_ip_addrs c then True else ip_address \<in> comms_white_list_ip_addrs c)"

definition isAllowedClient :: "'p config \<Rightarrow> string \<Rightarrow> string \<Rightarrow> bool" where
  "isAllowedClient c app_id app_instance \<longleftrightarrow>
     (if allow_all_applications c then True
      else case smap_find (comms_white_list_applications c) app_id of
             None \<Rightarrow> False
           | Some l \<Rightarrow> isAllowedInstance l app_instance)"

section \<open>Reading values\<close>

text \<open>
  The typed accessors: \<open>conv\<close> reads the text of a value as the type asked for, \<open>Cfg_bad_data\<close> is
  what a text that is none throws. A default also stands in for a text that cannot be read.
\<close>

definition get_child :: "'p pt_ops \<Rightarrow> 'p config \<Rightarrow> string \<Rightarrow> cfg_error + 'p" where
  "get_child ops c s =
     (case pt_get_child ops (cfg_data c) s of None \<Rightarrow> Inl (Cfg_bad_path s) | Some t \<Rightarrow> Inr t)"

definition get_optional :: "'p pt_ops \<Rightarrow> (string \<Rightarrow> 't option) \<Rightarrow> 'p config \<Rightarrow> string \<Rightarrow> 't option" where
  "get_optional ops conv c s = Option.bind (pt_get ops (cfg_data c) s) conv"

definition get_value :: "'p pt_ops \<Rightarrow> (string \<Rightarrow> 't option) \<Rightarrow> 'p config \<Rightarrow> string \<Rightarrow> cfg_error + 't" where
  "get_value ops conv c s =
     (case pt_get ops (cfg_data c) s of
        None \<Rightarrow> Inl (Cfg_bad_path s)
      | Some v \<Rightarrow> (case conv v of None \<Rightarrow> Inl (Cfg_bad_data s) | Some x \<Rightarrow> Inr x))"

definition get_default :: "'p pt_ops \<Rightarrow> (string \<Rightarrow> 't option) \<Rightarrow> 'p config \<Rightarrow> string \<Rightarrow> 't \<Rightarrow> 't" where
  "get_default ops conv c s default_value =
     (case get_optional ops conv c s of None \<Rightarrow> default_value | Some x \<Rightarrow> x)"

lemma get_default_value:
  "get_default ops conv c s x = (case get_value ops conv c s of Inl e \<Rightarrow> x | Inr y \<Rightarrow> y)"
  by (simp add: get_default_def get_optional_def get_value_def split: option.split)

section \<open>The white lists\<close>

definition flag :: "'p pt_ops \<Rightarrow> 'p \<Rightarrow> string \<Rightarrow> bool" where
  "flag ops t p \<longleftrightarrow> pt_get_or ops t p ''false'' = ''true''"

definition child_data :: "'p pt_ops \<Rightarrow> 'p \<Rightarrow> string list" where
  "child_data ops t = map (\<lambda>v. pt_data ops (snd v)) (pt_children ops t)"

text \<open>\<open>comms_white_list_applications[app_id]\<close>: an absent entry is value-initialised.\<close>

definition entry_of :: "(string, instance_list) smap \<Rightarrow> string \<Rightarrow> instance_list" where
  "entry_of m app = (case smap_find m app of None \<Rightarrow> \<lparr>all_instances = False, instances = {}\<rparr> | Some l \<Rightarrow> l)"

definition add_application ::
  "'p pt_ops \<Rightarrow> 'p \<Rightarrow> (string, instance_list) smap \<Rightarrow>
   (cfg_error, unit, (string, instance_list) smap) outcome" where
  "add_application ops v m =
     (case pt_get ops v ''id'' of
        None \<Rightarrow> (Inl (Cfg_bad_path ''id''), m)
      | Some app \<Rightarrow>
          (let e = (entry_of m app)\<lparr>all_instances := flag ops v ''all-instances''\<rparr>
           in if all_instances e then (Inr (), smap_put app e m)
              else case pt_get_child ops v ''instance-list'' of
                     None \<Rightarrow> (Inl (Cfg_bad_path ''instance-list''), smap_put app e m)
                   | Some l \<Rightarrow> (Inr (), smap_put app (fold addAppInstance (child_data ops l) e) m)))"

fun add_applications ::
  "'p pt_ops \<Rightarrow> (string \<times> 'p) list \<Rightarrow> (string, instance_list) smap \<Rightarrow>
   (cfg_error, unit, (string, instance_list) smap) outcome" where
  "add_applications ops [] m = (Inr (), m)"
| "add_applications ops ((k, v) # cs) m =
     (if k = ''application''
      then and_then (add_application ops v m) (\<lambda>_ m1. add_applications ops cs m1)
      else add_applications ops cs m)"

definition white_ips :: "'p pt_ops \<Rightarrow> 'p config \<Rightarrow> (cfg_error, unit, 'p config) outcome" where
  "white_ips ops c =
     (if allow_all_ip_addrs c then (Inr (), c)
      else case pt_get_child ops (cfg_data c) ''kcc-white-list.ip-list'' of
             None \<Rightarrow> (Inl (Cfg_bad_path ''kcc-white-list.ip-list''), c)
           | Some l \<Rightarrow> (Inr (), c\<lparr>comms_white_list_ip_addrs :=
                          fold insert (child_data ops l) (comms_white_list_ip_addrs c)\<rparr>))"

definition white_apps :: "'p pt_ops \<Rightarrow> 'p config \<Rightarrow> (cfg_error, unit, 'p config) outcome" where
  "white_apps ops c =
     (if allow_all_applications c then (Inr (), c)
      else case pt_get_child ops (cfg_data c) ''kcc-white-list.application-list'' of
             None \<Rightarrow> (Inl (Cfg_bad_path ''kcc-white-list.application-list''), c)
           | Some l \<Rightarrow>
               (let (r, m) = add_applications ops (pt_children ops l) (comms_white_list_applications c)
                in (r, c\<lparr>comms_white_list_applications := m\<rparr>)))"

definition populateWhiteLists ::
  "'p pt_ops \<Rightarrow> 'p config \<Rightarrow> (cfg_error, unit, 'p config) outcome" where
  "populateWhiteLists ops c =
     (if pt_has ops (cfg_data c) ''kcc-white-list'' then
        and_then
          (white_ips ops (c\<lparr>allow_all_ip_addrs := flag ops (cfg_data c) ''kcc-white-list.all-ip-addrs'',
                            allow_all_applications := flag ops (cfg_data c) ''kcc-white-list.all-apps''\<rparr>))
          (\<lambda>_ c1. white_apps ops c1)
      else (Inr (), c\<lparr>allow_all_ip_addrs := True, allow_all_applications := True\<rparr>))"

section \<open>Directories and files\<close>

definition cache_and_queue_root :: "'p cfg_env \<Rightarrow> string \<times> string" where
  "cache_and_queue_root V =
     (case (env_var V ''KCPP_CACHE_ROOT'', env_var V ''KCPP_QUE_ROOT'') of
        (Some cr, Some qr) \<Rightarrow> (cr, qr)
      | (Some cr, None) \<Rightarrow> (cr, cr)
      | (None, Some qr) \<Rightarrow> (qr, qr)
      | (None, None) \<Rightarrow> (''/tmp'', ''/tmp''))"

definition populateDefaultDirs ::
  "'p cfg_env \<Rightarrow> 'p pt_ops \<Rightarrow> 'p cstate \<Rightarrow> (cfg_error, unit, 'p cstate) outcome" where
  "populateDefaultDirs V ops s =
     (let c = fst s;
          sub = ''/'' @ application_id c @ ''/'' @ application_instance c;
          cache_dir = fst (cache_and_queue_root V) @ sub;
          queue_dir = snd (cache_and_queue_root V) @ sub
      in case make_dirs V cache_dir (snd s) of
           None \<Rightarrow> (Inl (Cfg_filesystem cache_dir), s)
         | Some d1 \<Rightarrow>
             (case make_dirs V queue_dir d1 of
                None \<Rightarrow> (Inl (Cfg_filesystem queue_dir), (c, d1))
              | Some d2 \<Rightarrow>
                  (Inr (), (c\<lparr>cfg_data := pt_put ops ''app-queue-dir'' queue_dir
                                (pt_put ops ''app-cache-dir'' cache_dir (cfg_data c))\<rparr>, d2))))"

text \<open>The static \<open>loadConfig\<close>: no file is no error, a file that cannot be read or parsed is.\<close>

definition load_file :: "'p cfg_env \<Rightarrow> disk \<Rightarrow> string \<Rightarrow> cfg_error + 'p option" where
  "load_file V d cfg_path =
     (if disk_exists d cfg_path \<and> disk_is_regular d cfg_path then
        (case disk_read d cfg_path of
           None \<Rightarrow> Inl (Cfg_json cfg_path)
         | Some contents \<Rightarrow>
             (case parse_json V contents of
                None \<Rightarrow> Inl (Cfg_json cfg_path)
              | Some t \<Rightarrow> Inr (Some t)))
      else Inr None)"

definition merge_into ::
  "'p cfg_env \<Rightarrow> 'p pt_ops \<Rightarrow> 'p \<Rightarrow> 'p config \<Rightarrow> (cfg_error, unit, 'p config) outcome" where
  "merge_into V ops cfg_instance c =
     (case ptreeMerge (fuel V) ops (cfg_data c) cfg_instance of
        None \<Rightarrow> (Inl Cfg_no_return, c)
      | Some (Inl p) \<Rightarrow> (Inl (Cfg_bad_path p), c)
      | Some (Inr t) \<Rightarrow> (Inr (), c\<lparr>cfg_data := t\<rparr>))"

definition load_data :: "'p cfg_env \<Rightarrow> 'p pt_ops \<Rightarrow> disk \<Rightarrow> 'p config \<Rightarrow> (cfg_error, unit, 'p config) outcome" where
  "load_data V ops d c =
     (case load_file V d (config_path_common c) of
        Inl e \<Rightarrow> (Inl e, c)
      | Inr (Some common) \<Rightarrow>
          (case load_file V d (config_path_instance c) of
             Inl e \<Rightarrow> (Inl e, c\<lparr>cfg_data := common\<rparr>)
           | Inr None \<Rightarrow> (Inr (), c\<lparr>cfg_data := common\<rparr>)
           | Inr (Some cfg_instance) \<Rightarrow> merge_into V ops cfg_instance (c\<lparr>cfg_data := common\<rparr>))
      | Inr None \<Rightarrow>
          (case load_file V d (config_path_instance c) of
             Inl e \<Rightarrow> (Inl e, c)
           | Inr None \<Rightarrow> (Inr (), c)
           | Inr (Some cfg_instance) \<Rightarrow> (Inr (), c\<lparr>cfg_data := cfg_instance\<rparr>)))"

definition loadConfig ::
  "'p cfg_env \<Rightarrow> 'p pt_ops \<Rightarrow> 'p cstate \<Rightarrow> (cfg_error, unit, 'p cstate) outcome" where
  "loadConfig V ops s =
     (let (r1, c1) = load_data V ops (snd s) (fst s)
      in case r1 of
           Inl e \<Rightarrow> (Inl e, (c1, snd s))
         | Inr u \<Rightarrow>
             (let (r2, c2) = populateWhiteLists ops c1
              in case r2 of
                   Inl e \<Rightarrow> (Inl e, (c2, snd s))
                 | Inr u \<Rightarrow> populateDefaultDirs V ops (c2, snd s)))"

definition config_root :: "'p cfg_env \<Rightarrow> string \<Rightarrow> string \<Rightarrow> string" where
  "config_root V app explicit_config_path =
     (let root = (if explicit_config_path = []
                  then (case env_var V ''KCPP_CFG_ROOT'' of None \<Rightarrow> ''/etc/kisscpp'' | Some r \<Rightarrow> r)
                  else explicit_config_path)
      in root @ ''/'' @ app @
         (case env_var V ''KCPP_EXEC_ENV'' of None \<Rightarrow> [] | Some x \<Rightarrow> ''/'' @ x))"

definition initiate ::
  "'p cfg_env \<Rightarrow> 'p pt_ops \<Rightarrow> string \<Rightarrow> 'p cstate \<Rightarrow> (cfg_error, unit, 'p cstate) outcome" where
  "initiate V ops explicit_config_path s =
     (let c = fst s;
          root = config_root V (application_id c) explicit_config_path
      in loadConfig V ops
           (c\<lparr>config_path_instance :=
                root @ ''/'' @ application_id c @ ''.'' @ application_instance c @ ''.kcppcfg'',
              config_path_common := root @ ''/'' @ application_id c @ ''.'' @ ''common'' @ ''.kcppcfg''\<rparr>,
            snd s))"

section \<open>The singleton\<close>

definition fresh_config :: "'p pt_ops \<Rightarrow> string \<Rightarrow> string \<Rightarrow> 'p config" where
  "fresh_config ops app_id app_instance =
     \<lparr>config_path_instance = [], config_path_common = [], cfg_data = pt_new ops,
      application_id = app_id, application_instance = app_instance,
      allow_all_ip_addrs = False, allow_all_applications = False,
      comms_white_list_ip_addrs = {}, comms_white_list_applications = []\<rparr>"

definition new_config ::
  "'p cfg_env \<Rightarrow> 'p pt_ops \<Rightarrow> string \<Rightarrow> string \<Rightarrow> string \<Rightarrow> disk \<Rightarrow> (cfg_error, unit, 'p cstate) outcome" where
  "new_config V ops app_id app_instance path d =
     initiate V ops path (fresh_config ops app_id app_instance, d)"

text \<open>A constructor that throws leaves the pointer null.\<close>

definition config_instance ::
  "'p cfg_env \<Rightarrow> 'p pt_ops \<Rightarrow> string \<Rightarrow> string \<Rightarrow> string \<Rightarrow> 'p config option \<times> disk \<Rightarrow>
   (cfg_error, 'p config, 'p config option \<times> disk) outcome" where
  "config_instance V ops app_id app_instance path s =
     (case fst s of
        Some c \<Rightarrow> (Inr c, s)
      | None \<Rightarrow>
          (let (r, (c, d)) = new_config V ops app_id app_instance path (snd s)
           in case r of Inl e \<Rightarrow> (Inl e, (None, d)) | Inr u \<Rightarrow> (Inr c, (Some c, d))))"

end
