(* ===== verification/Configuration_Theorems.thy ===== *)
theory Configuration_Theorems
  imports Configuration
begin

text \<open>
  The properties of the configuration: what the white lists admit, stated over the configuration
  tree alone, and which file a value comes from.
\<close>

section \<open>What a white list admits\<close>

text \<open>The \<open>application\<close> entries of one identifier, in the order of the file.\<close>

definition entries_for :: "'p pt_ops \<Rightarrow> string \<Rightarrow> (string \<times> 'p) list \<Rightarrow> 'p list" where
  "entries_for ops app cs =
     map snd (filter (\<lambda>(k, v). k = ''application'' \<and> pt_get ops v ''id'' = Some app) cs)"

definition listed_instances :: "'p pt_ops \<Rightarrow> 'p \<Rightarrow> string set" where
  "listed_instances ops v =
     (if flag ops v ''all-instances'' then {}
      else case pt_get_child ops v ''instance-list'' of None \<Rightarrow> {} | Some l \<Rightarrow> set (child_data ops l))"

definition admits_ip :: "'p pt_ops \<Rightarrow> 'p \<Rightarrow> string \<Rightarrow> bool" where
  "admits_ip ops t ip \<longleftrightarrow>
     \<not> pt_has ops t ''kcc-white-list'' \<or> flag ops t ''kcc-white-list.all-ip-addrs'' \<or>
     (case pt_get_child ops t ''kcc-white-list.ip-list'' of
        None \<Rightarrow> False
      | Some l \<Rightarrow> ip \<in> set (child_data ops l))"

definition admits_client :: "'p pt_ops \<Rightarrow> 'p \<Rightarrow> string \<Rightarrow> string \<Rightarrow> bool" where
  "admits_client ops t app inst \<longleftrightarrow>
     \<not> pt_has ops t ''kcc-white-list'' \<or> flag ops t ''kcc-white-list.all-apps'' \<or>
     (case pt_get_child ops t ''kcc-white-list.application-list'' of
        None \<Rightarrow> False
      | Some l \<Rightarrow> (let es = entries_for ops app (pt_children ops l)
         in es \<noteq> [] \<and> (flag ops (last es) ''all-instances'' \<or>
                        inst \<in> (\<Union>v\<in>set es. listed_instances ops v))))"

definition entry_complete :: "'p pt_ops \<Rightarrow> 'p \<Rightarrow> bool" where
  "entry_complete ops v \<longleftrightarrow> pt_get ops v ''id'' \<noteq> None \<and>
     (flag ops v ''all-instances'' \<or> pt_get_child ops v ''instance-list'' \<noteq> None)"

definition lists_complete :: "'p pt_ops \<Rightarrow> 'p \<Rightarrow> bool" where
  "lists_complete ops t \<longleftrightarrow>
     pt_has ops t ''kcc-white-list'' \<longrightarrow>
       (flag ops t ''kcc-white-list.all-ip-addrs'' \<or>
        pt_get_child ops t ''kcc-white-list.ip-list'' \<noteq> None) \<and>
       (flag ops t ''kcc-white-list.all-apps'' \<or>
        (case pt_get_child ops t ''kcc-white-list.application-list'' of
           None \<Rightarrow> False
         | Some l \<Rightarrow> (\<forall>(k, v)\<in>set (pt_children ops l). k = ''application'' \<longrightarrow> entry_complete ops v)))"

lemma fold_addAppInstance:
  "fold addAppInstance xs e = e\<lparr>instances := set xs \<union> instances e\<rparr>"
  by (induction xs arbitrary: e) (auto simp: addAppInstance_def)

lemma fold_insert_set: "fold insert xs A = set xs \<union> A"
  by (induction xs arbitrary: A) auto

lemma add_application_complete:
  "(fst (add_application ops v m) = Inr ()) = entry_complete ops v"
  by (auto simp: add_application_def entry_complete_def Let_def split: option.split)

lemma add_application_ok:
  assumes "entry_complete ops v" "pt_get ops v ''id'' = Some app"
  shows "add_application ops v m = (Inr (), smap_put app
    \<lparr>all_instances = flag ops v ''all-instances'',
     instances = listed_instances ops v \<union> instances (entry_of m app)\<rparr> m)"
proof -
  obtain a i where e: "entry_of m app = \<lparr>all_instances = a, instances = i\<rparr>"
    by (cases "entry_of m app") auto
  then show ?thesis using assms
    by (auto simp: add_application_def entry_complete_def listed_instances_def Let_def
        fold_addAppInstance split: option.split)
qed

lemma add_applications_complete:
  "(fst (add_applications ops cs m) = Inr ()) \<longleftrightarrow>
   (\<forall>(k, v)\<in>set cs. k = ''application'' \<longrightarrow> entry_complete ops v)"
proof (induction cs arbitrary: m)
  case (Cons c cs)
  obtain k v where c: "c = (k, v)" by fastforce
  obtain r m1 where r: "add_application ops v m = (r, m1)" by fastforce
  with Cons.IH [of m] Cons.IH [of m1] add_application_complete [of ops v m] c show ?case
    by (cases r) auto
qed simp

lemma entries_for_Cons:
  "entries_for ops app ((k, v) # cs) =
     (if k = ''application'' \<and> pt_get ops v ''id'' = Some app then v # entries_for ops app cs
      else entries_for ops app cs)"
  by (simp add: entries_for_def)

lemma add_applications_find:
  assumes "\<forall>(k, v)\<in>set cs. k = ''application'' \<longrightarrow> entry_complete ops v"
  shows "smap_find (snd (add_applications ops cs m)) app =
    (let es = entries_for ops app cs
     in if es = [] then smap_find m app
        else Some \<lparr>all_instances = flag ops (last es) ''all-instances'',
                   instances = (\<Union>v\<in>set es. listed_instances ops v) \<union> instances (entry_of m app)\<rparr>)"
  using assms
proof (induction cs arbitrary: m)
  case Nil
  then show ?case by (simp add: entries_for_def)
next
  case (Cons c cs)
  obtain k v where c: "c = (k, v)" by fastforce
  have rest: "\<forall>(k, v)\<in>set cs. k = ''application'' \<longrightarrow> entry_complete ops v" using Cons.prems by simp
  show ?case
  proof (cases "k = ''application''")
    case True
    with Cons.prems c have "entry_complete ops v" by auto
    then obtain i where i: "pt_get ops v ''id'' = Some i" "entry_complete ops v"
      by (auto simp: entry_complete_def)
    note ok = add_application_ok [OF i(2,1)]
    show ?thesis
    proof (cases "i = app")
      case True
      show ?thesis
        using Cons.IH [OF rest, of "snd (add_application ops v m)"] c \<open>k = ''application''\<close> True i
        by (auto simp: ok entries_for_Cons Let_def smap_find_put entry_of_def)
    next
      case False
      show ?thesis
        using Cons.IH [OF rest, of "snd (add_application ops v m)"] c \<open>k = ''application''\<close> False i
        by (simp add: ok entries_for_Cons Let_def smap_find_put entry_of_def)
    qed
  next
    case False
    then show ?thesis using Cons.IH [OF rest, of m] c by (simp add: entries_for_Cons)
  qed
qed

lemma white_ips_effect:
  "fst (white_ips ops c) = Inr () \<longleftrightarrow>
     allow_all_ip_addrs c \<or> pt_get_child ops (cfg_data c) ''kcc-white-list.ip-list'' \<noteq> None"
  "comms_white_list_ip_addrs c = {} \<Longrightarrow> isAllowedIp (snd (white_ips ops c)) ip \<longleftrightarrow>
     allow_all_ip_addrs c \<or>
     (case pt_get_child ops (cfg_data c) ''kcc-white-list.ip-list'' of
        None \<Rightarrow> False | Some l \<Rightarrow> ip \<in> set (child_data ops l))"
  by (auto simp: white_ips_def isAllowedIp_def fold_insert_set split: option.split)

lemma white_ips_frame [simp]:
  "cfg_data (snd (white_ips ops c)) = cfg_data c"
  "comms_white_list_applications (snd (white_ips ops c)) = comms_white_list_applications c"
  "allow_all_applications (snd (white_ips ops c)) = allow_all_applications c"
  by (auto simp: white_ips_def split: option.split)

lemma white_apps_frame [simp]:
  "cfg_data (snd (white_apps ops c)) = cfg_data c"
  "isAllowedIp (snd (white_apps ops c)) ip = isAllowedIp c ip"
  by (auto simp: white_apps_def isAllowedIp_def split: option.split prod.split)

lemma white_apps_complete:
  "fst (white_apps ops c) = Inr () \<longleftrightarrow> allow_all_applications c \<or>
     (case pt_get_child ops (cfg_data c) ''kcc-white-list.application-list'' of
        None \<Rightarrow> False
      | Some l \<Rightarrow> (\<forall>(k, v)\<in>set (pt_children ops l). k = ''application'' \<longrightarrow> entry_complete ops v))"
  by (simp add: white_apps_def add_applications_complete
        [of ops _ "comms_white_list_applications c", symmetric] split: option.split prod.split)

lemma white_apps_admits:
  assumes "fst (white_apps ops c) = Inr ()" "comms_white_list_applications c = []"
  shows "isAllowedClient (snd (white_apps ops c)) app inst \<longleftrightarrow> allow_all_applications c \<or>
    (case pt_get_child ops (cfg_data c) ''kcc-white-list.application-list'' of
       None \<Rightarrow> False
     | Some l \<Rightarrow> (let es = entries_for ops app (pt_children ops l)
        in es \<noteq> [] \<and> (flag ops (last es) ''all-instances'' \<or>
                       inst \<in> (\<Union>v\<in>set es. listed_instances ops v))))"
proof (cases "allow_all_applications c")
  case True
  then show ?thesis by (simp add: white_apps_def isAllowedClient_def)
next
  case False
  then obtain l where l: "pt_get_child ops (cfg_data c) ''kcc-white-list.application-list'' = Some l"
    "\<forall>(k, v)\<in>set (pt_children ops l). k = ''application'' \<longrightarrow> entry_complete ops v"
    using assms(1) by (auto simp: white_apps_complete split: option.splits)
  obtain r m where rm: "add_applications ops (pt_children ops l) [] = (r, m)" by fastforce
  have "smap_find m app = (let es = entries_for ops app (pt_children ops l)
     in if es = [] then None
        else Some \<lparr>all_instances = flag ops (last es) ''all-instances'',
                   instances = (\<Union>v\<in>set es. listed_instances ops v)\<rparr>)"
    using add_applications_find [OF l(2), of "[]" app] rm
    by (simp add: entry_of_def Let_def split: if_splits)
  with False l(1) rm assms(2) show ?thesis
    by (simp add: white_apps_def isAllowedClient_def isAllowedInstance_def Let_def)
qed

section \<open>Where a value comes from\<close>

definition cfg_value :: "'p pt_ops \<Rightarrow> 'p option \<Rightarrow> string \<Rightarrow> string option" where
  "cfg_value ops t k = (case t of None \<Rightarrow> None | Some u \<Rightarrow> pt_get ops u k)"

lemma load_data_value:
  assumes pt: "property_tree ops" and "0 < fuel V"
    and load: "load_data V ops d c = (Inr (), c1)"
    and co: "load_file V d (config_path_common c) = Inr co"
    and io: "load_file V d (config_path_instance c) = Inr io"
    and flat: "\<forall>t. io = Some t \<longrightarrow> flat_tree ops t" and "one_part k"
    and new: "pt_get ops (cfg_data c) k = None"
  shows "pt_get ops (cfg_data c1) k =
      (case cfg_value ops io k of Some v \<Rightarrow> Some v | None \<Rightarrow> cfg_value ops co k)"
proof (cases co)
  case None
  with load co io new show ?thesis
    by (cases io) (auto simp: load_data_def cfg_value_def split: option.split)
next
  case (Some common)
  show ?thesis
  proof (cases io)
    case None
    with load co io Some show ?thesis by (auto simp: load_data_def cfg_value_def)
  next
    case inst: (Some t)
    obtain u where u: "ptreeMerge (fuel V) ops common t = Some (Inr u)"
      "\<forall>l. one_part l \<longrightarrow> pt_get ops u l =
         (case pt_get ops t l of None \<Rightarrow> pt_get ops common l | Some v \<Rightarrow> Some v)"
      by (rule property_tree.merge_flat [OF pt _ assms(2)]) (use flat inst in auto)
    with load co io Some inst have "cfg_data c1 = u"
      by (auto simp: load_data_def merge_into_def)
    with u(2) assms(7) Some inst show ?thesis by (simp add: cfg_value_def split: option.split)
  qed
qed

lemma load_data_frame:
  "load_data V ops d c = (r, c1) \<Longrightarrow>
   config_path_common c1 = config_path_common c \<and> config_path_instance c1 = config_path_instance c \<and>
   application_id c1 = application_id c \<and> application_instance c1 = application_instance c"
  by (auto simp: load_data_def merge_into_def split: sum.splits option.splits)

lemma white_lists_frame:
  "populateWhiteLists ops c = (r, c1) \<Longrightarrow>
   cfg_data c1 = cfg_data c \<and>
   config_path_common c1 = config_path_common c \<and> config_path_instance c1 = config_path_instance c \<and>
   application_id c1 = application_id c \<and> application_instance c1 = application_instance c"
  by (auto simp: populateWhiteLists_def white_ips_def white_apps_def split: if_splits option.splits prod.splits)

lemma initiate_parts:
  assumes "initiate V ops path (c0, d) = (Inr (), (c, d'))"
  obtains c1 c2 where
    "load_data V ops d (c0\<lparr>config_path_instance := config_path_instance c, config_path_common := config_path_common c\<rparr>)
       = (Inr (), c1)"
    "populateWhiteLists ops c1 = (Inr (), c2)" "populateDefaultDirs V ops (c2, d) = (Inr (), (c, d'))"
    "application_id c2 = application_id c0" "application_instance c2 = application_instance c0"
proof -
  let ?root = "config_root V (application_id c0) path @ ''/'' @ application_id c0"
  let ?c = "c0\<lparr>config_path_instance := ?root @ ''.'' @ application_instance c0 @ ''.kcppcfg'',
      config_path_common := ?root @ ''.'' @ ''common'' @ ''.kcppcfg''\<rparr>"
  have i: "loadConfig V ops (?c, d) = (Inr (), (c, d'))" using assms by (simp add: initiate_def Let_def)
  then obtain c1 c2 where l: "load_data V ops d ?c = (Inr (), c1)"
    "populateWhiteLists ops c1 = (Inr (), c2)" "populateDefaultDirs V ops (c2, d) = (Inr (), (c, d'))"
    by (auto simp: loadConfig_def split: prod.splits sum.splits)
  from l(3) have p: "config_path_common c = config_path_common c2" "config_path_instance c = config_path_instance c2"
    by (auto simp: populateDefaultDirs_def Let_def split: option.splits)
  show thesis
    by (rule that [of c1 c2]) (use l p load_data_frame [OF l(1)] white_lists_frame [OF l(2)] in simp_all)
qed

section \<open>Properties\<close>

text \<open>
  C10. The white lists of a configuration loaded for the first time. Reading them succeeds exactly
  when every list that is not switched off by its flag is there and every application entry has
  its identifier and, unless it covers all instances, its list of instances; otherwise it throws.
  When it succeeds, an address is allowed exactly when there is no white list, all addresses are
  allowed or it is on the list, and a client exactly when there is no white list, all applications
  are allowed, or there is an entry for the application and either the last such entry covers
  all instances or one of them lists the instance.
\<close>

theorem white_list_admits:
  assumes "comms_white_list_ip_addrs c = {}" and "comms_white_list_applications c = []"
  shows "(fst (populateWhiteLists ops c) = Inr () \<longleftrightarrow> lists_complete ops (cfg_data c)) \<and>
    cfg_data (snd (populateWhiteLists ops c)) = cfg_data c \<and>
    (fst (populateWhiteLists ops c) = Inr () \<longrightarrow>
       isAllowedIp (snd (populateWhiteLists ops c)) ip = admits_ip ops (cfg_data c) ip \<and>
       isAllowedClient (snd (populateWhiteLists ops c)) app inst = admits_client ops (cfg_data c) app inst)"
proof (cases "pt_has ops (cfg_data c) ''kcc-white-list''")
  case False
  then show ?thesis
    by (simp add: populateWhiteLists_def lists_complete_def admits_ip_def admits_client_def
        isAllowedIp_def isAllowedClient_def)
next
  case True
  let ?c = "c\<lparr>allow_all_ip_addrs := flag ops (cfg_data c) ''kcc-white-list.all-ip-addrs'',
              allow_all_applications := flag ops (cfg_data c) ''kcc-white-list.all-apps''\<rparr>"
  have pop: "populateWhiteLists ops c = and_then (white_ips ops ?c) (\<lambda>_ c1. white_apps ops c1)"
    using True by (simp add: populateWhiteLists_def)
  show ?thesis
  proof (cases "fst (white_ips ops ?c) = Inr ()")
    case False
    then obtain e where "fst (white_ips ops ?c) = Inl e" by (cases "fst (white_ips ops ?c)") auto
    with False True show ?thesis
      unfolding pop white_ips_effect by (auto simp: and_then_def lists_complete_def)
  next
    case ok: True
    then have "populateWhiteLists ops c = white_apps ops (snd (white_ips ops ?c))"
      unfolding pop by (simp add: and_then_def)
    with True ok assms white_apps_admits [of ops "snd (white_ips ops ?c)" app inst]
      white_ips_effect [where ops = ops and c = ?c] white_apps_complete [of ops "snd (white_ips ops ?c)"]
    show ?thesis
      by (simp add: lists_complete_def admits_ip_def admits_client_def)
  qed
qed

text \<open>A configuration with a white list, as \<open>read_json\<close> gives it.\<close>

definition node :: "(string \<times> ptree) list \<Rightarrow> ptree" where
  "node cs = Ptree [] cs"

definition demo_white :: ptree where
  "demo_white = node [(''kcc-white-list'', node
     [(''ip-list'', node [([], leaf ''10.0.0.1''), ([], leaf ''10.0.0.2'')]),
      (''application-list'', node
        [(''application'', node [(''id'', leaf ''shop''), (''instance-list'', node [([], leaf ''1'')])]),
         (''application'', node [(''id'', leaf ''bank''), (''all-instances'', leaf ''true'')])])])]"

lemma white_list_admits_witness:
  "(let c = snd (populateWhiteLists ptree_ops ((fresh_config ptree_ops ''a'' ''0'')\<lparr>cfg_data := demo_white\<rparr>))
    in isAllowedIp c ''10.0.0.2'' \<and> \<not> isAllowedIp c ''10.0.0.3'' \<and>
       isAllowedClient c ''shop'' ''1'' \<and> \<not> isAllowedClient c ''shop'' ''2'' \<and>
       isAllowedClient c ''bank'' ''7'' \<and> \<not> isAllowedClient c ''pub'' ''1'')"
proof -
  let ?c = "(fresh_config ptree_ops ''a'' ''0'')\<lparr>cfg_data := demo_white\<rparr>"
  have e: "comms_white_list_ip_addrs ?c = {}" "comms_white_list_applications ?c = []"
    by (simp_all add: fresh_config_def)
  have "lists_complete ptree_ops demo_white" by code_simp
  moreover have "admits_ip ptree_ops demo_white ''10.0.0.2''" "\<not> admits_ip ptree_ops demo_white ''10.0.0.3''"
    "admits_client ptree_ops demo_white ''shop'' ''1''" "\<not> admits_client ptree_ops demo_white ''shop'' ''2''"
    "admits_client ptree_ops demo_white ''bank'' ''7''" "\<not> admits_client ptree_ops demo_white ''pub'' ''1''"
    by code_simp+
  ultimately show ?thesis
    using white_list_admits [OF e, of ptree_ops] by (simp add: Let_def)
qed

text \<open>
  Where a value of the first level comes from, when the configuration is loaded by a
  constructor and the instance file has one level only: from the instance file when it has the
  value, from the common file otherwise; without either file the tree has only the two
  directories, which are put there in any case.
\<close>

theorem config_value_sources:
  assumes "property_tree ops" and "0 < fuel V"
    and "initiate V ops path (fresh_config ops app inst, d) = (Inr (), (c, d'))"
    and "load_file V d (config_path_common c) = Inr co" and "load_file V d (config_path_instance c) = Inr io"
    and "\<forall>t. io = Some t \<longrightarrow> flat_tree ops t"
    and "one_part k" and "k \<noteq> ''app-cache-dir''" and "k \<noteq> ''app-queue-dir''"
  shows "pt_get ops (cfg_data c) k =
      (case cfg_value ops io k of Some v \<Rightarrow> Some v | None \<Rightarrow> cfg_value ops co k) \<and>
    pt_get ops (cfg_data c) ''app-cache-dir'' =
      Some (fst (cache_and_queue_root V) @ ''/'' @ app @ ''/'' @ inst) \<and>
    pt_get ops (cfg_data c) ''app-queue-dir'' =
      Some (snd (cache_and_queue_root V) @ ''/'' @ app @ ''/'' @ inst)"
proof -
  obtain c1 c2 where l:
    "load_data V ops d ((fresh_config ops app inst)\<lparr>config_path_instance := config_path_instance c,
        config_path_common := config_path_common c\<rparr>) = (Inr (), c1)"
    "populateWhiteLists ops c1 = (Inr (), c2)" "populateDefaultDirs V ops (c2, d) = (Inr (), (c, d'))"
    "application_id c2 = app" "application_instance c2 = inst"
    using initiate_parts [OF assms(3)] by (auto simp: fresh_config_def)
  have apart_dirs: "apart ''app-cache-dir'' k" "apart ''app-queue-dir'' k"
    "apart ''app-queue-dir'' ''app-cache-dir''"
    by (rule apart_one; use assms(7-9) in \<open>simp add: one_part_def\<close>)+
  note puts = property_tree.get_put [OF assms(1)] property_tree.get_put_other [OF assms(1)]
  have "pt_get ops (cfg_data c1) k =
      (case cfg_value ops io k of Some v \<Rightarrow> Some v | None \<Rightarrow> cfg_value ops co k)"
    using load_data_value [OF assms(1,2) l(1) _ _ assms(6,7), of co] assms(4,5,7)
      property_tree.get_new [OF assms(1), of k]
    by (auto simp: fresh_config_def one_part_def)
  moreover have "cfg_data c2 = cfg_data c1" using white_lists_frame [OF l(2)] by simp
  ultimately show ?thesis
    using l(3-5) apart_dirs by (auto simp: populateDefaultDirs_def Let_def puts split: option.splits)
qed

definition demo_cfg_env :: "ptree cfg_env" where
  "demo_cfg_env =
     \<lparr>env_var = (\<lambda>v. if v = ''KCPP_CFG_ROOT'' then Some ''/c'' else None),
      make_dirs = (\<lambda>p d. Some d),
      parse_json = (\<lambda>s. map_of
        [(''common'', node [(''site'', leaf ''A''), (''size'', leaf ''1''),
            (''kcc-server'', node [(''address'', leaf ''h''), (''port'', leaf ''9000'')])]),
         (''flat'', node [(''size'', leaf ''2'')]),
         (''nested'', node [(''kcc-server'', node [(''port'', leaf ''9001'')])])] s),
      fuel = 4\<rparr>"

definition cfg_disk :: "string \<Rightarrow> disk" where
  "cfg_disk file =
     \<lparr>entries = [(''/c/app/app.common.kcppcfg'', Regular ''common''), (''/c/app/app.1.kcppcfg'', Regular file)],
      rd_ok = (\<lambda>_. True), wr_ok = (\<lambda>_. True), rm_ok = (\<lambda>_. True)\<rparr>"

definition demo_config :: "string \<Rightarrow> ptree config" where
  "demo_config file =
     fst (snd (new_config demo_cfg_env ptree_ops ''app'' ''1'' [] (cfg_disk file)))"

lemma demo_config_ok: "file = ''flat'' \<or> file = ''nested'' \<Longrightarrow>
   fst (new_config demo_cfg_env ptree_ops ''app'' ''1'' [] (cfg_disk file)) = Inr ()"
  by (elim disjE; hypsubst) code_simp+

lemma config_value_sources_witness:
  "pt_get ptree_ops (cfg_data (demo_config ''flat'')) ''size'' = Some ''2'' \<and>
   pt_get ptree_ops (cfg_data (demo_config ''flat'')) ''app-cache-dir'' = Some ''/tmp/app/1''"
proof -
  obtain d' where i: "initiate demo_cfg_env ptree_ops [] (fresh_config ptree_ops ''app'' ''1'', cfg_disk ''flat'') =
      (Inr (), (demo_config ''flat'', d'))"
    using demo_config_ok [of "''flat''"] unfolding demo_config_def new_config_def by (metis prod.collapse)
  have f: "load_file demo_cfg_env (cfg_disk ''flat'') (config_path_common (demo_config ''flat'')) =
       Inr (Some (node [(''site'', leaf ''A''), (''size'', leaf ''1''),
            (''kcc-server'', node [(''address'', leaf ''h''), (''port'', leaf ''9000'')])]))"
    "load_file demo_cfg_env (cfg_disk ''flat'') (config_path_instance (demo_config ''flat'')) =
       Inr (Some (node [(''size'', leaf ''2'')]))"
    "flat_tree ptree_ops (node [(''size'', leaf ''2'')])"
    "cfg_value ptree_ops (Some (node [(''size'', leaf ''2'')])) ''size'' = Some ''2''"
    "fst (cache_and_queue_root demo_cfg_env) = ''/tmp''"
    by code_simp+
  have "0 < fuel demo_cfg_env" by (simp add: demo_cfg_env_def)
  from config_value_sources [OF boost.property_tree_axioms this i f(1,2), of "''size''"] f(3-5)
  show ?thesis by (simp add: one_part_def)
qed

text \<open>
  C40. A nested setting of the common file cannot be overridden, although every documented setting
  is nested: on trees as the library documents them, whatever the instance file says, a value at a
  path of two or more names that the common file has is the configuration's value. (The common
  file's names at the top have no dot.)
\<close>

theorem common_value_wins:
  assumes "initiate V ptree_ops path (fresh_config ptree_ops app inst, d) = (Inr (), (c, d'))"
    and "load_file V d (config_path_common c) = Inr (Some common)" and "plain_keys common"
    and "1 < length (path_of p)" and "pt_get ptree_ops common p = Some v"
  shows "pt_get ptree_ops (cfg_data c) p = Some v"
proof -
  obtain c1 c2 where l:
    "load_data V ptree_ops d ((fresh_config ptree_ops app inst)\<lparr>config_path_instance := config_path_instance c,
        config_path_common := config_path_common c\<rparr>) = (Inr (), c1)"
    "populateWhiteLists ptree_ops c1 = (Inr (), c2)" "populateDefaultDirs V ptree_ops (c2, d) = (Inr (), (c, d'))"
    using initiate_parts [OF assms(1)] by blast
  have ne: "path_of q \<noteq> path_of p" if "length (path_of q) = 1" for q
    using that assms(4) by (cases "path_of q = path_of p") simp_all
  have "keeps (path_of p) v common"
    using assms(3,5) by (simp add: keeps_def data_at_def ptree_ops_def)
  with l(1) assms(2) have "keeps (path_of p) v (cfg_data c1)"
    by (auto simp: load_data_def merge_into_def intro: keeps_merge [OF _ assms(4)]
        split: sum.splits option.splits)
  moreover have "cfg_data c2 = cfg_data c1" using white_lists_frame [OF l(2)] by simp
  moreover have "path_of ''app-cache-dir'' \<noteq> path_of p" "path_of ''app-queue-dir'' \<noteq> path_of p"
    by (rule ne; code_simp)+
  ultimately have "keeps (path_of p) v (cfg_data c)"
    using l(3) by (auto simp: populateDefaultDirs_def Let_def ptree_ops_def keeps_put split: option.splits)
  then show ?thesis by (simp add: keeps_def data_at_def ptree_ops_def)
qed

lemma common_value_wins_witness:
  "pt_get ptree_ops (cfg_data (demo_config ''nested'')) ''kcc-server.port'' = Some ''9000'' \<and>
   load_file demo_cfg_env (cfg_disk ''nested'') (config_path_instance (demo_config ''nested'')) =
     Inr (Some (node [(''kcc-server'', node [(''port'', leaf ''9001'')])]))"
proof -
  obtain d' where i: "initiate demo_cfg_env ptree_ops [] (fresh_config ptree_ops ''app'' ''1'', cfg_disk ''nested'') =
      (Inr (), (demo_config ''nested'', d'))"
    using demo_config_ok [of "''nested''"] unfolding demo_config_def new_config_def by (metis prod.collapse)
  let ?co = "node [(''site'', leaf ''A''), (''size'', leaf ''1''),
            (''kcc-server'', node [(''address'', leaf ''h''), (''port'', leaf ''9000'')])]"
  have f: "load_file demo_cfg_env (cfg_disk ''nested'') (config_path_common (demo_config ''nested'')) = Inr (Some ?co)"
    "plain_keys ?co" "1 < length (path_of ''kcc-server.port'')" "pt_get ptree_ops ?co ''kcc-server.port'' = Some ''9000''"
    "load_file demo_cfg_env (cfg_disk ''nested'') (config_path_instance (demo_config ''nested'')) =
       Inr (Some (node [(''kcc-server'', node [(''port'', leaf ''9001'')])]))"
    by code_simp+
  from common_value_wins [OF i f(1-4)] f(5) show ?thesis by blast
qed

end
