(* ===== verification/Request_Router.thy ===== *)
theory Request_Router
  imports Property_Tree
begin

text \<open>
  \<open>RequestStatus\<close>, \<open>RequestHandler\<close> and \<open>RequestRouter\<close> (kisscpp/request_status.hpp,
  request_handler.hpp, request_router.hpp). A handler is its identifier, its description and its
  virtual \<open>run\<close>, a function on the response and on the state \<open>'w\<close> of the server's other
  components that may throw. \<open>std::map\<close> holds the handlers by identifier.
\<close>

section \<open>Statuses and exceptions\<close>

datatype request_status =
    RQST_SUCCESS
  | RQST_COMMAND_NOT_SUPPORTED
  | RQST_INVALID_PARAMETER
  | RQST_MISSING_PARAMETER
  | RQST_APPLICATION_BUSY
  | RQST_APPLICATION_SHUTING_DOWN
  | RQST_CLIENT_DENIED
  | RQST_PROCESSING_FAILURE
  | RQST_UNKNOWN

text \<open>The values of the enumeration, and what \<open>put\<close> makes of them.\<close>

fun status_code :: "request_status \<Rightarrow> nat" where
  "status_code RQST_SUCCESS = 0"
| "status_code RQST_COMMAND_NOT_SUPPORTED = 1"
| "status_code RQST_INVALID_PARAMETER = 2"
| "status_code RQST_MISSING_PARAMETER = 3"
| "status_code RQST_APPLICATION_BUSY = 4"
| "status_code RQST_APPLICATION_SHUTING_DOWN = 5"
| "status_code RQST_CLIENT_DENIED = 6"
| "status_code RQST_PROCESSING_FAILURE = 7"
| "status_code RQST_UNKNOWN = 8"

definition status_text :: "request_status \<Rightarrow> string" where
  "status_text st = show_nat (status_code st)"

lemma status_code_eq [simp]: "status_code a = status_code b \<longleftrightarrow> a = b"
  by (cases a; cases b) simp_all

lemma status_text_eq [simp]: "status_text a = status_text b \<longleftrightarrow> a = b"
  by (simp add: status_text_def)

text \<open>
  What a handler can throw: \<open>ptree_bad_path\<close>, any other \<open>std::exception\<close>, with their texts, or
  something else. \<open>Undefined\<close> is no exception: it stands for a call that C++ leaves undefined.
\<close>

datatype thrown = Bad_path string | Std_exception string | Other_exception | Undefined

definition put_status :: "'p pt_ops \<Rightarrow> request_status \<Rightarrow> 'p \<Rightarrow> 'p" where
  "put_status ops st r = pt_put ops ''kcm-sts'' (status_text st) r"

definition put_failure :: "'p pt_ops \<Rightarrow> request_status \<Rightarrow> string \<Rightarrow> 'p \<Rightarrow> 'p" where
  "put_failure ops st msg r = pt_put ops ''kcm-erm'' msg (put_status ops st r)"

lemma fields_apart [simp]:
  "one_part ''kcm-sts''" "one_part ''kcm-erm''" "one_part ''kcm-cmd''"
  by (simp_all add: one_part_def)

context property_tree
begin

lemma put_status_get:
  "one_part k \<Longrightarrow> pt_get ops (put_status ops st r) k =
     (if k = ''kcm-sts'' then Some (status_text st) else pt_get ops r k)"
  by (simp add: put_status_def get_put_cases)

lemma put_failure_get:
  "one_part k \<Longrightarrow> pt_get ops (put_failure ops st msg r) k =
     (if k = ''kcm-erm'' then Some msg else if k = ''kcm-sts'' then Some (status_text st)
      else pt_get ops r k)"
  by (simp add: put_failure_def get_put_cases put_status_get)

end

section \<open>Handlers and the router\<close>

record ('p, 'w) request_handler =
  commandId :: string
  getDescription :: string
  run :: "'p \<Rightarrow> 'p \<times> 'w \<Rightarrow> (thrown, unit, 'p \<times> 'w) outcome"

type_synonym ('p, 'w) router = "(string, ('p, 'w) request_handler) smap"

definition register_handler ::
  "('p, 'w) request_handler \<Rightarrow> ('p, 'w) router \<Rightarrow> ('p, 'w) router" where
  "register_handler h m = smap_put (commandId h) h m"

definition route_request ::
  "'p pt_ops \<Rightarrow> ('p, 'w) router \<Rightarrow> 'p \<Rightarrow> 'p \<times> 'w \<Rightarrow> (thrown, unit, 'p \<times> 'w) outcome" where
  "route_request ops m request s =
     (case pt_get ops request ''kcm-cmd'' of
        None \<Rightarrow>
          (Inr (), (put_failure ops RQST_MISSING_PARAMETER (bad_path_what ops ''kcm-cmd'') (fst s), snd s))
      | Some command \<Rightarrow>
          (case smap_find m command of
             None \<Rightarrow>
               (Inr (), (put_failure ops RQST_COMMAND_NOT_SUPPORTED
                  (''Unrecognized command: '' @ command) (fst s), snd s))
           | Some h \<Rightarrow>
               (case run h request s of
                  (Inl (Bad_path e), (response, w)) \<Rightarrow>
                    (Inr (), (put_failure ops RQST_MISSING_PARAMETER e response, w))
                | r \<Rightarrow> r)))"

definition getHandlerDescriptions :: "('p, 'w) router \<Rightarrow> (string, string) smap" where
  "getHandlerDescriptions m = fold (\<lambda>e. smap_put (fst e) (getDescription (snd e))) m []"

lemma handler_descriptions:
  assumes "smap_wf m"
  shows "smap_find (getHandlerDescriptions m) k = map_option getDescription (smap_find m k)"
  using smap.find_copy [where f = "\<lambda>k. k" and g = getDescription and m = "[]",
      OF inj_on_id2 smap.entries_distinct [OF assms]]
  by (simp add: getHandlerDescriptions_def smap_find_def split: option.split)

lemma handler_descriptions_list:
  assumes "smap_wf m"
  shows "getHandlerDescriptions m = map (\<lambda>(k, h). (k, getDescription h)) m"
proof (rule smap.entries_ext)
  show "smap_wf (getHandlerDescriptions m)"
    using smap.wf_copy [of "[]" "\<lambda>k. k"] by (simp add: getHandlerDescriptions_def smap.wf_nothing)
  have keys: "map fst (map (\<lambda>(k, h). (k, getDescription h)) m) = map fst m" by (induction m) auto
  then show "smap_wf (map (\<lambda>(k, h). (k, getDescription h)) m)"
    using assms by (simp only: smap_wf_def)
  have "map_of (map (\<lambda>(k, h). (k, getDescription h)) m) k = map_option getDescription (map_of m k)" for k
    by (induction m) auto
  then show "smap_find (getHandlerDescriptions m) =
      smap_find (map (\<lambda>(k, h). (k, getDescription h)) m)"
    by (simp add: fun_eq_iff handler_descriptions [OF assms]) (simp add: smap_find_def)
qed

section \<open>Properties\<close>

text \<open>
  Routing: a request without \<open>kcm-cmd\<close> is answered with the status of a missing parameter,
  one for an unknown command with the status of an unsupported command and a message that names
  it, and neither touches the server's state; otherwise the handler registered for the command
  runs, a \<open>ptree_bad_path\<close> of its becomes the status of a missing parameter, and its other
  exceptions and its normal result are passed on. Fields other than the two are the handler's.
\<close>

theorem route_request_effect:
  assumes "property_tree ops"
  shows "case pt_get ops request ''kcm-cmd'' of
      None \<Rightarrow> \<exists>r. route_request ops m request (r0, w) = (Inr (), (r, w)) \<and>
        pt_get ops r ''kcm-sts'' = Some (status_text RQST_MISSING_PARAMETER)
    | Some c \<Rightarrow> (case smap_find m c of
        None \<Rightarrow> \<exists>r. route_request ops m request (r0, w) = (Inr (), (r, w)) \<and>
          pt_get ops r ''kcm-sts'' = Some (status_text RQST_COMMAND_NOT_SUPPORTED) \<and>
          pt_get ops r ''kcm-erm'' = Some (''Unrecognized command: '' @ c)
      | Some h \<Rightarrow> (case run h request (r0, w) of
          (Inl (Bad_path e), (r1, w1)) \<Rightarrow>
            \<exists>r. route_request ops m request (r0, w) = (Inr (), (r, w1)) \<and>
              pt_get ops r ''kcm-sts'' = Some (status_text RQST_MISSING_PARAMETER) \<and>
              pt_get ops r ''kcm-erm'' = Some e \<and>
              (\<forall>k. one_part k \<and> k \<noteq> ''kcm-sts'' \<and> k \<noteq> ''kcm-erm'' \<longrightarrow> pt_get ops r k = pt_get ops r1 k)
        | res \<Rightarrow> route_request ops m request (r0, w) = res))"
  by (auto simp: route_request_def property_tree.put_failure_get [OF assms]
      split: option.split prod.split sum.split thrown.split)

definition echo_handler :: "(ptree, unit) request_handler" where
  "echo_handler =
     \<lparr>commandId = ''echo'', getDescription = ''echoes'',
      run = (\<lambda>request s. case pt_get ptree_ops request ''text'' of
         None \<Rightarrow> (Inl (Bad_path ''text''), s)
       | Some v \<Rightarrow> (Inr (), (pt_put ptree_ops ''text'' v (put_status ptree_ops RQST_SUCCESS (fst s)), snd s)))\<rparr>"

lemma route_request_effect_witness:
  "\<exists>r. route_request ptree_ops (register_handler echo_handler [])
     (Ptree [] [(''kcm-cmd'', Ptree ''eco'' [])]) (Ptree [] [], ()) = (Inr (), (r, ())) \<and>
     pt_get ptree_ops r ''kcm-erm'' = Some ''Unrecognized command: eco''"
proof -
  have c: "pt_get ptree_ops (Ptree [] [(''kcm-cmd'', Ptree ''eco'' [])]) ''kcm-cmd'' = Some ''eco''"
    by code_simp
  have "smap_find (register_handler echo_handler []) ''eco'' = None"
    by (simp add: register_handler_def echo_handler_def smap_find_def)
  with route_request_effect [OF boost.property_tree_axioms,
      where request = "Ptree [] [(''kcm-cmd'', Ptree ''eco'' [])]"
        and m = "register_handler echo_handler []" and ?r0.0 = "Ptree [] []" and w = "()"] c
  show ?thesis by auto
qed

text \<open>
  Of several handlers registered for one identifier the last one answers; the others stay;
  and the list of descriptions has every identifier once, in order, with its handler's description.
\<close>

theorem register_last_wins:
  assumes "smap_wf m"
  shows "smap_find (register_handler h m) = (smap_find m)(commandId h \<mapsto> h) \<and>
    smap_wf (register_handler h m) \<and>
    getHandlerDescriptions m = map (\<lambda>(k, h). (k, getDescription h)) m \<and>
    sorted_wrt (<) (map fst (getHandlerDescriptions m))"
proof -
  have "map fst (map (\<lambda>(k, h). (k, getDescription h)) m) = map fst m" by (induction m) auto
  then show ?thesis
    using handler_descriptions_list [OF assms] smap.entries_sorted [OF assms] smap.wf_put [OF assms]
    by (simp only: register_handler_def smap_find_put simp_thms)
qed

lemma register_last_wins_witness:
  "smap_find (register_handler echo_handler []) ''echo'' = Some echo_handler"
  using register_last_wins [OF smap.wf_nothing, of echo_handler] by (simp add: echo_handler_def)

end
