(* ===== verification/Streams.thy ===== *)
theory Streams
  imports Prelude
begin

text \<open>
  The part of \<open>std::istream\<close> the queue code depends on: \<open>std::getline\<close> with its stream state
  bits, and the reading loop \<open>getline; while(!eof()) { use; getline }\<close> of \<open>loadFromFile\<close> and
  \<open>loadStateFile\<close> (kisscpp/persisted_queue.tpp). A stream whose file could not be opened has
  the fail bit set and never reaches its end, so the loop is a partial function and not
  returning is the value \<open>None\<close>.
\<close>

abbreviation newline :: char where "newline \<equiv> CHR 0x0A"
abbreviation nul :: char where "nul \<equiv> CHR 0x00"

record istream =
  ibuf :: string
  eofbit :: bool
  failbit :: bool

definition open_istream :: "string option \<Rightarrow> istream" where
  "open_istream src =
     (case src of
        None \<Rightarrow> \<lparr>ibuf = [], eofbit = False, failbit = True\<rparr>
      | Some c \<Rightarrow> \<lparr>ibuf = c, eofbit = False, failbit = False\<rparr>)"

definition getline :: "istream \<Rightarrow> string \<Rightarrow> string \<times> istream" where
  "getline s rec =
     (if eofbit s \<or> failbit s then (rec, s\<lparr>failbit := True\<rparr>)
      else let line = takeWhile (\<lambda>c. c \<noteq> newline) (ibuf s);
               rest = dropWhile (\<lambda>c. c \<noteq> newline) (ibuf s)
           in if rest = []
              then (line, s\<lparr>ibuf := [], eofbit := True, failbit := (line = [])\<rparr>)
              else (line, s\<lparr>ibuf := tl rest\<rparr>))"

partial_function (option) read_records ::
  "istream \<Rightarrow> string \<Rightarrow> string list \<Rightarrow> string list option" where
  "read_records s rec acc =
     (if eofbit s then Some acc
      else read_records (snd (getline s rec)) (fst (getline s rec)) (acc @ [rec]))"

declare read_records.simps [code]

definition read_lines :: "istream \<Rightarrow> string list option" where
  "read_lines s = read_records (snd (getline s [])) (fst (getline s [])) []"

section \<open>What the loop reads\<close>

text \<open>The lines of a text that end in a newline; an unterminated last line is not one.\<close>

function complete_lines :: "string \<Rightarrow> string list" where
  "complete_lines s =
     (let rest = dropWhile (\<lambda>c. c \<noteq> newline) s
      in if rest = [] then [] else takeWhile (\<lambda>c. c \<noteq> newline) s # complete_lines (tl rest))"
  by pat_completeness auto
termination
proof (relation "measure length", simp)
  fix s rest :: string
  assume rest: "rest = dropWhile (\<lambda>c. c \<noteq> newline) s" and "rest \<noteq> []"
  then have "length (tl rest) < length rest" by simp
  also have "length rest \<le> length s" unfolding rest by (rule length_dropWhile_le)
  finally show "(tl rest, s) \<in> measure length" by simp
qed

declare complete_lines.simps [simp del]

definition unlines :: "string list \<Rightarrow> string" where
  "unlines ls = concat (map (\<lambda>l. l @ [newline]) ls)"

lemma unlines_simps [simp]:
  "unlines [] = []" "unlines (l # ls) = l @ newline # unlines ls"
  by (simp_all add: unlines_def)

lemma unlines_append [simp]: "unlines (ks @ ls) = unlines ks @ unlines ls"
  by (simp add: unlines_def)

lemma complete_lines_Nil [simp]: "complete_lines [] = []"
  by (subst complete_lines.simps) simp

lemma complete_lines_Cons:
  "newline \<notin> set l \<Longrightarrow> complete_lines (l @ newline # s) = l # complete_lines s"
  by (subst complete_lines.simps) (simp add: dropWhile_append takeWhile_append)

lemma complete_lines_unlines:
  "\<forall>l\<in>set ls. newline \<notin> set l \<Longrightarrow> complete_lines (unlines ls) = ls"
  by (induction ls) (simp_all add: complete_lines_Cons)

lemma getline_last:
  "newline \<notin> set c \<Longrightarrow> getline \<lparr>ibuf = c, eofbit = False, failbit = False\<rparr> rec =
     (c, \<lparr>ibuf = [], eofbit = True, failbit = (c = [])\<rparr>)"
  by (auto simp: getline_def Let_def takeWhile_notin)

lemma getline_more:
  "getline \<lparr>ibuf = l @ newline # c, eofbit = False, failbit = False\<rparr> rec =
     (l, \<lparr>ibuf = c, eofbit = False, failbit = False\<rparr>)" if "newline \<notin> set l"
  using that by (simp add: getline_def dropWhile_append takeWhile_append Let_def)

lemma complete_lines_last: "newline \<notin> set c \<Longrightarrow> complete_lines c = []"
  by (subst complete_lines.simps) simp

lemma read_records_open:
  "read_records (snd (getline \<lparr>ibuf = c, eofbit = False, failbit = False\<rparr> rec))
     (fst (getline \<lparr>ibuf = c, eofbit = False, failbit = False\<rparr> rec)) acc =
   Some (acc @ complete_lines c)"
proof (induction "length c" arbitrary: c rec acc rule: less_induct)
  case less
  show ?case
  proof (cases "newline \<in> set c")
    case True
    then obtain l r where c: "c = l @ newline # r" and l: "newline \<notin> set l"
      by (meson split_list_first)
    have "read_records (snd (getline \<lparr>ibuf = r, eofbit = False, failbit = False\<rparr> l))
       (fst (getline \<lparr>ibuf = r, eofbit = False, failbit = False\<rparr> l)) (acc @ [l]) =
       Some ((acc @ [l]) @ complete_lines r)"
      by (rule less) (simp add: c)
    with l show ?thesis
      by (simp add: c getline_more complete_lines_Cons) (subst read_records.simps, simp)
  next
    case False
    then show ?thesis
      by (simp add: getline_last complete_lines_last) (subst read_records.simps, simp)
  qed
qed

lemma read_lines_open: "read_lines (open_istream (Some c)) = Some (complete_lines c)"
  using read_records_open [of c "[]" "[]"] by (simp add: read_lines_def open_istream_def)

text \<open>On a stream that never opened the loop does not return.\<close>

lemma read_records_failed:
  assumes ret: "read_records s rec acc = Some r"
  shows "failbit s \<and> \<not> eofbit s \<longrightarrow> False"
proof (rule read_records.raw_induct
    [where P = "\<lambda>s rec acc r. failbit s \<and> \<not> eofbit s \<longrightarrow> False", OF _ ret])
  fix f s rec acc r
  assume IH: "\<And>s rec acc r. f s rec acc = Some r \<Longrightarrow> failbit s \<and> \<not> eofbit s \<longrightarrow> False"
    and eq: "(if eofbit s then Some acc
      else f (snd (getline s rec)) (fst (getline s rec)) (acc @ [rec])) = Some r"
  show "failbit s \<and> \<not> eofbit s \<longrightarrow> False"
    using eq IH [of "snd (getline s rec)" "fst (getline s rec)" "acc @ [rec]" r]
    by (auto simp: getline_def split: if_splits)
qed

lemma read_lines_failed: "read_lines (open_istream None) = None"
proof (cases "read_lines (open_istream None)")
  case (Some r)
  then show ?thesis
    using read_records_failed [of "snd (getline (open_istream None) [])"]
    by (auto simp: read_lines_def open_istream_def getline_def)
qed

end
