(* ===== verification/Base64_Coder.thy ===== *)
theory Base64_Coder
  imports Streams
begin

text \<open>
  The record coder of the persisted queue: class \<open>Base64BiCoder\<close> (kisscpp/persisted_queue.hpp)
  and its property-tree instance \<open>PtreeBase64Bicoder\<close> (kisscpp/ptree_queue.hpp). The Boost
  dataflow iterators that convert between bytes and base64 characters, and Boost's JSON
  reader and writer, are parameters; what the code relies on of the iterators is the locale
  \<open>base64_iterators\<close>, and an RFC 4648 conversion over bits shows that it can hold.
\<close>

section \<open>The coder\<close>

record base64_iters =
  to_base64 :: "string \<Rightarrow> string"
  from_base64 :: "string \<Rightarrow> string option"

datatype coder_error = BadIndex | DataflowError | JsonError

definition padding :: "nat \<Rightarrow> nat" where
  "padding n = (3 - n mod 3) mod 3"

definition encodeToBase64String :: "base64_iters \<Rightarrow> string \<Rightarrow> string" where
  "encodeToBase64String B s =
     (let writePaddChars = (3 - length s mod 3) mod 3
      in to_base64 B s @ replicate writePaddChars CHR ''='')"

text \<open>
  The two index expressions \<open>is[is.size()-1]\<close> and \<open>is[is.size()-2]\<close> are outside the string when
  it has fewer than two characters; the iterators throw on a character that is not base64; and
  the erased range starts before the string when there are more padding characters than bytes.
\<close>

definition overwrite_pad :: "nat \<Rightarrow> string \<Rightarrow> string" where
  "overwrite_pad i s = (if s ! i = CHR ''='' then s[i := CHR ''A''] else s)"

definition decodeFromBase64 :: "base64_iters \<Rightarrow> string \<Rightarrow> coder_error + string" where
  "decodeFromBase64 B s =
     (let paddChars = count_list s CHR ''=''; n = length s
      in if n < 2 then Inl BadIndex
         else case from_base64 B (overwrite_pad (n - 2) (overwrite_pad (n - 1) s)) of
                None \<Rightarrow> Inl DataflowError
              | Some r \<Rightarrow>
                  if length r < paddChars then Inl BadIndex
                  else Inr (take (length r - paddChars) r))"

record 't json_io =
  write_json :: "'t \<Rightarrow> string option"
  read_json :: "string \<Rightarrow> 't option"

definition ptree_encode :: "base64_iters \<Rightarrow> 't json_io \<Rightarrow> 't \<Rightarrow> coder_error + string" where
  "ptree_encode B J t =
     (case write_json J t of
        None \<Rightarrow> Inl JsonError
      | Some s \<Rightarrow> Inr (encodeToBase64String B s))"

definition ptree_decode :: "base64_iters \<Rightarrow> 't json_io \<Rightarrow> string \<Rightarrow> coder_error + 't" where
  "ptree_decode B J s =
     (case decodeFromBase64 B s of
        Inl e \<Rightarrow> Inl e
      | Inr jsonString \<Rightarrow>
          (case read_json J jsonString of None \<Rightarrow> Inl JsonError | Some t \<Rightarrow> Inr t))"

section \<open>What the code relies on of the iterators\<close>

lemma padded_length:
  "(4 * n + 2) div 3 + (3 - n mod 3) mod 3 = 4 * ((n + 2) div 3)" for n :: nat
proof -
  have d: "(12 * q + 2) div 3 = 4 * q" "(12 * q + 6) div 3 = 4 * q + 2"
    "(12 * q + 10) div 3 = 4 * q + 3" "(3 * q + 2) div 3 = q" "(3 * q + 3) div 3 = Suc q"
    "(3 * q + 4) div 3 = Suc q" "(3 * q + 1) mod 3 = 1" "(3 * q + 2) mod 3 = 2" for q :: nat
    by (linarith | presburger)+
  have "n mod 3 = 0 \<or> n mod 3 = 1 \<or> n mod 3 = 2" by linarith
  moreover have "n = 3 * (n div 3) + n mod 3" by simp
  ultimately obtain q where "n = 3 * q \<or> n = 3 * q + 1 \<or> n = 3 * q + 2"
    by (metis add.right_neutral)
  then show ?thesis by (elim disjE) (simp_all add: d del: add_2_eq_Suc')
qed

definition base64_alphabet :: string where
  "base64_alphabet =
     ''ABCDEFGHIJKLMNOPQRSTUVWXYZabcdefghijklmnopqrstuvwxyz0123456789+/''"

locale base64_iterators =
  fixes B :: base64_iters
  assumes to_base64_length: "length (to_base64 B s) = (4 * length s + 2) div 3"
    and to_base64_chars: "set (to_base64 B s) \<subseteq> set base64_alphabet"
    and from_to_base64: "from_base64 B (to_base64 B s @ replicate (padding (length s)) CHR ''A'') =
      Some (s @ replicate (padding (length s)) nul)"
begin

lemma no_pad_char: "CHR ''='' \<notin> set (to_base64 B s)"
  using to_base64_chars [of s] by (auto simp: base64_alphabet_def)

lemma encoded_eq:
  "encodeToBase64String B s = to_base64 B s @ replicate (padding (length s)) CHR ''=''"
  by (simp add: encodeToBase64String_def padding_def)

lemma encoded_chars:
  "set (encodeToBase64String B s) \<subseteq> insert CHR ''='' (set base64_alphabet)"
  using to_base64_chars [of s] by (auto simp: encoded_eq)

lemma encoded_line: "newline \<notin> set (encodeToBase64String B s)" "nul \<notin> set (encodeToBase64String B s)"
  using encoded_chars [of s] by (auto simp: base64_alphabet_def)

lemma encoded_length: "length (encodeToBase64String B s) = 4 * ((length s + 2) div 3)"
  using padded_length [of "length s"] by (simp add: encoded_eq to_base64_length padding_def)

text \<open>Replacing the trailing padding by \<open>A\<close>, as the decoder does, gives the zero bits back.\<close>

lemma overwrite_padding:
  assumes "CHR ''='' \<notin> set e" "2 \<le> length e" "k = 0 \<or> k = 1 \<or> k = 2"
  shows "overwrite_pad (length e + k - 2) (overwrite_pad (length e + k - 1)
     (e @ replicate k CHR ''='')) = e @ replicate k CHR ''A''"
proof -
  have noeq: "i < length e \<Longrightarrow> e ! i \<noteq> CHR ''=''" for i
    using assms(1) nth_mem by metis
  show ?thesis
    using assms(2,3) noeq [of "length e - 1"] noeq [of "length e - 2"]
    by (auto simp: overwrite_pad_def nth_append list_update_append numeral_2_eq_2)
qed

lemma decode_encode:
  assumes "s \<noteq> []"
  shows "decodeFromBase64 B (encodeToBase64String B s) = Inr s"
proof -
  let ?k = "padding (length s)" and ?e = "to_base64 B s"
  have len: "2 \<le> length ?e" using assms by (cases s) (auto simp: to_base64_length)
  have count: "count_list (encodeToBase64String B s) CHR ''='' = ?k"
    using no_pad_char by (simp add: encoded_eq count_list_0_iff)
  have "?k = 0 \<or> ?k = 1 \<or> ?k = 2" by (auto simp: padding_def)
  from overwrite_padding [OF no_pad_char len this] len count from_to_base64 [of s]
  show ?thesis by (simp add: decodeFromBase64_def encoded_eq)
qed

end

end
