(* ===== verification/Connection.thy ===== *)
theory Connection
  imports Configuration_Theorems Request_Router Base64_Coder
begin

text \<open>
  \<open>Connection\<close> (kisscpp/connection.hpp and .cpp): \<open>start\<close> reads one line, asks the white lists,
  routes the request and writes one answer. \<open>peer\<close> is the other end of the socket: its address
  (\<open>None\<close> when \<open>remote_endpoint\<close> throws), what \<open>read_until\<close> delivers (\<open>None\<close> when it throws; the
  buffer may go on behind the line break) and whether writing succeeds. JSON is read and written
  by \<open>json_io\<close>. \<open>start\<close> catches every exception; \<open>Undefined\<close> is none, and stays.
\<close>

section \<open>State and operations\<close>

record peer =
  remote_ip :: "string option"
  arriving :: "string option"
  writable :: bool

record 'p connection =
  parsed_request :: 'p
  raw_response :: 'p
  sent :: "string option"

definition new_connection :: "'p pt_ops \<Rightarrow> 'p connection" where
  "new_connection ops = \<lparr>parsed_request = pt_new ops, raw_response = pt_new ops, sent = None\<rparr>"

definition allowedIpAddress :: "'p config \<Rightarrow> string \<Rightarrow> bool" where
  "allowedIpAddress cfg ip_address = isAllowedIp cfg ip_address"

text \<open>\<open>None\<close> when one of the two fields is missing and \<open>get\<close> throws.\<close>

definition allowedClient :: "'p pt_ops \<Rightarrow> 'p config \<Rightarrow> 'p connection \<Rightarrow> bool option" where
  "allowedClient ops cfg c =
     (case (pt_get ops (parsed_request c) ''kcm-client.id'', pt_get ops (parsed_request c) ''kcm-client.instance'') of
        (Some i, Some n) \<Rightarrow> Some (isAllowedClient cfg i n)
      | _ \<Rightarrow> None)"

definition answer :: "'p pt_ops \<Rightarrow> request_status \<Rightarrow> string \<Rightarrow> 'p connection \<Rightarrow> 'p connection" where
  "answer ops st msg c = c\<lparr>raw_response := put_failure ops st msg (raw_response c)\<rparr>"

text \<open>The inner \<open>try\<close> block with its catch clauses.\<close>

definition serve ::
  "'p pt_ops \<Rightarrow> 'p config \<Rightarrow> ('p, 'w) router \<Rightarrow> 'p connection \<times> 'w \<Rightarrow>
   (thrown, unit, 'p connection \<times> 'w) outcome" where
  "serve ops cfg router s =
     (let c = fst s in
      case allowedClient ops cfg c of
        None \<Rightarrow> (Inr (), (answer ops RQST_CLIENT_DENIED
                   ''Request denied: Your request does not contain kcm-client data.'' c, snd s))
      | Some False \<Rightarrow> (Inr (), (answer ops RQST_CLIENT_DENIED
                   ''Request denied: Your application and/or instance id is not in my white-list.'' c, snd s))
      | Some True \<Rightarrow>
          (let (r, (response, w)) = route_request ops router (parsed_request c) (raw_response c, snd s);
               c1 = c\<lparr>raw_response := response\<rparr>
           in case r of
                Inr u \<Rightarrow> (Inr (), (c1, w))
              | Inl (Bad_path e) \<Rightarrow> (Inr (), (answer ops RQST_CLIENT_DENIED
                   ''Request denied: Your request does not contain kcm-client data.'' c1, w))
              | Inl (Std_exception e) \<Rightarrow>
                  (Inr (), (answer ops RQST_UNKNOWN (''std::exception: '' @ e) c1, w))
              | Inl Other_exception \<Rightarrow>
                  (Inr (), (answer ops RQST_UNKNOWN ''Unhandled exception while routing request!'' c1, w))
              | Inl Undefined \<Rightarrow> (Inl Undefined, (c1, w))))"

definition send :: "'p json_io \<Rightarrow> peer \<Rightarrow> 'p connection \<Rightarrow> 'p connection" where
  "send J p c =
     (case write_json J (raw_response c) of
        None \<Rightarrow> c
      | Some s \<Rightarrow> if writable p then c\<lparr>sent := Some s\<rparr> else c)"

definition start ::
  "'p pt_ops \<Rightarrow> 'p json_io \<Rightarrow> 'p config \<Rightarrow> ('p, 'w) router \<Rightarrow> peer \<Rightarrow> 'p connection \<times> 'w \<Rightarrow>
   (thrown, unit, 'p connection \<times> 'w) outcome" where
  "start ops J cfg router p s =
     (case (remote_ip p, arriving p) of
        (Some client_ip, Some buffer) \<Rightarrow>
          (let ts = fst (getline \<lparr>ibuf = buffer, eofbit = False, failbit = False\<rparr> [])
           in if allowedIpAddress cfg client_ip then
                (case read_json J ts of
                   None \<Rightarrow> (Inr (), s)
                 | Some t \<Rightarrow>
                     and_then (serve ops cfg router ((fst s)\<lparr>parsed_request := t\<rparr>, snd s))
                       (\<lambda>_ s1. (Inr (), (send J p (fst s1), snd s1))))
              else
                (Inr (), (send J p (answer ops RQST_CLIENT_DENIED
                   ''Request denied: Your IP address is not in my white-list.'' (fst s)), snd s)))
      | _ \<Rightarrow> (Inr (), s))"

section \<open>Properties\<close>

text \<open>The line of the request: everything before the first line break.\<close>

definition first_line :: "string \<Rightarrow> string" where
  "first_line s = takeWhile (\<lambda>c. c \<noteq> newline) s"

lemma getline_first: "fst (getline \<lparr>ibuf = b, eofbit = False, failbit = False\<rparr> r) = first_line b"
  by (simp add: getline_def first_line_def Let_def)

text \<open>When a request reaches the router.\<close>

definition admitted :: "'p pt_ops \<Rightarrow> 'p json_io \<Rightarrow> 'p config \<Rightarrow> peer \<Rightarrow> 'p option" where
  "admitted ops J cfg p =
     (case (remote_ip p, arriving p) of
        (Some ip, Some b) \<Rightarrow>
          if isAllowedIp cfg ip then
            (case read_json J (first_line b) of
               None \<Rightarrow> None
             | Some t \<Rightarrow>
                 (case (pt_get ops t ''kcm-client.id'', pt_get ops t ''kcm-client.instance'') of
                    (Some i, Some n) \<Rightarrow> if isAllowedClient cfg i n then Some t else None
                  | _ \<Rightarrow> None))
          else None
      | _ \<Rightarrow> None)"

lemma route_no_bad_path: "fst (route_request ops m request s) \<noteq> Inl (Bad_path e)"
  by (auto simp: route_request_def split: option.splits prod.splits sum.splits thrown.splits)

text \<open>\<open>start\<close> of a fresh connection, as far as the request is not admitted, and when it is.\<close>

lemma send_fields [simp]:
  "sent c = None \<Longrightarrow> sent (send J p c) = (if writable p then write_json J (raw_response c) else None)"
  by (simp add: send_def split: option.split)

lemma answer_fields [simp]:
  "sent (answer ops st msg c) = sent c"
  "raw_response (answer ops st msg c) = put_failure ops st msg (raw_response c)"
  by (simp_all add: answer_def)

lemma new_connection_fields [simp]:
  "sent (new_connection ops) = None" "raw_response (new_connection ops) = pt_new ops"
  by (simp_all add: new_connection_def)

lemma start_refused:
  assumes "admitted ops J cfg p = None"
  obtains c where "start ops J cfg router p (new_connection ops, w) = (Inr (), (c, w))"
    "sent c = None \<or> (\<exists>msg. sent c = write_json J (put_failure ops RQST_CLIENT_DENIED msg (pt_new ops)))"
proof -
  have "\<exists>c. start ops J cfg router p (new_connection ops, w) = (Inr (), (c, w)) \<and>
      (sent c = None \<or> (\<exists>msg. sent c = write_json J (put_failure ops RQST_CLIENT_DENIED msg (pt_new ops))))"
    using assms
    by (auto simp: admitted_def start_def getline_first allowedIpAddress_def serve_def allowedClient_def
        Let_def split: option.splits if_splits)
  with that show thesis by blast
qed

lemma start_admitted:
  assumes "admitted ops J cfg p = Some t"
  shows "start ops J cfg router p (new_connection ops, w) =
    and_then (serve ops cfg router ((new_connection ops)\<lparr>parsed_request := t\<rparr>, w))
      (\<lambda>_ s1. (Inr (), (send J p (fst s1), snd s1)))"
    and "allowedClient ops cfg ((new_connection ops)\<lparr>parsed_request := t\<rparr>) = Some True"
  using assms
  by (auto simp: admitted_def start_def getline_first allowedIpAddress_def allowedClient_def
      Let_def split: option.splits if_splits)

definition plain_client :: "string \<Rightarrow> ptree" where
  "plain_client i = node [(''kcm-cmd'', leaf ''echo''), (''text'', leaf ''hi''),
     (''kcm-client'', node [(''id'', leaf i), (''instance'', leaf ''1'')])]"

text \<open>JSON texts are abbreviated by names; the writer writes the status.\<close>

definition demo_json :: "ptree json_io" where
  "demo_json =
     \<lparr>write_json = (\<lambda>t. map_option (\<lambda>v. v @ [newline]) (pt_get ptree_ops t ''kcm-sts'')),
      read_json = (\<lambda>s. map_of [(''SHOP'', plain_client ''shop''), (''PUB'', plain_client ''pub''),
         (status_text RQST_SUCCESS, node [(''kcm-sts'', leaf (status_text RQST_SUCCESS))])] s)\<rparr>"

definition white_config :: "ptree config" where
  "white_config = snd (populateWhiteLists ptree_ops
     ((fresh_config ptree_ops ''a'' ''0'')\<lparr>cfg_data := demo_white\<rparr>))"

definition demo_peer :: "string \<Rightarrow> peer" where
  "demo_peer line = \<lparr>remote_ip = Some ''10.0.0.1'', arriving = Some (line @ newline # ''rest''), writable = True\<rparr>"

definition demo_router :: "(ptree, unit) router" where
  "demo_router = register_handler echo_handler []"

text \<open>
  C9. Only a request on the white lists is routed: when the address, the request's text, the
  client's identifier and its instance are not all in order, the server's state does not change,
  nothing undefined happens, and whatever is sent is the JSON of a refusal (none is sent when the
  text is no JSON or the connection is broken). Otherwise the connection changes the state exactly
  as routing the request does, from an empty response.
\<close>

theorem connection_guard:
  assumes "property_tree ops"
  shows "case admitted ops J cfg p of
      None \<Rightarrow> \<exists>c. start ops J cfg router p (new_connection ops, w) = (Inr (), (c, w)) \<and>
        (\<forall>s. sent c = Some s \<longrightarrow>
           (\<exists>r. write_json J r = Some s \<and> pt_get ops r ''kcm-sts'' = Some (status_text RQST_CLIENT_DENIED)))
    | Some t \<Rightarrow> snd (snd (start ops J cfg router p (new_connection ops, w))) =
        snd (snd (route_request ops router t (pt_new ops, w)))"
proof (cases "admitted ops J cfg p")
  case None
  obtain c where c: "start ops J cfg router p (new_connection ops, w) = (Inr (), (c, w))"
    "sent c = None \<or> (\<exists>msg. sent c = write_json J (put_failure ops RQST_CLIENT_DENIED msg (pt_new ops)))"
    by (rule start_refused [OF None])
  have "pt_get ops (put_failure ops st msg r) ''kcm-sts'' = Some (status_text st)" for st msg r
    by (simp add: property_tree.put_failure_get [OF assms])
  then have "\<forall>s. sent c = Some s \<longrightarrow> (\<exists>r. write_json J r = Some s \<and>
      pt_get ops r ''kcm-sts'' = Some (status_text RQST_CLIENT_DENIED))"
    using c(2) by fastforce
  with c(1) None show ?thesis by simp
next
  case (Some t)
  then show ?thesis
    by (auto simp: start_admitted [OF Some] serve_def Let_def split: prod.split sum.split thrown.split)
qed

lemma connection_guard_witness:
  "\<exists>c. start ptree_ops demo_json white_config demo_router (demo_peer ''PUB'') (new_connection ptree_ops, ()) =
       (Inr (), (c, ())) \<and>
     (\<forall>s. sent c = Some s \<longrightarrow> (\<exists>r. write_json demo_json r = Some s \<and>
        pt_get ptree_ops r ''kcm-sts'' = Some (status_text RQST_CLIENT_DENIED)))"
proof -
  have "admitted ptree_ops demo_json white_config (demo_peer ''PUB'') = None" by code_simp
  with connection_guard [OF boost.property_tree_axioms, where J = demo_json and cfg = white_config
      and p = "demo_peer ''PUB''" and router = demo_router and w = "()"]
  show ?thesis by simp
qed



end
