(* ===== verification/Client.thy ===== *)
theory Client
  imports Connection
begin

text \<open>
  Class \<open>client\<close> (kisscpp/client.hpp and .cpp): one request and its answer. The constructor runs
  its own \<open>io_service\<close> until nothing is pending; the completion handlers run one after the other
  in it, in an order that the network and the clock decide, so a call is a step relation. An
  exception of a handler leaves \<open>io_service::run\<close> and with it the constructor.
  \<^item> \<open>cl_env\<close> holds what is called besides: JSON, the conversion of a number and the resolver.
  \<^item> An expired timer's handler is queued; \<open>cancel\<close> no longer reaches it then, as Boost
    documents. A cancelled timer's handler runs with \<open>operation_aborted\<close>.
  \<^item> An error code is its text, \<open>None\<close> for success.
\<close>

section \<open>State\<close>

record 'p cl_env =
  json :: "'p json_io"
  get_uint :: "string \<Rightarrow> nat option"
  resolves :: "string \<Rightarrow> string \<Rightarrow> bool"

datatype cl_error =
    RetryableCommsFailure string
  | PerminantCommsFailure string
  | Cl_bad_path string
  | Cl_json
  | Cl_resolve

datatype cl_phase = Connecting | Writing | Reading | Done
datatype cl_timer = Armed | Expired | Cancelled | Spent

record 'p client =
  cl_request :: 'p
  cl_response :: 'p
  socket_open :: bool
  phase :: cl_phase
  timeout_timer :: cl_timer
  outgoing :: "string option"

section \<open>Handlers\<close>

definition cancel_timer :: "'p client \<Rightarrow> 'p client" where
  "cancel_timer c = (if timeout_timer c = Armed then c\<lparr>timeout_timer := Cancelled\<rparr> else c)"

definition close_socket :: "'p client \<Rightarrow> 'p client" where
  "close_socket c = c\<lparr>socket_open := False\<rparr>"

definition comms_failed :: "string \<Rightarrow> 'p client \<Rightarrow> (cl_error, unit, 'p client) outcome" where
  "comms_failed e c =
     (Inl (PerminantCommsFailure (''boost::asio::placeholders::error ['' @ e @ '']'')),
      cancel_timer (close_socket c))"

definition handle_connect ::
  "'p cl_env \<Rightarrow> string option \<Rightarrow> 'p client \<Rightarrow> (cl_error, unit, 'p client) outcome" where
  "handle_connect N err c =
     (case err of
        Some e \<Rightarrow> comms_failed e c
      | None \<Rightarrow>
          (case write_json (json N) (cl_request c) of
             None \<Rightarrow> (Inl Cl_json, c)
           | Some s \<Rightarrow> (Inr (), c\<lparr>outgoing := Some s, phase := Writing\<rparr>)))"

definition handle_write :: "string option \<Rightarrow> 'p client \<Rightarrow> (cl_error, unit, 'p client) outcome" where
  "handle_write err c =
     (case err of Some e \<Rightarrow> comms_failed e c | None \<Rightarrow> (Inr (), c\<lparr>phase := Reading\<rparr>))"

definition comms_status :: "'p pt_ops \<Rightarrow> 'p cl_env \<Rightarrow> 'p \<Rightarrow> nat" where
  "comms_status ops N response =
     (case pt_get ops response ''kcm-sts'' of
        None \<Rightarrow> status_code RQST_UNKNOWN
      | Some v \<Rightarrow> (case get_uint N v of None \<Rightarrow> status_code RQST_UNKNOWN | Some n \<Rightarrow> n))"

definition handle_read ::
  "'p pt_ops \<Rightarrow> 'p cl_env \<Rightarrow> string option \<Rightarrow> string \<Rightarrow> 'p client \<Rightarrow> (cl_error, unit, 'p client) outcome" where
  "handle_read ops N err buffer c =
     (case err of
        Some e \<Rightarrow> comms_failed e c
      | None \<Rightarrow>
          (let ts = fst (getline \<lparr>ibuf = buffer, eofbit = False, failbit = False\<rparr> [])
           in case read_json (json N) ts of
                None \<Rightarrow> (Inl Cl_json, c)
              | Some response \<Rightarrow>
                  (let c1 = c\<lparr>cl_response := response\<rparr>; commsStatus = comms_status ops N response
                   in if commsStatus \<noteq> status_code RQST_SUCCESS then
                        (let c2 = cancel_timer (close_socket c1)
                         in case pt_get ops response ''kcm-erm'' of
                              None \<Rightarrow> (Inl (Cl_bad_path ''kcm-erm''), c2)
                            | Some message \<Rightarrow>
                                if commsStatus = status_code RQST_APPLICATION_BUSY \<or>
                                   commsStatus = status_code RQST_APPLICATION_SHUTING_DOWN
                                then (Inl (RetryableCommsFailure message), c2)
                                else (Inl (PerminantCommsFailure message), c2))
                      else (Inr (), (cancel_timer c1)\<lparr>phase := Done\<rparr>))))"

definition handle_timeout :: "bool \<Rightarrow> 'p client \<Rightarrow> (cl_error, unit, 'p client) outcome" where
  "handle_timeout aborted c =
     (if aborted then (Inr (), c\<lparr>timeout_timer := Spent\<rparr>)
      else (Inl (RetryableCommsFailure ''Message timed out.''), (close_socket c)\<lparr>timeout_timer := Spent\<rparr>))"

section \<open>The constructor\<close>

definition start_client ::
  "'p pt_ops \<Rightarrow> 'p cl_env \<Rightarrow> 'p config \<Rightarrow> 'p \<Rightarrow> 'p \<Rightarrow> (cl_error, unit, 'p client) outcome" where
  "start_client ops N cfg request response =
     (let c = \<lparr>cl_request = request, cl_response = response, socket_open = False, phase = Connecting,
               timeout_timer = Armed, outgoing = None\<rparr>
      in case pt_get ops request ''kcm-hst'' of
           None \<Rightarrow> (Inl (Cl_bad_path ''kcm-hst''), c)
         | Some host \<Rightarrow>
             (case pt_get ops request ''kcm-prt'' of
                None \<Rightarrow> (Inl (Cl_bad_path ''kcm-prt''), c)
              | Some port \<Rightarrow>
                  (let c1 = c\<lparr>cl_request :=
                         ptreeAddOrPut ops
                           (ptreeAddOrPut ops request ''kcm-client.id'' (application_id cfg))
                           ''kcm-client.instance'' (application_instance cfg)\<rparr>
                   in if resolves N host port then (Inr (), c1\<lparr>socket_open := True\<rparr>)
                      else (Inl Cl_resolve, c1))))"

datatype 'p cl_run = Running "'p client" | Returned "'p client" | Threw cl_error "'p client"

definition ran :: "(cl_error, unit, 'p client) outcome \<Rightarrow> 'p cl_run" where
  "ran r = (case fst r of Inl e \<Rightarrow> Threw e (snd r) | Inr u \<Rightarrow> Running (snd r))"

inductive cl_step :: "'p pt_ops \<Rightarrow> 'p cl_env \<Rightarrow> 'p cl_run \<Rightarrow> 'p cl_run \<Rightarrow> bool" for ops N where
  connected: "phase c = Connecting \<Longrightarrow> cl_step ops N (Running c) (ran (handle_connect N err c))"
| wrote: "phase c = Writing \<Longrightarrow> cl_step ops N (Running c) (ran (handle_write err c))"
| received: "phase c = Reading \<Longrightarrow> cl_step ops N (Running c) (ran (handle_read ops N err buffer c))"
| expires: "timeout_timer c = Armed \<Longrightarrow> cl_step ops N (Running c) (Running (c\<lparr>timeout_timer := Expired\<rparr>))"
| timed_out: "timeout_timer c = Expired \<Longrightarrow> cl_step ops N (Running c) (ran (handle_timeout False c))"
| aborted: "timeout_timer c = Cancelled \<Longrightarrow> cl_step ops N (Running c) (ran (handle_timeout True c))"
| finished: "phase c = Done \<Longrightarrow> timeout_timer c = Spent \<Longrightarrow> cl_step ops N (Running c) (Returned c)"

inductive_cases cl_stepE: "cl_step ops N (Running c) r"
inductive_simps cl_step_Returned: "cl_step ops N (Returned c) r"
inductive_simps cl_step_Threw: "cl_step ops N (Threw e c) r"

inductive cl_steps :: "'p pt_ops \<Rightarrow> 'p cl_env \<Rightarrow> nat \<Rightarrow> 'p cl_run \<Rightarrow> 'p cl_run \<Rightarrow> bool" for ops N where
  none: "cl_steps ops N 0 r r"
| more: "cl_steps ops N n r r1 \<Longrightarrow> cl_step ops N r1 r2 \<Longrightarrow> cl_steps ops N (Suc n) r r2"

section \<open>Every call ends\<close>

fun phase_rank :: "cl_phase \<Rightarrow> nat" where
  "phase_rank Connecting = 3" | "phase_rank Writing = 2" | "phase_rank Reading = 1" | "phase_rank Done = 0"

fun timer_rank :: "cl_timer \<Rightarrow> nat" where
  "timer_rank Armed = 2" | "timer_rank Expired = 1" | "timer_rank Cancelled = 1" | "timer_rank Spent = 0"

fun run_rank :: "'p cl_run \<Rightarrow> nat" where
  "run_rank (Running c) = Suc (phase_rank (phase c) + timer_rank (timeout_timer c))"
| "run_rank _ = 0"

text \<open>What can be pending: a timer that has run its handler means that the answer is there.\<close>

fun cl_inv :: "'p cl_run \<Rightarrow> bool" where
  "cl_inv (Running c) \<longleftrightarrow> (timeout_timer c = Cancelled \<or> timeout_timer c = Spent \<longrightarrow> phase c = Done) \<and>
     (phase c = Done \<longrightarrow> timeout_timer c \<noteq> Armed)"
| "cl_inv _ \<longleftrightarrow> True"

lemma ran_simps [simp]:
  "ran (Inl e, c) = Threw e c" "ran (Inr u, c) = Running c" "ran (comms_failed d c) =
     Threw (PerminantCommsFailure (''boost::asio::placeholders::error ['' @ d @ '']'')) (cancel_timer (close_socket c))"
  by (simp_all add: ran_def comms_failed_def)

lemma cancel_timer_simps [simp]:
  "phase (cancel_timer c) = phase c" "cl_response (cancel_timer c) = cl_response c"
  "timeout_timer (cancel_timer c) = (if timeout_timer c = Armed then Cancelled else timeout_timer c)"
  by (simp_all add: cancel_timer_def)

lemma cl_step_decreases:
  assumes "cl_step ops N r r'" "cl_inv r"
  shows "run_rank r' < run_rank r \<and> cl_inv r'"
  using assms
proof (induction rule: cl_step.induct)
  case (received c err buffer)
  then show ?case
    by (cases "timeout_timer c") (auto simp: handle_read_def Let_def split: option.split)
qed (auto simp: handle_connect_def handle_write_def handle_timeout_def split: option.split)

lemma cl_progress:
  assumes "cl_inv (Running c)"
  obtains r where "cl_step ops N (Running c) r"
  using assms cl_step.intros by (cases "timeout_timer c") (fastforce intro: that)+

lemma cl_steps_bound:
  "cl_steps ops N n r r' \<Longrightarrow> cl_inv r \<Longrightarrow> cl_inv r' \<and> n + run_rank r' \<le> run_rank r"
proof (induction rule: cl_steps.induct)
  case (more n r r1 r2)
  with cl_step_decreases [OF more(2)] show ?case by auto
qed simp

section \<open>What a call that ended tells\<close>

text \<open>The answer that was read, and the failures that an answer leads to.\<close>

definition answered :: "'p cl_env \<Rightarrow> 'p client \<Rightarrow> bool" where
  "answered N c \<longleftrightarrow> outgoing c = write_json (json N) (cl_request c) \<and>
     (\<exists>buffer. read_json (json N) (first_line buffer) = Some (cl_response c))"

definition retryable :: "nat \<Rightarrow> bool" where
  "retryable st \<longleftrightarrow> st = status_code RQST_APPLICATION_BUSY \<or> st = status_code RQST_APPLICATION_SHUTING_DOWN"

fun verdict_ok :: "'p pt_ops \<Rightarrow> 'p cl_env \<Rightarrow> cl_error \<Rightarrow> 'p client \<Rightarrow> bool" where
  "verdict_ok ops N (RetryableCommsFailure m) c \<longleftrightarrow> m = ''Message timed out.'' \<or>
     answered N c \<and> retryable (comms_status ops N (cl_response c)) \<and> pt_get ops (cl_response c) ''kcm-erm'' = Some m"
| "verdict_ok ops N (PerminantCommsFailure m) c \<longleftrightarrow>
     (\<exists>e. m = ''boost::asio::placeholders::error ['' @ e @ '']'') \<or>
     answered N c \<and> comms_status ops N (cl_response c) \<noteq> status_code RQST_SUCCESS \<and>
     \<not> retryable (comms_status ops N (cl_response c)) \<and> pt_get ops (cl_response c) ''kcm-erm'' = Some m"
| "verdict_ok ops N (Cl_bad_path p) c \<longleftrightarrow> p = ''kcm-erm'' \<and>
     answered N c \<and> comms_status ops N (cl_response c) \<noteq> status_code RQST_SUCCESS \<and>
     pt_get ops (cl_response c) ''kcm-erm'' = None"
| "verdict_ok ops N Cl_json c \<longleftrightarrow> write_json (json N) (cl_request c) = None \<or>
     (\<exists>buffer. read_json (json N) (first_line buffer) = None)"
| "verdict_ok ops N Cl_resolve c \<longleftrightarrow> False"

fun run_ok :: "'p pt_ops \<Rightarrow> 'p cl_env \<Rightarrow> 'p cl_run \<Rightarrow> bool" where
  "run_ok ops N (Running c) \<longleftrightarrow>
     (phase c \<noteq> Connecting \<longrightarrow> outgoing c = write_json (json N) (cl_request c)) \<and>
     (phase c = Done \<longrightarrow> answered N c \<and> comms_status ops N (cl_response c) = status_code RQST_SUCCESS)"
| "run_ok ops N (Returned c) \<longleftrightarrow>
     answered N c \<and> comms_status ops N (cl_response c) = status_code RQST_SUCCESS"
| "run_ok ops N (Threw e c) \<longleftrightarrow> verdict_ok ops N e c"

lemma client_fields [simp]:
  "outgoing (cancel_timer c) = outgoing c" "cl_request (cancel_timer c) = cl_request c"
  "outgoing (close_socket c) = outgoing c" "cl_request (close_socket c) = cl_request c"
  "cl_response (close_socket c) = cl_response c"
  by (simp_all add: cancel_timer_def close_socket_def)

lemma answered_fields [simp]:
  "answered N (cancel_timer c) = answered N c" "answered N (close_socket c) = answered N c"
  "answered N (c\<lparr>phase := f\<rparr>) = answered N c" "answered N (c\<lparr>timeout_timer := t\<rparr>) = answered N c"
  by (simp_all add: answered_def)

lemma handle_read_ok:
  assumes "outgoing c = write_json (json N) (cl_request c)"
  shows "run_ok ops N (ran (handle_read ops N err buffer c))"
proof (cases err)
  case None
  show ?thesis
  proof (cases "read_json (json N) (first_line buffer)")
    case (Some r)
    then have "answered N (c\<lparr>cl_response := r\<rparr>)" using assms by (auto simp: answered_def)
    with None Some show ?thesis
      by (auto simp: handle_read_def getline_first Let_def retryable_def assms split: option.split)
  qed (use None in \<open>auto simp: handle_read_def getline_first Let_def\<close>)
qed (auto simp: handle_read_def)

lemma run_ok_step: "cl_step ops N r r' \<Longrightarrow> run_ok ops N r \<Longrightarrow> run_ok ops N r'"
proof (induction rule: cl_step.induct)
  case (received c err buffer)
  then show ?case by (intro handle_read_ok) simp
qed (auto simp: handle_connect_def handle_write_def handle_timeout_def split: option.split)

lemma run_ok_steps: "cl_steps ops N n r r' \<Longrightarrow> run_ok ops N r \<Longrightarrow> run_ok ops N r'"
  by (induction rule: cl_steps.induct) (auto intro: run_ok_step)

lemma start_client_fields:
  "start_client ops N cfg request response = (Inr (), c) \<Longrightarrow>
   phase c = Connecting \<and> timeout_timer c = Armed"
  by (auto simp: start_client_def Let_def split: option.splits if_splits)

section \<open>Properties\<close>


text \<open>A call that succeeds, event by event; the server's answer is the status alone.\<close>

definition demo_cl_env :: "ptree cl_env" where
  "demo_cl_env =
     \<lparr>json = \<lparr>write_json = (\<lambda>t. Some (''REQ'' @ [newline])),
               read_json = (\<lambda>s. if s = ''OK'' then Some (node [(''kcm-sts'', leaf ''0'')])
                 else if s = ''BUSY'' then Some (node [(''kcm-sts'', leaf ''4''), (''kcm-erm'', leaf ''busy'')])
                 else None)\<rparr>,
      get_uint = (\<lambda>s. if s \<noteq> [] \<and> list_all decimal_digit s then Some (digits_value s) else None),
      resolves = (\<lambda>h p. True)\<rparr>"

definition demo_call :: "ptree client" where
  "demo_call = snd (start_client ptree_ops demo_cl_env white_config
     (node [(''kcm-cmd'', leaf ''echo''), (''kcm-hst'', leaf ''h''), (''kcm-prt'', leaf ''9'')])
     (pt_new ptree_ops))"

lemma demo_call_starts:
  "start_client ptree_ops demo_cl_env white_config
     (node [(''kcm-cmd'', leaf ''echo''), (''kcm-hst'', leaf ''h''), (''kcm-prt'', leaf ''9'')])
     (pt_new ptree_ops) = (Inr (), demo_call)"
  by code_simp

definition demo_sent :: "ptree client" where
  "demo_sent = snd (handle_write None (snd (handle_connect demo_cl_env None demo_call)))"

definition demo_done :: "ptree client" where
  "demo_done = snd (handle_timeout True (snd (handle_read ptree_ops demo_cl_env None (''OK'' @ [newline]) demo_sent)))"

lemma demo_call_sent: "cl_steps ptree_ops demo_cl_env 2 (Running demo_call) (Running demo_sent)"
proof -
  have "phase demo_call = Connecting" "ran (handle_connect demo_cl_env None demo_call) =
      Running (snd (handle_connect demo_cl_env None demo_call))"
    "phase (snd (handle_connect demo_cl_env None demo_call)) = Writing"
    "ran (handle_write None (snd (handle_connect demo_cl_env None demo_call))) = Running demo_sent"
    by (code_simp, simp_all add: ran_def handle_write_def demo_sent_def, code_simp+)
  then show ?thesis
    unfolding numeral_2_eq_2 by (metis cl_steps.none cl_steps.more cl_step.connected cl_step.wrote)
qed

lemma demo_call_returns:
  "cl_steps ptree_ops demo_cl_env 5 (Running demo_call) (Returned demo_done)"
proof -
  let ?r = "snd (handle_read ptree_ops demo_cl_env None (''OK'' @ [newline]) demo_sent)"
  have f: "phase demo_sent = Reading" "ran (handle_read ptree_ops demo_cl_env None (''OK'' @ [newline]) demo_sent) = Running ?r"
    "timeout_timer ?r = Cancelled" "ran (handle_timeout True ?r) = Running demo_done"
    "phase demo_done = Done" "timeout_timer demo_done = Spent"
    by (code_simp, simp add: ran_def, code_simp, code_simp, simp add: ran_def handle_timeout_def demo_done_def,
        code_simp, code_simp)
  have "cl_steps ptree_ops demo_cl_env (Suc 2) (Running demo_call) (Running ?r)"
    by (rule cl_steps.more [OF demo_call_sent]) (metis f(1,2) cl_step.received)
  then have "cl_steps ptree_ops demo_cl_env (Suc (Suc 2)) (Running demo_call) (Running demo_done)"
    by (rule cl_steps.more) (metis f(3,4) cl_step.aborted)
  then have "cl_steps ptree_ops demo_cl_env (Suc (Suc (Suc 2))) (Running demo_call) (Returned demo_done)"
    by (rule cl_steps.more) (rule cl_step.finished [OF f(5,6)])
  then show ?thesis by (simp add: eval_nat_numeral)
qed


text \<open>
  C17. What the caller learns. When the constructor returns, the request was sent and an answer with
  the status of success was read. When it throws, the exception says what happened: a
  \<open>RetryableCommsFailure\<close> is the timeout or the message of an answer that the application is busy
  or shutting down, a \<open>PerminantCommsFailure\<close> a broken connection or the message of any other
  refusal; a refusal without a message surfaces as \<open>ptree_bad_path\<close>, not as a failure of
  either kind.
\<close>

theorem client_verdict:
  assumes "start_client ops N cfg request response = (Inr (), c)" and "cl_steps ops N n (Running c) r"
  shows "case r of
      Returned c' \<Rightarrow> answered N c' \<and> comms_status ops N (cl_response c') = status_code RQST_SUCCESS
    | Threw e c' \<Rightarrow> verdict_ok ops N e c'
    | Running c' \<Rightarrow> True"
proof -
  have "run_ok ops N (Running c)" using start_client_fields [OF assms(1)] by simp
  from run_ok_steps [OF assms(2) this] show ?thesis by (cases r) simp_all
qed

lemma client_verdict_witness:
  "answered demo_cl_env demo_done \<and> comms_status ptree_ops demo_cl_env (cl_response demo_done) = 0"
  using client_verdict [OF demo_call_starts demo_call_returns] by simp

text \<open>
  C39. A timer that expires while the answer is being handled is no longer cancelled: the call then
  throws a \<open>RetryableCommsFailure\<close> although the answer says success, and a caller that retries
  makes the server process the request twice.
\<close>

theorem late_timeout_after_success:
  assumes "phase c = Reading" and "timeout_timer c = Armed"
    and "read_json (json N) (first_line buffer) = Some t"
    and "comms_status ops N t = status_code RQST_SUCCESS"
  shows "\<exists>c'. cl_steps ops N 3 (Running c) (Threw (RetryableCommsFailure ''Message timed out.'') c') \<and>
    cl_response c' = t \<and> comms_status ops N (cl_response c') = status_code RQST_SUCCESS"
proof -
  let ?c1 = "c\<lparr>timeout_timer := Expired\<rparr>"
  let ?c2 = "?c1\<lparr>cl_response := t, phase := Done\<rparr>"
  have "cl_steps ops N (Suc 0) (Running c) (Running ?c1)"
    by (intro cl_steps.more [OF cl_steps.none] cl_step.expires assms)
  moreover have "ran (handle_read ops N None buffer ?c1) = Running ?c2"
    using assms(3,4) by (simp add: handle_read_def getline_first cancel_timer_def)
  then have "cl_step ops N (Running ?c1) (Running ?c2)"
    using cl_step.received [of ?c1 ops N None buffer] assms(1) by simp
  ultimately have "cl_steps ops N (Suc (Suc 0)) (Running c) (Running ?c2)" by (rule cl_steps.more)
  moreover have "cl_step ops N (Running ?c2) (ran (handle_timeout False ?c2))"
    by (rule cl_step.timed_out) simp
  ultimately have "cl_steps ops N 3 (Running c) (ran (handle_timeout False ?c2))"
    unfolding numeral_3_eq_3 by (rule cl_steps.more)
  then show ?thesis using assms(4) by (auto simp: handle_timeout_def close_socket_def)
qed

lemma late_timeout_after_success_witness:
  "\<exists>c'. cl_steps ptree_ops demo_cl_env 3 (Running demo_sent)
     (Threw (RetryableCommsFailure ''Message timed out.'') c')"
proof -
  have "phase demo_sent = Reading" "timeout_timer demo_sent = Armed"
    "read_json (json demo_cl_env) (first_line (''OK'' @ [newline])) = Some (node [(''kcm-sts'', leaf ''0'')])"
    "comms_status ptree_ops demo_cl_env (node [(''kcm-sts'', leaf ''0'')]) = status_code RQST_SUCCESS"
    by code_simp+
  from late_timeout_after_success [OF this] show ?thesis by blast
qed

end
