(* ===== verification/Stats_Keeper.thy ===== *)
theory Stats_Keeper
  imports Std_Map
begin

text \<open>
  \<open>StatsKeeper\<close> (kisscpp/statskeeper.hpp and .cpp): named counters, the sizes of registered
  queues, and a bounded history that a thread gathers every period.

  \<open>double\<close> is a type parameter with zero and subtraction, \<open>of_time\<close> and \<open>of_size\<close> are the
  conversions to it, and \<open>qsize\<close> is the virtual \<open>StatAbleQueue::size\<close>. A history is a deque
  with the latest value first. Reading a deque past its end is undefined in C++; the model
  makes it the error \<open>PastEnd\<close>. The getters and setters hold \<open>statMutex\<close>;
  \<open>addStatableQueue\<close> and the gathering thread do not, so the model's steps are the whole calls
  only as long as these do not overlap with another one.
\<close>

section \<open>State and operations\<close>

datatype stats_error = PastEnd string nat

record ('d, 'q) stats =
  gatherPeriod :: nat
  historyLength :: nat
  running :: bool
  gatheredStatsMap :: "(string, 'd list) smap"
  statsMap :: "(string, 'd) smap"
  startTime :: int
  queueStatsMap :: "(string, 'q) smap"

definition start_keeper :: "int \<Rightarrow> ('d, 'q) stats \<Rightarrow> ('d, 'q) stats" where
  "start_keeper now st = (if running st then st else st\<lparr>startTime := now, running := True\<rparr>)"

definition new_keeper :: "int \<Rightarrow> nat \<Rightarrow> nat \<Rightarrow> ('d, 'q) stats" where
  "new_keeper now gp hl = start_keeper now
     \<lparr>gatherPeriod = gp, historyLength = hl, running = False, gatheredStatsMap = [],
      statsMap = [], startTime = 0, queueStatsMap = []\<rparr>"

definition stop_keeper :: "('d, 'q) stats \<Rightarrow> ('d, 'q) stats" where
  "stop_keeper st = st\<lparr>running := False\<rparr>"

definition destroy_keeper :: "('d, 'q) stats \<Rightarrow> ('d, 'q) stats" where
  "destroy_keeper st = stop_keeper st"

definition setStatValue :: "string \<Rightarrow> 'd \<Rightarrow> ('d, 'q) stats \<Rightarrow> ('d, 'q) stats" where
  "setStatValue i v st = st\<lparr>statsMap := smap_put i v (statsMap st)\<rparr>"

definition increment :: "string \<Rightarrow> 'd::{zero,plus,minus} \<Rightarrow> ('d, 'q) stats \<Rightarrow> ('d, 'q) stats" where
  "increment i v st =
     (case smap_find (statsMap st) i of
        Some w \<Rightarrow> st\<lparr>statsMap := smap_put i (w + v) (statsMap st)\<rparr>
      | None \<Rightarrow> st\<lparr>statsMap := smap_put i v (statsMap st)\<rparr>)"

definition decrement :: "string \<Rightarrow> 'd::{zero,plus,minus} \<Rightarrow> ('d, 'q) stats \<Rightarrow> ('d, 'q) stats" where
  "decrement i v st =
     (case smap_find (statsMap st) i of
        Some w \<Rightarrow> st\<lparr>statsMap := smap_put i (w - v) (statsMap st)\<rparr>
      | None \<Rightarrow> st\<lparr>statsMap := smap_put i (0 - v) (statsMap st)\<rparr>)"

definition addStatableQueue :: "string \<Rightarrow> 'q \<Rightarrow> ('d, 'q) stats \<Rightarrow> ('d, 'q) stats" where
  "addStatableQueue i q st = st\<lparr>queueStatsMap := smap_put i q (queueStatsMap st)\<rparr>"

definition uptime_id :: string where
  "uptime_id = ''kcs-uptime''"

definition note_uptime :: "(int \<Rightarrow> 'd) \<Rightarrow> int \<Rightarrow> ('d, 'q) stats \<Rightarrow> ('d, 'q) stats" where
  "note_uptime of_time now st =
     st\<lparr>statsMap := smap_put uptime_id (of_time (now - startTime st)) (statsMap st)\<rparr>"

definition stat_path :: "string \<Rightarrow> string" where
  "stat_path i = ''stats.'' @ i"

definition getCurrentStats ::
  "(int \<Rightarrow> 'd) \<Rightarrow> (nat \<Rightarrow> 'd) \<Rightarrow> ('q \<Rightarrow> nat) \<Rightarrow> int \<Rightarrow> ('d, 'q) stats \<Rightarrow>
   (string, 'd) smap \<times> ('d, 'q) stats" where
  "getCurrentStats of_time of_size qsize now st =
     (let st' = note_uptime of_time now st;
          r1 = fold (\<lambda>e. smap_put (stat_path (fst e)) (snd e)) (statsMap st') [];
          r2 = fold (\<lambda>e. smap_put (stat_path (fst e)) (of_size (qsize (snd e)))) (queueStatsMap st') r1
      in (r2, st'))"

fun last_gathered ::
  "(string, 'd list) smap \<Rightarrow> (string, 'd) smap \<Rightarrow> stats_error + (string, 'd) smap" where
  "last_gathered [] r = Inr r"
| "last_gathered ((i, []) # m) r = Inl (PastEnd i 0)"
| "last_gathered ((i, x # xs) # m) r = last_gathered m (smap_put (stat_path i) x r)"

definition getLastGatheredStats :: "('d, 'q) stats \<Rightarrow> stats_error + (string, 'd) smap" where
  "getLastGatheredStats st = last_gathered (gatheredStatsMap st) []"

text \<open>\<open>std::setfill('0') << std::setw(2) << i\<close>\<close>

definition two_digits :: "nat \<Rightarrow> string" where
  "two_digits n = replicate (2 - length (show_nat n)) CHR ''0'' @ show_nat n"

definition history_path :: "string \<Rightarrow> nat \<Rightarrow> string" where
  "history_path i n = ''stats.'' @ i @ ''.'' @ two_digits n"

definition push_history :: "string \<Rightarrow> 'd \<Rightarrow> (string, 'd list) smap \<Rightarrow> (string, 'd list) smap" where
  "push_history p v r =
     smap_put p ((case smap_find r p of None \<Rightarrow> [] | Some vs \<Rightarrow> vs) @ [v]) r"

fun history_of ::
  "string \<Rightarrow> 'd list \<Rightarrow> nat list \<Rightarrow> (string, 'd list) smap \<Rightarrow> stats_error + (string, 'd list) smap" where
  "history_of i xs [] r = Inr r"
| "history_of i xs (n # ns) r =
     (if n < length xs then history_of i xs ns (push_history (history_path i n) (xs ! n) r)
      else Inl (PastEnd i n))"

fun full_history ::
  "nat \<Rightarrow> (string, 'd list) smap \<Rightarrow> (string, 'd list) smap \<Rightarrow> stats_error + (string, 'd list) smap" where
  "full_history h [] r = Inr r"
| "full_history h ((i, xs) # m) r =
     (case history_of i xs [0..<h] r of Inl e \<Rightarrow> Inl e | Inr r1 \<Rightarrow> full_history h m r1)"

definition getFullStatsHistory :: "('d, 'q) stats \<Rightarrow> stats_error + (string, 'd list) smap" where
  "getFullStatsHistory st = full_history (historyLength st) (gatheredStatsMap st) []"

text \<open>What the gathering thread does at the end of a period.\<close>

definition push_gathered :: "string \<Rightarrow> 'd \<Rightarrow> (string, 'd list) smap \<Rightarrow> (string, 'd list) smap" where
  "push_gathered i v g =
     smap_put i (v # (case smap_find g i of None \<Rightarrow> [] | Some vs \<Rightarrow> vs)) g"

definition gather_stats :: "(string, 'd) smap \<Rightarrow> (string, 'd list) smap \<Rightarrow> (string, 'd list) smap" where
  "gather_stats m g = fold (\<lambda>e. push_gathered (fst e) (snd e)) m g"

definition trim_history :: "nat \<Rightarrow> (string, 'd list) smap \<Rightarrow> (string, 'd list) smap" where
  "trim_history h g = map (\<lambda>(i, xs). (i, if length xs > h then butlast xs else xs)) g"

definition gather_round ::
  "(int \<Rightarrow> 'd::zero) \<Rightarrow> (nat \<Rightarrow> 'd) \<Rightarrow> ('q \<Rightarrow> nat) \<Rightarrow> int \<Rightarrow> ('d, 'q) stats \<Rightarrow> ('d, 'q) stats" where
  "gather_round of_time of_size qsize now st =
     (let st1 = note_uptime of_time now st;
          g1 = gather_stats (statsMap st1) (gatheredStatsMap st1);
          g2 = gather_stats (map (\<lambda>(i, q). (i, of_size (qsize q))) (queueStatsMap st1)) g1
      in st1\<lparr>statsMap := map (\<lambda>(i, v). (i, 0)) (statsMap st1),
             gatheredStatsMap := trim_history (historyLength st1) g2\<rparr>)"

text \<open>
  The thread's loop, one second at a time: it counts the seconds of the period and gathers at
  its end, unless it has been stopped.
\<close>

definition keeper_second ::
  "(int \<Rightarrow> 'd::zero) \<Rightarrow> (nat \<Rightarrow> 'd) \<Rightarrow> ('q \<Rightarrow> nat) \<Rightarrow> int \<Rightarrow> nat \<times> ('d, 'q) stats \<Rightarrow> nat \<times> ('d, 'q) stats" where
  "keeper_second of_time of_size qsize now s =
     (let (sleepCount, st) = s in
      if \<not> running st then s
      else if Suc sleepCount < gatherPeriod st then (Suc sleepCount, st)
      else (0, gather_round of_time of_size qsize now st))"

section \<open>What a round does to the maps\<close>

definition history_at :: "('d, 'q) stats \<Rightarrow> string \<Rightarrow> 'd list" where
  "history_at st i = (case smap_find (gatheredStatsMap st) i of None \<Rightarrow> [] | Some xs \<Rightarrow> xs)"

definition gathered_at :: "(string, 'd list) smap \<Rightarrow> string \<Rightarrow> 'd list" where
  "gathered_at g i = (case smap_find g i of None \<Rightarrow> [] | Some xs \<Rightarrow> xs)"

definition stats_ok :: "('d, 'q) stats \<Rightarrow> bool" where
  "stats_ok st \<longleftrightarrow> smap_wf (statsMap st) \<and> smap_wf (queueStatsMap st) \<and>
     smap_wf (gatheredStatsMap st)"

definition some_list :: "'d option \<Rightarrow> 'd list" where
  "some_list x = (case x of None \<Rightarrow> [] | Some v \<Rightarrow> [v])"

lemma some_list_simps [simp]: "some_list None = []" "some_list (Some v) = [v]"
  by (simp_all add: some_list_def)

lemma length_some_list [simp]: "length (some_list x) = (if x = None then 0 else 1)"
  by (cases x) simp_all

lemma push_gathered_at:
  "gathered_at (push_gathered i v g) = (gathered_at g)(i := v # gathered_at g i)"
  by (auto simp: push_gathered_def gathered_at_def smap_find_put fun_eq_iff)

lemma push_gathered_wf: "smap_wf g \<Longrightarrow> smap_wf (push_gathered i v g)"
  by (simp add: push_gathered_def smap.wf_put)

lemma gather_stats_at:
  "distinct (map fst m) \<Longrightarrow>
   gathered_at (gather_stats m g) i = some_list (map_of m i) @ gathered_at g i"
  unfolding gather_stats_def
proof (induction m arbitrary: g)
  case (Cons e m)
  then have "fst e = i \<Longrightarrow> map_of m i = None" by (auto simp: map_of_eq_None_iff)
  with Cons show ?case by (auto simp: push_gathered_at)
qed simp

lemma gather_stats_wf: "smap_wf g \<Longrightarrow> smap_wf (gather_stats m g)"
  unfolding gather_stats_def by (induction m arbitrary: g) (auto simp: push_gathered_wf)

lemma map_of_map_value: "map_of (map (\<lambda>(i, v). (i, f v)) m) i = map_option f (map_of m i)"
  by (induction m) auto

lemma smap_find_map_value:
  "smap_find (map (\<lambda>(i, v). (i, f v)) m) i = map_option f (smap_find m i)"
  by (simp add: smap_find_def map_of_map_value)

lemma keys_map_value: "map fst (map (\<lambda>(i, v). (i, f v)) m) = map fst m"
  by (induction m) auto

lemma trim_history_at:
  "gathered_at (trim_history h g) i =
   (if length (gathered_at g i) > h then butlast (gathered_at g i) else gathered_at g i)"
  by (auto simp: trim_history_def gathered_at_def smap_find_def map_of_map_value split: option.splits)

lemma smap_wf_map_value: "smap_wf (map (\<lambda>(i, v). (i, f v)) m) = smap_wf m"
  by (simp only: smap_wf_def keys_map_value)

lemma stats_ok_round:
  assumes "stats_ok st"
  shows "stats_ok (gather_round of_time of_size qsize now st)"
  using assms
  by (simp add: stats_ok_def gather_round_def note_uptime_def Let_def smap.wf_put gather_stats_wf
      trim_history_def smap_wf_map_value)

lemma history_after_round:
  assumes "stats_ok st"
  shows "history_at (gather_round of_time of_size qsize now st) i =
    (let xs = some_list (map_option (of_size \<circ> qsize) (smap_find (queueStatsMap st) i)) @
              some_list (if i = uptime_id then Some (of_time (now - startTime st))
                         else smap_find (statsMap st) i) @ history_at st i
     in if length xs > historyLength st then butlast xs else xs)"
proof -
  let ?m = "smap_put uptime_id (of_time (now - startTime st)) (statsMap st)"
  have wf: "smap_wf ?m" "smap_wf (queueStatsMap st)"
    using assms by (simp_all add: stats_ok_def smap.wf_put)
  note d = smap.entries_distinct [OF wf(1)] smap.entries_distinct [OF wf(2)]
  then have "distinct (map fst (map (\<lambda>(i, q). (i, of_size (qsize q))) (queueStatsMap st)))"
    by (simp only: keys_map_value)
  note at = gather_stats_at [OF d(1)] gather_stats_at [OF this]
  have "map_of ?m i = (if i = uptime_id then Some (of_time (now - startTime st))
      else smap_find (statsMap st) i)"
    using smap_find_put [of uptime_id "of_time (now - startTime st)" "statsMap st"]
    by (simp add: smap_find_def fun_eq_iff)
  moreover have "history_at (gather_round of_time of_size qsize now st) i =
      gathered_at (gatheredStatsMap (gather_round of_time of_size qsize now st)) i"
    by (simp add: history_at_def gathered_at_def)
  moreover have "gathered_at (gatheredStatsMap st) i = history_at st i"
    by (simp add: history_at_def gathered_at_def)
  ultimately show ?thesis
    by (simp add: gather_round_def note_uptime_def Let_def trim_history_at at map_of_map_value
        smap_find_def comp_def)
qed

lemma stats_after_round:
  "smap_wf (statsMap st) \<Longrightarrow>
   smap_find (statsMap (gather_round of_time of_size qsize now st)) i =
     (if i = uptime_id \<or> smap_find (statsMap st) i \<noteq> None then Some 0 else None)"
  by (auto simp: gather_round_def note_uptime_def Let_def smap_find_put smap_find_map_value)

section \<open>The history's paths\<close>

lemma two_digits_value: "digits_value (two_digits n) = n"
proof -
  have "digits_value (replicate k CHR ''0'' @ s) = digits_value s" for k s
    by (induction k) simp_all
  then show ?thesis by (simp add: two_digits_def)
qed

lemma two_digits_chars: "c \<in> set (two_digits n) \<Longrightarrow> decimal_digit c"
  by (auto simp: two_digits_def decimal_digit_def [of "CHR ''0''"] dest: show_nat_digits)

lemma history_path_eq [simp]: "history_path i n = history_path j k \<longleftrightarrow> i = j \<and> n = k"
proof
  assume "history_path i n = history_path j k"
  then have "i @ CHR ''.'' # two_digits n = j @ CHR ''.'' # two_digits k"
    by (simp add: history_path_def)
  moreover have "CHR ''.'' \<notin> set (two_digits m)" for m
    using two_digits_chars [of "CHR ''.''" m] by (auto simp: decimal_digit_def)
  ultimately have "i = j" "two_digits n = two_digits k"
    using split_at_last [of "CHR ''.''" "two_digits n" "two_digits k" i j] by auto
  then show "i = j \<and> n = k" using two_digits_value by metis
qed simp

lemma history_of_ok:
  assumes "\<forall>n\<in>set ns. n < length xs" "distinct ns" "\<forall>n\<in>set ns. smap_find r (history_path i n) = None"
  obtains r' where "history_of i xs ns r = Inr r'"
    "\<forall>n\<in>set ns. smap_find r' (history_path i n) = Some [xs ! n]"
    "\<forall>p. (\<forall>n\<in>set ns. p \<noteq> history_path i n) \<longrightarrow> smap_find r' p = smap_find r p"
proof -
  have "\<exists>r'. history_of i xs ns r = Inr r' \<and>
      (\<forall>n\<in>set ns. smap_find r' (history_path i n) = Some [xs ! n]) \<and>
      (\<forall>p. (\<forall>n\<in>set ns. p \<noteq> history_path i n) \<longrightarrow> smap_find r' p = smap_find r p)"
    using assms
  proof (induction ns arbitrary: r)
    case (Cons n ns)
    let ?r = "push_history (history_path i n) (xs ! n) r"
    have put: "smap_find ?r p = (if p = history_path i n then Some [xs ! n] else smap_find r p)" for p
      using Cons.prems(3) by (simp add: push_history_def smap_find_put)
    have "\<forall>m\<in>set ns. smap_find ?r (history_path i m) = None"
      using Cons.prems(2,3) by (auto simp: put)
    then obtain r' where r': "history_of i xs ns ?r = Inr r'"
      "\<forall>m\<in>set ns. smap_find r' (history_path i m) = Some [xs ! m]"
      "\<forall>p. (\<forall>m\<in>set ns. p \<noteq> history_path i m) \<longrightarrow> smap_find r' p = smap_find ?r p"
      using Cons.IH [of ?r] Cons.prems(1,2) by auto
    have "\<forall>m\<in>set ns. history_path i n \<noteq> history_path i m" using Cons.prems(2) by auto
    then have "smap_find r' (history_path i n) = smap_find ?r (history_path i n)"
      using r'(3) by blast
    then have "smap_find r' (history_path i n) = Some [xs ! n]" by (simp add: put)
    with r' Cons.prems(1) put show ?case by auto
  qed simp
  with that show thesis by blast
qed

lemma full_history_ok:
  assumes "\<forall>(i, xs)\<in>set m. h \<le> length xs" "distinct (map fst m)"
    "\<forall>(i, xs)\<in>set m. \<forall>n<h. smap_find r (history_path i n) = None"
  obtains r' where "full_history h m r = Inr r'"
    "\<forall>(i, xs)\<in>set m. \<forall>n<h. smap_find r' (history_path i n) = Some [xs ! n]"
    "\<forall>p. (\<forall>(i, xs)\<in>set m. \<forall>n<h. p \<noteq> history_path i n) \<longrightarrow> smap_find r' p = smap_find r p"
proof -
  have "\<exists>r'. full_history h m r = Inr r' \<and>
    (\<forall>(i, xs)\<in>set m. \<forall>n<h. smap_find r' (history_path i n) = Some [xs ! n]) \<and>
    (\<forall>p. (\<forall>(i, xs)\<in>set m. \<forall>n<h. p \<noteq> history_path i n) \<longrightarrow> smap_find r' p = smap_find r p)"
    using assms
  proof (induction m arbitrary: r)
    case (Cons e m)
    obtain i xs where e: "e = (i, xs)" by fastforce
    obtain r1 where r1: "history_of i xs [0..<h] r = Inr r1"
      "\<forall>n\<in>set [0..<h]. smap_find r1 (history_path i n) = Some [xs ! n]"
      "\<forall>p. (\<forall>n\<in>set [0..<h]. p \<noteq> history_path i n) \<longrightarrow> smap_find r1 p = smap_find r p"
      by (rule history_of_ok [of "[0..<h]" xs r i]) (use Cons.prems e in auto)
    have other: "j \<noteq> i" if "(j, ys) \<in> set m" for j ys
      using Cons.prems(2) e that by force
    then have "\<forall>(j, ys)\<in>set m. \<forall>n<h. smap_find r1 (history_path j n) = None"
      using r1(3) Cons.prems(3) by fastforce
    then obtain r' where r': "full_history h m r1 = Inr r'"
      "\<forall>(j, ys)\<in>set m. \<forall>n<h. smap_find r' (history_path j n) = Some [ys ! n]"
      "\<forall>p. (\<forall>(j, ys)\<in>set m. \<forall>n<h. p \<noteq> history_path j n) \<longrightarrow> smap_find r' p = smap_find r1 p"
      using Cons.IH [of r1] Cons.prems(1,2) by auto
    have "\<forall>n<h. smap_find r' (history_path i n) = Some [xs ! n]"
    proof (intro allI impI)
      fix n assume n: "n < h"
      have "\<forall>(j, ys)\<in>set m. \<forall>k<h. history_path i n \<noteq> history_path j k" using other by fastforce
      then have "smap_find r' (history_path i n) = smap_find r1 (history_path i n)"
        using r'(3) by blast
      then show "smap_find r' (history_path i n) = Some [xs ! n]" using r1(2) n by simp
    qed
    with r' r1 e show ?case by auto
  qed simp
  with that show thesis by blast
qed

lemma history_of_short:
  "n \<in> set ns \<Longrightarrow> length xs \<le> n \<Longrightarrow> \<exists>k. history_of i xs ns r = Inl (PastEnd i k)"
  by (induction ns arbitrary: r) auto

lemma full_history_short:
  "(i, xs) \<in> set m \<Longrightarrow> length xs < h \<Longrightarrow> \<exists>e. full_history h m r = Inl e"
proof (induction m arbitrary: r)
  case (Cons e m)
  obtain j ys where e: "e = (j, ys)" by fastforce
  show ?case
  proof (cases "(i, xs) = (j, ys)")
    case True
    then show ?thesis using Cons.prems(2) history_of_short [of "length xs" "[0..<h]" xs i r] e by auto
  next
    case False
    then have "(i, xs) \<in> set m" using Cons.prems(1) e by auto
    with Cons.IH Cons.prems(2) e show ?thesis
      by (cases "history_of j ys [0..<h] r") auto
  qed
qed simp

section \<open>Reading the current values\<close>

lemma current_stats_find:
  assumes ok: "stats_ok st"
  shows "smap_find (fst (getCurrentStats of_time of_size qsize now st)) (stat_path i) =
    (case smap_find (queueStatsMap st) i of
       Some q \<Rightarrow> Some (of_size (qsize q))
     | None \<Rightarrow> if i = uptime_id then Some (of_time (now - startTime st)) else smap_find (statsMap st) i)"
proof -
  let ?m = "statsMap (note_uptime of_time now st)" and ?q = "queueStatsMap st"
  have inj: "inj stat_path" by (simp add: stat_path_def inj_def)
  have wf: "smap_wf ?m" "smap_wf ?q" using ok by (simp_all add: stats_ok_def note_uptime_def smap.wf_put)
  have same: "queueStatsMap (note_uptime of_time now st) = ?q" by (simp add: note_uptime_def)
  note q = smap.find_copy [where g = "\<lambda>q. of_size (qsize q)", OF inj smap.entries_distinct [OF wf(2)]]
  note m = smap.find_copy [where g = "\<lambda>v. v", OF inj smap.entries_distinct [OF wf(1)]]
  have "smap_find (fold (\<lambda>e. smap_put (stat_path (fst e)) (snd e)) ?m []) (stat_path i) = smap_find ?m i"
    by (simp add: m smap_find_def [symmetric] split: option.split)
  also have "\<dots> = (if i = uptime_id then Some (of_time (now - startTime st)) else smap_find (statsMap st) i)"
    by (simp add: note_uptime_def smap_find_put)
  finally show ?thesis
    by (cases "smap_find ?q i")
      (simp_all only: getCurrentStats_def Let_def fst_conv same q smap_find_def [symmetric] option.case)
qed

fun apply_change :: "bool \<times> string \<times> 'd::{zero,plus,minus} \<Rightarrow> ('d, 'q) stats \<Rightarrow> ('d, 'q) stats" where
  "apply_change (up, i, v) st = (if up then increment i v st else decrement i v st)"

fun change_at :: "string \<Rightarrow> bool \<times> string \<times> 'd::ab_group_add \<Rightarrow> 'd" where
  "change_at i (up, j, v) = (if i = j then if up then v else - v else 0)"

definition value_at :: "('d::zero, 'q) stats \<Rightarrow> string \<Rightarrow> 'd" where
  "value_at st i = (case smap_find (statsMap st) i of None \<Rightarrow> 0 | Some v \<Rightarrow> v)"

lemma apply_change_frame:
  "startTime (apply_change c st) = startTime st" "queueStatsMap (apply_change c st) = queueStatsMap st"
  "gatheredStatsMap (apply_change c st) = gatheredStatsMap st"
  "stats_ok st \<Longrightarrow> stats_ok (apply_change c st)"
  by (cases c; auto simp: increment_def decrement_def stats_ok_def smap.wf_put split: option.splits)+

lemma apply_change_value:
  fixes st :: "('d::ab_group_add, 'q) stats"
  shows "value_at (apply_change c st) i = value_at st i + change_at i c"
  by (cases c) (auto simp: increment_def decrement_def value_at_def smap_find_put split: option.splits)

lemma apply_changes_value:
  fixes st :: "('d::ab_group_add, 'q) stats"
  shows "value_at (fold apply_change cs st) i = value_at st i + sum_list (map (change_at i) cs)"
  by (induction cs arbitrary: st) (simp_all add: apply_change_value algebra_simps)

lemma apply_change_keys:
  "smap_find (statsMap (apply_change c st)) i = None \<longleftrightarrow>
   smap_find (statsMap st) i = None \<and> i \<noteq> fst (snd c)"
  by (cases c) (auto simp: increment_def decrement_def smap_find_put split: option.splits)

lemma apply_changes_keys:
  "smap_find (statsMap (fold apply_change cs st)) i = None \<longleftrightarrow>
   smap_find (statsMap st) i = None \<and> i \<notin> (fst \<circ> snd) ` set cs"
proof (induction cs arbitrary: st)
  case (Cons c cs)
  then show ?case by (auto simp: apply_change_keys simp del: not_None_eq apply_change.simps)
qed simp

lemma apply_changes_frame:
  "startTime (fold apply_change cs st) = startTime st"
  "queueStatsMap (fold apply_change cs st) = queueStatsMap st"
  "stats_ok st \<Longrightarrow> stats_ok (fold apply_change cs st)"
  by (induction cs arbitrary: st) (simp_all add: apply_change_frame)

section \<open>Properties\<close>

text \<open>
  C33. At the end of a period every counter's value, the uptime and every registered queue's size
  is put at the front of its history, the oldest value is dropped when the history is longer than
  \<open>historyLength\<close>, and every counter starts again at zero. A value is thus reported in one
  period only.
\<close>

theorem gather_round_effect:
  assumes "stats_ok st" and "smap_find (queueStatsMap st) i = None \<or>
      (i \<noteq> uptime_id \<and> smap_find (statsMap st) i = None)"
  shows "history_at (gather_round of_time of_size qsize now st) i =
      (let x = (if i = uptime_id then Some (of_time (now - startTime st)) else
             case smap_find (queueStatsMap st) i of Some q \<Rightarrow> Some (of_size (qsize q))
             | None \<Rightarrow> smap_find (statsMap st) i);
           xs = some_list x @ history_at st i
       in if length xs > historyLength st then butlast xs else xs) \<and>
    value_at (gather_round of_time of_size qsize now st) i = 0 \<and>
    stats_ok (gather_round of_time of_size qsize now st)"
proof (intro conjI)
  show "stats_ok (gather_round of_time of_size qsize now st)" by (rule stats_ok_round [OF assms(1)])
  have "smap_wf (statsMap st)" using assms(1) by (simp add: stats_ok_def)
  then show "value_at (gather_round of_time of_size qsize now st) i = 0"
    by (simp add: value_at_def stats_after_round)
qed (use assms(2) history_after_round [OF assms(1), of of_time of_size qsize now i] in
    \<open>auto simp: Let_def split: option.splits\<close>)

definition demo_stats :: "(int, nat) stats" where
  "demo_stats = addStatableQueue ''q'' 4 (increment ''req'' 3 (new_keeper 100 2 2))"

lemma demo_stats_ok: "stats_ok demo_stats"
  by (auto simp: stats_ok_def demo_stats_def addStatableQueue_def increment_def new_keeper_def
      start_keeper_def smap_wf_def)

lemma demo_stats_maps:
  "smap_find (queueStatsMap demo_stats) ''q'' = Some 4" "smap_find (queueStatsMap demo_stats) ''req'' = None"
  "smap_find (statsMap demo_stats) ''q'' = None" "smap_find (statsMap demo_stats) ''req'' = Some 3"
  "history_at demo_stats ''req'' = []" "historyLength demo_stats = 2" "''req'' \<noteq> uptime_id"
  by (simp_all add: demo_stats_def addStatableQueue_def increment_def new_keeper_def start_keeper_def
      smap_find_def history_at_def uptime_id_def)

lemma gather_round_effect_witness:
  "history_at (gather_round id int id 102 demo_stats) ''req'' = [3] \<and>
   value_at (gather_round id int id 102 demo_stats) ''req'' = 0"
  using gather_round_effect [OF demo_stats_ok, of "''req''" id int id 102]
  by (simp add: demo_stats_maps)

text \<open>
  Histories are bounded: a history of at most \<open>historyLength\<close> values has at most that many
  after a round, provided no queue is registered under the name of a counter. A name used for
  both gets two values a round and loses at most one, so its history grows for ever.
\<close>

theorem history_bounded:
  assumes "stats_ok st"
  shows "((smap_find (queueStatsMap st) i = None \<or> (i \<noteq> uptime_id \<and> smap_find (statsMap st) i = None)) \<and>
      length (history_at st i) \<le> historyLength st \<longrightarrow>
      length (history_at (gather_round of_time of_size qsize now st) i) \<le> historyLength st) \<and>
    (smap_find (queueStatsMap st) i \<noteq> None \<and> (i = uptime_id \<or> smap_find (statsMap st) i \<noteq> None) \<longrightarrow>
      length (history_at st i) < length (history_at (gather_round of_time of_size qsize now st) i))"
  using history_after_round [OF assms, of of_time of_size qsize now i]
  by (auto simp: Let_def)

lemma history_bounded_witness:
  "length (history_at (gather_round id int id 102 demo_stats) ''req'') \<le> 2"
  using history_bounded [OF demo_stats_ok, of "''req''" id int id 102]
  by (simp add: demo_stats_maps)

text \<open>
  C34. \<open>getFullStatsHistory\<close> reads \<open>historyLength\<close> values of every history. When all are that
  long, it returns each value under its own path; when one is shorter, as all are until
  \<open>historyLength\<close> rounds have passed, it reads past the end of the deque.
\<close>

theorem full_history_reads:
  assumes "stats_ok st"
  shows "(case getFullStatsHistory st of
      Inr r \<Rightarrow> (\<forall>(i, xs)\<in>set (gatheredStatsMap st). historyLength st \<le> length xs \<and>
        (\<forall>n<historyLength st. smap_find r (history_path i n) = Some [xs ! n]))
    | Inl e \<Rightarrow> \<exists>(i, xs)\<in>set (gatheredStatsMap st). length xs < historyLength st)"
proof (cases "\<forall>(i, xs)\<in>set (gatheredStatsMap st). historyLength st \<le> length xs")
  case True
  have d: "distinct (map fst (gatheredStatsMap st))"
    using assms smap.entries_distinct [of "gatheredStatsMap st"] by (simp add: stats_ok_def)
  obtain r where "full_history (historyLength st) (gatheredStatsMap st) [] = Inr r"
    "\<forall>(i, xs)\<in>set (gatheredStatsMap st). \<forall>n<historyLength st. smap_find r (history_path i n) = Some [xs ! n]"
    by (rule full_history_ok [OF True d, of "[]"]) auto
  with True show ?thesis by (auto simp: getFullStatsHistory_def)
next
  case False
  then obtain i xs where short: "(i, xs) \<in> set (gatheredStatsMap st)" "length xs < historyLength st"
    by (auto simp: not_le)
  from full_history_short [OF this] obtain e where "getFullStatsHistory st = Inl e"
    unfolding getFullStatsHistory_def by blast
  with short show ?thesis by auto
qed

lemma full_history_reads_witness:
  "\<exists>e. getFullStatsHistory (gather_round id int id 102 demo_stats) = Inl e"
proof (cases "getFullStatsHistory (gather_round id int id 102 demo_stats)")
  case (Inr r)
  have ev: "gatheredStatsMap (gather_round id int id 102 demo_stats) =
      [(''kcs-uptime'', [2]), (''q'', [4]), (''req'', [3])]"
    "historyLength (gather_round id int id 102 demo_stats) = 2" by code_simp+
  from full_history_reads [OF stats_ok_round [OF demo_stats_ok], of id int id 102] Inr
  show ?thesis by (simp add: ev)
qed simp

text \<open>
  The current statistics are, under \<open>stats.\<close> and the name: a registered queue's size, the
  uptime, and for every other name that has been counted the sum of its increments less its
  decrements (in exact arithmetic) on top of its value before.
\<close>

theorem current_stats_sums:
  fixes st :: "('d::ab_group_add, 'q) stats"
  assumes "stats_ok st"
  shows "smap_find (fst (getCurrentStats of_time of_size qsize now (fold apply_change cs st))) (stat_path i) =
    (case smap_find (queueStatsMap st) i of
       Some q \<Rightarrow> Some (of_size (qsize q))
     | None \<Rightarrow> if i = uptime_id then Some (of_time (now - startTime st))
         else if smap_find (statsMap st) i = None \<and> i \<notin> (fst \<circ> snd) ` set cs then None
         else Some (value_at st i + sum_list (map (change_at i) cs)))"
proof -
  let ?st = "fold apply_change cs st"
  have "smap_find (statsMap ?st) i = (if smap_find (statsMap st) i = None \<and> i \<notin> (fst \<circ> snd) ` set cs
      then None else Some (value_at ?st i))"
    using apply_changes_keys [of cs st i]
    by (cases "smap_find (statsMap ?st) i") (auto simp: value_at_def)
  then show ?thesis
    using current_stats_find [OF apply_changes_frame(3) [OF assms], of of_time of_size qsize now cs i]
    by (simp add: apply_changes_frame apply_changes_value split: option.split)
qed

lemma current_stats_sums_witness:
  "smap_find (fst (getCurrentStats id int id 107 (fold apply_change [(True, ''req'', 2), (False, ''req'', 1)]
     demo_stats))) (stat_path ''req'') = Some 4"
  using current_stats_sums [OF demo_stats_ok, of id int id 107 "[(True, ''req'', 2), (False, ''req'', 1)]" "''req''"]
  by (simp add: demo_stats_maps value_at_def)

end
