(* ===== verification/Error_State.thy ===== *)
theory Error_State
  imports Std_Map
begin

text \<open>
  \<open>ErrorState\<close> and \<open>ErrorStateList\<close> (kisscpp/errorstate.hpp and .cpp): the errors a server
  reports, counted per identifier in a 32-bit unsigned counter. The list is a
  \<open>std::map\<close> of shared pointers; an entry that \<open>operator[]\<close> default-constructs is a null
  pointer (\<open>None\<close>), and following it is the error \<open>NullPointer\<close>. \<open>boost::algorithm::to_lower\<close>
  is the parameter \<open>lower\<close>. Every call holds \<open>errorMutex\<close>.
\<close>

section \<open>State and operations\<close>

record error_state =
  es_id :: string
  description :: string
  count :: u32

type_synonym error_map = "(string, error_state option) smap"

datatype list_error = NullPointer string

definition new_error :: "string \<Rightarrow> string \<Rightarrow> error_state" where
  "new_error i d = \<lparr>es_id = i, description = d, count = 0\<rparr>"

definition es_set :: "error_state \<Rightarrow> error_state" where
  "es_set e = e\<lparr>count := count e + 1\<rparr>"

definition es_clear :: "u32 \<Rightarrow> error_state \<Rightarrow> error_state" where
  "es_clear amount e = e\<lparr>count := count e - amount\<rparr>"

definition es_clear_all :: "error_state \<Rightarrow> error_state" where
  "es_clear_all e = e\<lparr>count := 0\<rparr>"

definition isSet :: "error_state \<Rightarrow> bool" where
  "isSet e \<longleftrightarrow> 0 < count e"

text \<open>The singleton: made at the first call, empty.\<close>

definition errors_instance :: "error_map option \<Rightarrow> error_map" where
  "errors_instance singleton = (case singleton of None \<Rightarrow> [] | Some m \<Rightarrow> m)"

text \<open>\<open>errorStateMap[k]->f()\<close>: an absent key becomes a null pointer first.\<close>

definition at_key ::
  "string \<Rightarrow> (error_state \<Rightarrow> error_state) \<Rightarrow> error_map \<Rightarrow> (list_error, unit, error_map) outcome" where
  "at_key k f m =
     (case smap_find m k of
        None \<Rightarrow> (Inl (NullPointer k), smap_put k None m)
      | Some None \<Rightarrow> (Inl (NullPointer k), m)
      | Some (Some e) \<Rightarrow> (Inr (), smap_put k (Some (f e)) m))"

definition el_set ::
  "(string \<Rightarrow> string) \<Rightarrow> string \<Rightarrow> string \<Rightarrow> error_map \<Rightarrow> (list_error, unit, error_map) outcome" where
  "el_set lower i descr m =
     (let err_id = lower i in
      if smap_find m err_id \<noteq> None then at_key i es_set m
      else at_key i es_set (smap_put i (Some (new_error err_id descr)) m))"

definition el_clear ::
  "(string \<Rightarrow> string) \<Rightarrow> string \<Rightarrow> u32 \<Rightarrow> error_map \<Rightarrow> (list_error, unit, error_map) outcome" where
  "el_clear lower i amount m =
     (let err_id = lower i in
      if smap_find m err_id \<noteq> None then at_key err_id (es_clear amount) m
      else at_key err_id (es_clear amount) (smap_put err_id (Some (new_error err_id [])) m))"

definition el_clear_all ::
  "(string \<Rightarrow> string) \<Rightarrow> string \<Rightarrow> error_map \<Rightarrow> (list_error, unit, error_map) outcome" where
  "el_clear_all lower i m =
     (let err_id = lower i in
      if smap_find m err_id \<noteq> None then at_key err_id es_clear_all m
      else at_key err_id es_clear_all (smap_put err_id (Some (new_error err_id [])) m))"

fun set_states :: "error_map \<Rightarrow> list_error + error_state list" where
  "set_states [] = Inr []"
| "set_states ((k, None) # m) = Inl (NullPointer k)"
| "set_states ((k, Some e) # m) =
     (case set_states m of
        Inl err \<Rightarrow> Inl err
      | Inr es \<Rightarrow> Inr (if isSet e then e # es else es))"

definition getStates :: "error_map \<Rightarrow> list_error + error_state list" where
  "getStates m = set_states m"

section \<open>What \<open>to_lower\<close> is relied on for\<close>

locale case_folding =
  fixes lower :: "string \<Rightarrow> string"
  assumes lower_lower: "lower (lower s) = lower s"
begin

lemma lower_image: "s \<in> range lower \<Longrightarrow> lower s = s"
  using lower_lower by auto

lemma lower_eq: "lower s = lower t \<Longrightarrow> lower (lower s) = lower t"
  by (simp add: lower_lower)

end

definition ascii_lower_char :: "char \<Rightarrow> char" where
  "ascii_lower_char c =
     (if of_char c \<ge> (65 :: nat) \<and> of_char c \<le> (90 :: nat) then char_of ((of_char c :: nat) + 32) else c)"

definition ascii_lower :: "string \<Rightarrow> string" where
  "ascii_lower s = map ascii_lower_char s"

interpretation ascii: case_folding ascii_lower
  by unfold_locales (simp add: ascii_lower_def ascii_lower_char_def)

section \<open>Counting\<close>

datatype error_op = Set_error string string | Clear_error string u32 | Clear_all_errors string

fun error_step ::
  "(string \<Rightarrow> string) \<Rightarrow> error_op \<Rightarrow> error_map \<Rightarrow> (list_error, unit, error_map) outcome" where
  "error_step lower (Set_error i d) m = el_set lower i d m"
| "error_step lower (Clear_error i n) m = el_clear lower i n m"
| "error_step lower (Clear_all_errors i) m = el_clear_all lower i m"

fun error_run ::
  "(string \<Rightarrow> string) \<Rightarrow> error_op list \<Rightarrow> error_map \<Rightarrow> (list_error, unit, error_map) outcome" where
  "error_run lower [] m = (Inr (), m)"
| "error_run lower (o1 # ops) m = and_then (error_step lower o1 m) (\<lambda>_ m1. error_run lower ops m1)"

fun op_id :: "error_op \<Rightarrow> string" where
  "op_id (Set_error i d) = i"
| "op_id (Clear_error i n) = i"
| "op_id (Clear_all_errors i) = i"

text \<open>The specification: one integer per identifier.\<close>

fun spec_step :: "error_op \<Rightarrow> (string \<Rightarrow> int) \<Rightarrow> string \<Rightarrow> int" where
  "spec_step (Set_error i d) f = f(i := f i + 1)"
| "spec_step (Clear_error i n) f = f(i := f i - uint n)"
| "spec_step (Clear_all_errors i) f = f(i := 0)"

definition count_of :: "error_map \<Rightarrow> string \<Rightarrow> u32" where
  "count_of m k = (case smap_find m k of Some (Some e) \<Rightarrow> count e | _ \<Rightarrow> 0)"

definition errors_ok :: "error_map \<Rightarrow> bool" where
  "errors_ok m \<longleftrightarrow> smap_wf m \<and>
     (\<forall>k v. smap_find m k = Some v \<longrightarrow> (\<exists>e. v = Some e \<and> es_id e = k))"

lemma at_key_ok:
  assumes "errors_ok m" "smap_find m k = Some v"
  shows "at_key k f m = (Inr (), smap_put k (Some (f (the v))) m)"
  using assms by (cases v) (auto simp: at_key_def errors_ok_def)

lemma errors_ok_put: "errors_ok m \<Longrightarrow> es_id e = k \<Longrightarrow> errors_ok (smap_put k (Some e) m)"
  by (auto simp: errors_ok_def smap.wf_put smap_find_put)

lemma errors_ok_Nil: "errors_ok []"
  by (simp add: errors_ok_def smap.wf_nothing)

text \<open>The three operations, for an identifier that is in lower case already.\<close>

definition current :: "error_map \<Rightarrow> string \<Rightarrow> string \<Rightarrow> error_state" where
  "current m i descr = (case smap_find m i of Some (Some e) \<Rightarrow> e | _ \<Rightarrow> new_error i descr)"

lemma smap_put_put: "smap_wf m \<Longrightarrow> smap_put k v (smap_put k w m) = smap_put k v m"
  by (rule smap.entries_ext) (simp_all add: smap.wf_put smap_find_put)

lemma lower_case_step:
  assumes "errors_ok m" "lower (op_id oper) = op_id oper"
  obtains e where "error_step lower oper m = (Inr (), smap_put (op_id oper) (Some e) m)"
    "count e = (case oper of Set_error i d \<Rightarrow> count_of m i + 1
      | Clear_error i n \<Rightarrow> count_of m i - n | Clear_all_errors i \<Rightarrow> 0)"
    "es_id e = op_id oper"
proof (cases "smap_find m (op_id oper)")
  case None
  have ok: "errors_ok (smap_put k (Some (new_error k d)) m)" for k d
    by (rule errors_ok_put [OF assms(1)]) (simp add: new_error_def)
  have wf: "smap_wf m" using assms(1) by (simp add: errors_ok_def)
  note at = at_key_ok [OF ok, of k d k "Some (new_error k d)" for k d]
  show thesis
    using None assms(2) that at
    by (cases oper) (auto simp: el_set_def el_clear_def el_clear_all_def smap_find_put Let_def
        smap_put_put [OF wf] count_of_def es_set_def es_clear_def es_clear_all_def new_error_def)
next
  case (Some v)
  then obtain e where e: "v = Some e" "es_id e = op_id oper"
    using assms(1) by (auto simp: errors_ok_def)
  show thesis
    using Some e assms(2) that at_key_ok [OF assms(1) Some]
    by (cases oper) (auto simp: el_set_def el_clear_def el_clear_all_def Let_def count_of_def
        es_set_def es_clear_def es_clear_all_def)
qed

lemma count_of_put [simp]: "count_of (smap_put k (Some e) m) = (count_of m)(k := count e)"
  by (auto simp: count_of_def smap_find_put fun_eq_iff)

lemma error_run_counts:
  assumes "errors_ok m" "\<forall>oper\<in>set ops. lower (op_id oper) = op_id oper"
    "\<forall>k. count_of m k = of_int (f k)"
  obtains m' where "error_run lower ops m = (Inr (), m')" "errors_ok m'"
    "\<forall>k. count_of m' k = of_int (fold spec_step ops f k)"
proof -
  have "\<exists>m'. error_run lower ops m = (Inr (), m') \<and> errors_ok m' \<and>
      (\<forall>k. count_of m' k = of_int (fold spec_step ops f k))"
    using assms
  proof (induction ops arbitrary: m f)
    case (Cons oper ops)
    obtain e where e: "error_step lower oper m = (Inr (), smap_put (op_id oper) (Some e) m)"
      "count e = (case oper of Set_error i d \<Rightarrow> count_of m i + 1
        | Clear_error i n \<Rightarrow> count_of m i - n | Clear_all_errors i \<Rightarrow> 0)"
      "es_id e = op_id oper"
      using lower_case_step [OF Cons.prems(1)] Cons.prems(2) by (metis list.set_intros(1))
    have "\<forall>k. count_of (smap_put (op_id oper) (Some e) m) k = of_int (spec_step oper f k)"
      using e(2) Cons.prems(3) by (cases oper) auto
    with Cons.IH [OF errors_ok_put [OF Cons.prems(1) e(3)]] Cons.prems(2) e(1) show ?case by simp
  qed simp
  with that show thesis by blast
qed

lemma set_states_ok:
  assumes "\<forall>e\<in>set m. snd e \<noteq> None"
  shows "set_states m = Inr (filter isSet (map (\<lambda>e. the (snd e)) m))"
  using assms by (induction m rule: set_states.induct) auto

lemma getStates_ok:
  assumes "errors_ok m"
  obtains es where "getStates m = Inr es" "sorted_wrt (<) (map es_id es)"
    "\<forall>e. e \<in> set es \<longleftrightarrow> smap_find m (es_id e) = Some (Some e) \<and> isSet e"
proof -
  have entry: "\<exists>e. v = Some e \<and> es_id e = k" if "(k, v) \<in> set m" for k v
    using assms that smap.entries_iff [of m k v] by (auto simp: errors_ok_def)
  have wf: "smap_wf m" using assms by (simp add: errors_ok_def)
  let ?es = "filter isSet (map (\<lambda>e. the (snd e)) m)"
  have "\<forall>e\<in>set m. snd e \<noteq> None" using entry by fastforce
  then have "getStates m = Inr ?es" by (simp add: getStates_def set_states_ok)
  moreover have "sorted_wrt (<) (map es_id ?es)"
  proof -
    have "map es_id (map (\<lambda>e. the (snd e)) m) = map fst m" using entry by fastforce
    then have "sorted_wrt (<) (map es_id (map (\<lambda>e. the (snd e)) m))"
      using wf by (simp only: smap_wf_def)
    then have "sorted_wrt (\<lambda>a b. es_id a < es_id b) (map (\<lambda>e. the (snd e)) m)"
      by (simp only: sorted_wrt_map)
    from sorted_wrt_filter [OF this] show ?thesis by (simp only: sorted_wrt_map)
  qed
  moreover have "\<forall>e. e \<in> set ?es \<longleftrightarrow> smap_find m (es_id e) = Some (Some e) \<and> isSet e"
  proof
    fix e
    have "(\<exists>p\<in>set m. e = the (snd p)) \<longleftrightarrow> (es_id e, Some e) \<in> set m"
    proof
      assume "\<exists>p\<in>set m. e = the (snd p)"
      then obtain k v where "(k, v) \<in> set m" "e = the v" by auto
      with entry [of k v] show "(es_id e, Some e) \<in> set m" by auto
    next
      assume "(es_id e, Some e) \<in> set m"
      then show "\<exists>p\<in>set m. e = the (snd p)" by (rule bexI [rotated]) simp
    qed
    then show "e \<in> set ?es \<longleftrightarrow> smap_find m (es_id e) = Some (Some e) \<and> isSet e"
      using smap.entries_iff [OF wf, of "es_id e" "Some e"] by (auto simp: image_iff)
  qed
  ultimately show thesis by (rule that)
qed

section \<open>Properties\<close>

text \<open>
  C32. For identifiers in lower case the list counts: after any sequence of calls, none of which
  fails, every counter is the specification's integer modulo two to the thirty-two, and
  \<open>getStates\<close> returns, in the order of their identifiers, exactly the errors whose counter is
  not zero.
\<close>

theorem error_counts_refine:
  assumes "\<forall>oper\<in>set ops. lower (op_id oper) = op_id oper"
  shows "\<exists>m es. error_run lower ops [] = (Inr (), m) \<and>
    (\<forall>k. count_of m k = of_int (fold spec_step ops (\<lambda>_. 0) k)) \<and>
    getStates m = Inr es \<and> sorted_wrt (<) (map es_id es) \<and>
    (\<forall>e\<in>set es. count e = count_of m (es_id e)) \<and>
    set (map es_id es) = {k. (of_int (fold spec_step ops (\<lambda>_. 0) k) :: u32) \<noteq> 0}"
proof -
  obtain m where m: "error_run lower ops [] = (Inr (), m)" "errors_ok m"
    "\<forall>k. count_of m k = of_int (fold spec_step ops (\<lambda>_. 0) k)"
    using error_run_counts [OF errors_ok_Nil assms, of "\<lambda>_. 0"] by (auto simp: count_of_def)
  obtain es where es: "getStates m = Inr es" "sorted_wrt (<) (map es_id es)"
    "\<forall>e. e \<in> set es \<longleftrightarrow> smap_find m (es_id e) = Some (Some e) \<and> isSet e"
    by (rule getStates_ok [OF m(2)])
  have "\<forall>e\<in>set es. count e = count_of m (es_id e)" using es(3) by (auto simp: count_of_def)
  moreover have "set (map es_id es) = {k. count_of m k \<noteq> 0}"
  proof (intro equalityI subsetI)
    fix k assume "k \<in> {k. count_of m k \<noteq> 0}"
    then obtain e where e: "smap_find m k = Some (Some e)" "count e \<noteq> 0"
      by (auto simp: count_of_def split: option.splits)
    moreover have "es_id e = k" using m(2) e(1) by (auto simp: errors_ok_def)
    ultimately show "k \<in> set (map es_id es)" using es(3) by (auto simp: isSet_def word_neq_0_conv)
  qed (use es(3) in \<open>auto simp: count_of_def isSet_def\<close>)
  ultimately show ?thesis using m(1,3) es(1,2) by auto
qed

lemma error_counts_refine_witness:
  "\<exists>m es. error_run ascii_lower [Set_error ''db'' ''down'', Set_error ''db'' [], Clear_error ''net'' 1] [] =
      (Inr (), m) \<and> getStates m = Inr es \<and> set (map es_id es) = {''db'', ''net''} \<and>
      count_of m ''db'' = 2 \<and> count_of m ''net'' = 4294967295"
proof -
  let ?ops = "[Set_error ''db'' ''down'', Set_error ''db'' [], Clear_error ''net'' 1]"
  have "list_all (\<lambda>oper. ascii_lower (op_id oper) = op_id oper) ?ops" by code_simp
  then have "\<forall>oper\<in>set ?ops. ascii_lower (op_id oper) = op_id oper" by (simp add: list_all_iff)
  from error_counts_refine [OF this] show ?thesis by (auto split: if_splits)
qed

text \<open>
  An identifier that is not in lower case is looked up in lower case and stored as it is.
  When its lower-case form is unknown, every \<open>set\<close> starts over: the count is one however often
  the error was set. When the lower-case form is known, \<open>set\<close> follows a null pointer and leaves
  it in the map, where \<open>getStates\<close> follows it again.
\<close>

theorem set_mixed_case:
  assumes "lower i \<noteq> i"
  shows "(smap_find m (lower i) = None \<longrightarrow>
      fst (el_set lower i d m) = Inr () \<and> count_of (snd (el_set lower i d m)) i = 1) \<and>
    (smap_find m (lower i) \<noteq> None \<and> smap_find m i = None \<longrightarrow>
      fst (el_set lower i d m) = Inl (NullPointer i) \<and>
      smap_find (snd (el_set lower i d m)) i = Some None)"
  using assms by (auto simp: el_set_def at_key_def smap_find_put count_of_def Let_def es_set_def new_error_def)

lemma set_mixed_case_witness:
  "count_of (snd (el_set ascii_lower ''DB'' [] (snd (el_set ascii_lower ''DB'' [] [])))) ''DB'' = 1 \<and>
   fst (el_set ascii_lower ''DB'' [] (snd (el_set ascii_lower ''db'' [] []))) = Inl (NullPointer ''DB'')"
proof -
  have l: "ascii_lower ''DB'' = ''db''" "ascii_lower ''db'' = ''db''" by code_simp+
  have f: "smap_find (snd (el_set ascii_lower ''DB'' [] [])) ''db'' = None"
    "smap_find (snd (el_set ascii_lower ''db'' [] [])) ''db'' \<noteq> None"
    "smap_find (snd (el_set ascii_lower ''db'' [] [])) ''DB'' = None" by code_simp+
  show ?thesis
    using set_mixed_case [of ascii_lower "''DB''" "snd (el_set ascii_lower ''DB'' [] [])" "[]"]
      set_mixed_case [of ascii_lower "''DB''" "snd (el_set ascii_lower ''db'' [] [])" "[]"] f l by simp
qed

end
