(* ===== verification/Log_Stream.thy ===== *)
theory Log_Stream
  imports Prelude
begin

text \<open>
  \<open>LogStream\<close> (kisscpp/logstream.hpp and .cpp). The static members are \<open>log_sys\<close>: the
  permanent settings, the pool of lines not yet written, the file. A \<open>LogStream\<close> object is
  \<open>log_stream\<close>: its own settings and its buffer. \<open>stamp\<close> is the local time in ISO form,
  \<open>openable\<close> says whether the log file can be opened during the call, \<open>lower\<close> is
  \<open>boost::algorithm::to_lower\<close>. Lines that reached a file are kept with its path in
  \<open>written\<close>. The mutex is held while lines are pooled and written.
\<close>

section \<open>Settings\<close>

datatype log_type = LT_DEBUG | LT_INFO | LT_ERROR
datatype log_severity = LS_LOW | LS_NORMAL | LS_HIGH

fun type_code :: "log_type \<Rightarrow> nat" where
  "type_code LT_DEBUG = 0"
| "type_code LT_INFO = 1"
| "type_code LT_ERROR = 2"

fun severity_code :: "log_severity \<Rightarrow> nat" where
  "severity_code LS_LOW = 0"
| "severity_code LS_NORMAL = 1"
| "severity_code LS_HIGH = 2"

lemma type_code_eq [simp]: "type_code a = type_code b \<longleftrightarrow> a = b"
  by (cases a; cases b) simp_all

lemma severity_code_eq [simp]: "severity_code a = severity_code b \<longleftrightarrow> a = b"
  by (cases a; cases b) simp_all

text \<open>The order of the enumerations.\<close>

instantiation log_type :: linorder
begin

definition less_eq_log_type :: "log_type \<Rightarrow> log_type \<Rightarrow> bool" where
  "a \<le> b \<longleftrightarrow> type_code a \<le> type_code b"

definition less_log_type :: "log_type \<Rightarrow> log_type \<Rightarrow> bool" where
  "a < b \<longleftrightarrow> type_code a < type_code b"

instance
  by standard (auto simp: less_eq_log_type_def less_log_type_def dest: le_antisym)

end

instantiation log_severity :: linorder
begin

definition less_eq_log_severity :: "log_severity \<Rightarrow> log_severity \<Rightarrow> bool" where
  "a \<le> b \<longleftrightarrow> severity_code a \<le> severity_code b"

definition less_log_severity :: "log_severity \<Rightarrow> log_severity \<Rightarrow> bool" where
  "a < b \<longleftrightarrow> severity_code a < severity_code b"

instance
  by standard (auto simp: less_eq_log_severity_def less_log_severity_def dest: le_antisym)

end

record settings =
  messageType :: log_type
  severity :: log_severity
  entityName :: string
  source_name :: string

definition initial_settings :: settings where
  "initial_settings =
     \<lparr>messageType = LT_INFO, severity = LS_NORMAL, entityName = [], source_name = []\<rparr>"

record log_sys =
  doFlush :: bool
  lssPerm :: settings
  log2consoleFlag :: bool
  outFilePath :: string
  outFile :: "string option"
  stringPool :: "string list"
  maxBufferSize :: u32
  written :: "(string \<times> string) list"
  console :: "string list"

text \<open>The format flags of the buffer: the base of integers and whether it is shown.\<close>

datatype num_base = Dec | Hex | Oct

record log_stream =
  lssTemp :: settings
  mBuf :: string
  num_base :: num_base
  showbase :: bool

text \<open>The state a call works on: the object and the static members.\<close>

type_synonym log_state = "log_stream \<times> log_sys"

definition initial_sys :: log_sys where
  "initial_sys =
     \<lparr>doFlush = False, lssPerm = initial_settings, log2consoleFlag = False, outFilePath = [],
      outFile = None, stringPool = [], maxBufferSize = 0, written = [], console = []\<rparr>"

section \<open>Setters\<close>

definition set_type :: "log_type \<Rightarrow> bool \<Rightarrow> log_state \<Rightarrow> log_state" where
  "set_type mt permanent s =
     ((fst s)\<lparr>lssTemp := (lssTemp (fst s))\<lparr>messageType := mt\<rparr>\<rparr>,
      if permanent then (snd s)\<lparr>lssPerm := (lssPerm (snd s))\<lparr>messageType := mt\<rparr>\<rparr> else snd s)"

definition set_severity :: "log_severity \<Rightarrow> bool \<Rightarrow> log_state \<Rightarrow> log_state" where
  "set_severity ms permanent s =
     ((fst s)\<lparr>lssTemp := (lssTemp (fst s))\<lparr>severity := ms\<rparr>\<rparr>,
      if permanent then (snd s)\<lparr>lssPerm := (lssPerm (snd s))\<lparr>severity := ms\<rparr>\<rparr> else snd s)"

definition set_entity :: "string \<Rightarrow> bool \<Rightarrow> log_state \<Rightarrow> log_state" where
  "set_entity en permanent s =
     ((fst s)\<lparr>lssTemp := (lssTemp (fst s))\<lparr>entityName := en\<rparr>\<rparr>,
      if permanent then (snd s)\<lparr>lssPerm := (lssPerm (snd s))\<lparr>entityName := en\<rparr>\<rparr> else snd s)"

definition set_source :: "string \<Rightarrow> bool \<Rightarrow> log_state \<Rightarrow> log_state" where
  "set_source src permanent s =
     ((fst s)\<lparr>lssTemp := (lssTemp (fst s))\<lparr>source_name := src\<rparr>\<rparr>,
      if permanent then (snd s)\<lparr>lssPerm := (lssPerm (snd s))\<lparr>source_name := src\<rparr>\<rparr> else snd s)"

definition set_type_name :: "(string \<Rightarrow> string) \<Rightarrow> string \<Rightarrow> bool \<Rightarrow> log_state \<Rightarrow> log_state" where
  "set_type_name lower mt permanent s =
     (if lower mt = ''debug'' then set_type LT_DEBUG permanent s
      else if lower mt = ''info'' then set_type LT_INFO permanent s
      else if lower mt = ''error'' then set_type LT_ERROR permanent s
      else set_type LT_INFO permanent s)"

definition set_severity_name :: "(string \<Rightarrow> string) \<Rightarrow> string \<Rightarrow> bool \<Rightarrow> log_state \<Rightarrow> log_state" where
  "set_severity_name lower ms permanent s =
     (if lower ms = ''high'' then set_severity LS_HIGH permanent s
      else if lower ms = ''normal'' then set_severity LS_NORMAL permanent s
      else set_severity LS_LOW permanent s)"

text \<open>The manipulators \<open>error_high\<close>, \<open>info_normal\<close> and so on: severity first, then type.\<close>

definition manip :: "log_type \<Rightarrow> log_severity \<Rightarrow> log_state \<Rightarrow> bool \<Rightarrow> log_state" where
  "manip mt ms s permanent = set_type mt permanent (set_severity ms permanent s)"

definition setLevel :: "(log_state \<Rightarrow> bool \<Rightarrow> log_state) \<Rightarrow> log_state \<Rightarrow> log_state" where
  "setLevel f s = f s True"

definition getSource :: "log_state \<Rightarrow> string" where
  "getSource s =
     (if source_name (lssTemp (fst s)) \<noteq> [] then source_name (lssTemp (fst s))
      else source_name (lssPerm (snd s)))"

section \<open>Writing\<close>

text \<open>
  \<open>openLogFile\<close>: \<open>None\<close> when it throws. \<open>std::ofstream::open\<close> does not throw when it fails; the
  stream just stays closed.
\<close>

definition openLogFile :: "bool \<Rightarrow> log_sys \<Rightarrow> log_sys option" where
  "openLogFile openable sys =
     (if length (outFilePath sys) \<le> 0 then None
      else Some (if openable then sys\<lparr>outFile := Some (outFilePath sys)\<rparr> else sys))"

definition write_pool :: "string \<Rightarrow> log_sys \<Rightarrow> log_sys" where
  "write_pool path sys =
     sys\<lparr>written := written sys @ map (Pair path) (stringPool sys),
         console := (if log2consoleFlag sys then console sys @ stringPool sys else console sys),
         stringPool := []\<rparr>"

definition pool_line :: "bool \<Rightarrow> string \<Rightarrow> log_sys \<Rightarrow> log_sys" where
  "pool_line openable line sys =
     (case (if outFile sys = None then openLogFile openable sys else Some sys) of
        None \<Rightarrow> sys\<lparr>stringPool := stringPool sys @ [line]\<rparr>
      | Some sys1 \<Rightarrow>
          (let sys2 = sys1\<lparr>stringPool := stringPool sys1 @ [line]\<rparr>
           in case outFile sys2 of
                None \<Rightarrow> sys2
              | Some path \<Rightarrow>
                  if length (stringPool sys2) > unat (maxBufferSize sys2) \<or> doFlush sys2
                  then write_pool path sys2 else sys2))"

definition locked_write :: "string \<Rightarrow> bool \<Rightarrow> string \<Rightarrow> log_state \<Rightarrow> log_state" where
  "locked_write stamp openable msg s =
     (fst s, pool_line openable (stamp @ '' ['' @ getSource s @ ''] '' @ msg) (snd s))"

definition trace_on :: "log_sys \<Rightarrow> bool" where
  "trace_on sys \<longleftrightarrow> messageType (lssPerm sys) \<le> LT_DEBUG \<and> severity (lssPerm sys) \<le> LS_LOW"

definition start_write :: "string \<Rightarrow> bool \<Rightarrow> log_state \<Rightarrow> log_state" where
  "start_write stamp openable s =
     (if trace_on (snd s) then locked_write stamp openable (''+ ['' @ getSource s @ '']'') s else s)"

definition end_write :: "string \<Rightarrow> bool \<Rightarrow> log_state \<Rightarrow> log_state" where
  "end_write stamp openable s =
     (if trace_on (snd s) then locked_write stamp openable (''- ['' @ getSource s @ '']'') s else s)"

definition write_line :: "string \<Rightarrow> bool \<Rightarrow> log_state \<Rightarrow> log_state" where
  "write_line stamp openable s =
     (if messageType (lssPerm (snd s)) < messageType (lssTemp (fst s))
      then locked_write stamp openable ('': '' @ mBuf (fst s)) s
      else if messageType (lssPerm (snd s)) = messageType (lssTemp (fst s)) \<and>
              severity (lssPerm (snd s)) \<le> severity (lssTemp (fst s))
      then locked_write stamp openable ('': '' @ mBuf (fst s)) s
      else s)"

definition do_write :: "string \<Rightarrow> bool \<Rightarrow> bool \<Rightarrow> log_state \<Rightarrow> log_state" where
  "do_write stamp openable b s =
     (let s1 = write_line stamp openable (fst s, (snd s)\<lparr>doFlush := b\<rparr>)
      in ((fst s1)\<lparr>mBuf := [],
            lssTemp := (lssTemp (fst s1))\<lparr>messageType := messageType (lssPerm (snd s1)),
                                          severity := severity (lssPerm (snd s1))\<rparr>\<rparr>, snd s1))"

definition log_flush :: "string \<Rightarrow> bool \<Rightarrow> log_state \<Rightarrow> log_state" where
  "log_flush stamp openable s = do_write stamp openable True s"

definition log_endl :: "string \<Rightarrow> bool \<Rightarrow> log_state \<Rightarrow> log_state" where
  "log_endl stamp openable s = do_write stamp openable False s"

definition log_put :: "string \<Rightarrow> log_state \<Rightarrow> log_state" where
  "log_put v s = ((fst s)\<lparr>mBuf := mBuf (fst s) @ v\<rparr>, snd s)"

text \<open>
  Inserting numbers. An integer is printed in the base the stream has been set to: in base ten with
  its sign, otherwise as the bits of its type, \<open>w\<close> of them. \<open>char\<close> and \<open>u_char\<close> are cast to \<open>short\<close>
  and \<open>u_short\<close>, so that they are printed as numbers too. What the stream makes of a floating
  point number is a parameter.
\<close>

fun radix :: "num_base \<Rightarrow> nat" where
  "radix Dec = 10" | "radix Hex = 16" | "radix Oct = 8"

fun digits_in :: "nat \<Rightarrow> nat \<Rightarrow> string" where
  "digits_in b n =
     (if b \<le> 1 \<or> n < b then [''0123456789abcdef'' ! n]
      else digits_in b (n div b) @ [''0123456789abcdef'' ! (n mod b)])"

fun base_prefix :: "num_base \<Rightarrow> string" where
  "base_prefix Dec = []" | "base_prefix Hex = ''0x''" | "base_prefix Oct = ''0''"

definition show_bits :: "num_base \<Rightarrow> bool \<Rightarrow> nat \<Rightarrow> string" where
  "show_bits b shown n = (if shown \<and> n \<noteq> 0 then base_prefix b else []) @ digits_in (radix b) n"

definition show_integer :: "nat \<Rightarrow> log_stream \<Rightarrow> int \<Rightarrow> string" where
  "show_integer w st v =
     (if num_base st = Dec then show_int v
      else show_bits (num_base st) (showbase st) (nat (v mod 2 ^ w)))"

definition log_put_integer :: "nat \<Rightarrow> int \<Rightarrow> log_state \<Rightarrow> log_state" where
  "log_put_integer w v s = log_put (show_integer w (fst s) v) s"

definition log_put_char :: "8 word \<Rightarrow> log_state \<Rightarrow> log_state" where
  "log_put_char v s = log_put_integer 16 (sint v) s"

definition log_put_u_char :: "8 word \<Rightarrow> log_state \<Rightarrow> log_state" where
  "log_put_u_char v s = log_put_integer 16 (uint v) s"

definition log_put_short :: "16 word \<Rightarrow> log_state \<Rightarrow> log_state" where
  "log_put_short v s = log_put_integer 16 (sint v) s"

definition log_put_int :: "32 word \<Rightarrow> log_state \<Rightarrow> log_state" where
  "log_put_int v s = log_put_integer 32 (sint v) s"

definition log_put_long :: "64 word \<Rightarrow> log_state \<Rightarrow> log_state" where
  "log_put_long v s = log_put_integer 64 (sint v) s"

definition log_put_unsigned :: "'w::len word \<Rightarrow> log_state \<Rightarrow> log_state" where
  "log_put_unsigned v s = log_put_integer LENGTH('w) (uint v) s"

definition log_put_real :: "('f \<Rightarrow> string) \<Rightarrow> 'f \<Rightarrow> log_state \<Rightarrow> log_state" where
  "log_put_real show_real v s = log_put (show_real v) s"

definition log_dec :: "log_state \<Rightarrow> log_state" where
  "log_dec s = ((fst s)\<lparr>num_base := Dec\<rparr>, snd s)"

definition log_hex :: "log_state \<Rightarrow> log_state" where
  "log_hex s = ((fst s)\<lparr>num_base := Hex\<rparr>, snd s)"

definition log_oct :: "log_state \<Rightarrow> log_state" where
  "log_oct s = ((fst s)\<lparr>num_base := Oct\<rparr>, snd s)"

definition log_base :: "log_state \<Rightarrow> log_state" where
  "log_base s = ((fst s)\<lparr>showbase := True\<rparr>, snd s)"

text \<open>The manipulators \<open>ent\<close> and \<open>src\<close>.\<close>

definition manip_ent :: "string \<Rightarrow> log_state \<Rightarrow> log_state" where
  "manip_ent ent_name s = set_entity ent_name False s"

definition manip_src :: "string \<Rightarrow> log_state \<Rightarrow> log_state" where
  "manip_src src s = set_source src False s"

definition set2ReOpen :: "log_sys \<Rightarrow> log_sys" where
  "set2ReOpen sys = sys\<lparr>outFile := None\<rparr>"

section \<open>Constructors and the destructor\<close>

definition blank_stream :: log_stream where
  "blank_stream = \<lparr>lssTemp = initial_settings, mBuf = [], num_base = Dec, showbase = False\<rparr>"

definition take_perm :: "log_state \<Rightarrow> log_state" where
  "take_perm s = ((fst s)\<lparr>lssTemp := lssPerm (snd s)\<rparr>, (snd s)\<lparr>doFlush := False\<rparr>)"

definition new_log_manip :: "(log_state \<Rightarrow> bool \<Rightarrow> log_state) \<Rightarrow> log_sys \<Rightarrow> log_state" where
  "new_log_manip f sys = take_perm (f (blank_stream, sys) False)"

definition new_log_manip_source ::
  "(log_state \<Rightarrow> bool \<Rightarrow> log_state) \<Rightarrow> string \<Rightarrow> log_sys \<Rightarrow> log_state" where
  "new_log_manip_source f src sys = set_source src False (f (take_perm (blank_stream, sys)) False)"

definition new_log_source :: "string \<Rightarrow> bool \<Rightarrow> string \<Rightarrow> log_sys \<Rightarrow> log_state" where
  "new_log_source stamp openable src sys =
     start_write stamp openable
       (set_source src False (manip LT_INFO LS_NORMAL (take_perm (blank_stream, sys)) False))"

definition new_log_file ::
  "string \<Rightarrow> bool \<Rightarrow> string \<Rightarrow> string \<Rightarrow> bool \<Rightarrow> u32 \<Rightarrow> log_sys \<Rightarrow> log_state" where
  "new_log_file stamp openable src path log2console i sys =
     (let s = set_source src False (manip LT_INFO LS_NORMAL (take_perm (blank_stream, sys)) True)
      in start_write stamp openable
           (fst s, (snd s)\<lparr>log2consoleFlag := log2console, outFilePath := path, maxBufferSize := i\<rparr>))"

text \<open>The copy constructor and the assignment: the buffer and the static members are not copied.\<close>

definition copy_log :: "string \<Rightarrow> bool \<Rightarrow> log_stream \<Rightarrow> log_sys \<Rightarrow> log_state" where
  "copy_log stamp openable other sys =
     start_write stamp openable (blank_stream\<lparr>lssTemp := lssTemp other\<rparr>, sys\<lparr>doFlush := False\<rparr>)"

definition assign_log :: "log_stream \<Rightarrow> log_state \<Rightarrow> log_state" where
  "assign_log other s = ((fst s)\<lparr>lssTemp := lssTemp other\<rparr>, snd s)"

definition destroy_log :: "string \<Rightarrow> bool \<Rightarrow> log_state \<Rightarrow> log_state" where
  "destroy_log stamp openable s =
     (let s1 = end_write stamp openable s
      in if mBuf (fst s1) \<noteq> [] then log_flush stamp openable s1 else s1)"

section \<open>No line is lost\<close>

text \<open>Every line handed to the log so far, in order: those in files, then those pooled.\<close>

definition all_lines :: "log_sys \<Rightarrow> string list" where
  "all_lines sys = map snd (written sys) @ stringPool sys"

lemma openLogFile_cases:
  "openLogFile openable sys = Some sys1 \<Longrightarrow>
   sys1 = sys \<and> \<not> openable \<or> sys1 = sys\<lparr>outFile := Some (outFilePath sys)\<rparr> \<and> openable"
  by (auto simp: openLogFile_def split: if_splits)

lemma write_pool_lines [simp]: "all_lines (write_pool path sys) = all_lines sys"
  by (simp add: all_lines_def write_pool_def comp_def)

lemma all_lines_simps [simp]:
  "all_lines (sys\<lparr>outFile := f\<rparr>) = all_lines sys"
  "all_lines (sys\<lparr>stringPool := stringPool sys @ [l]\<rparr>) = all_lines sys @ [l]"
  "all_lines (sys\<lparr>doFlush := b\<rparr>) = all_lines sys" "all_lines (sys\<lparr>lssPerm := p\<rparr>) = all_lines sys"
  by (simp_all add: all_lines_def)

lemma pool_line_lines: "all_lines (pool_line openable l sys) = all_lines sys @ [l]"
proof (cases "if outFile sys = None then openLogFile openable sys else Some sys")
  case None
  then show ?thesis by (simp add: pool_line_def)
next
  case (Some sys1)
  then have "all_lines sys1 = all_lines sys"
    using openLogFile_cases [of openable sys sys1] by (auto split: if_splits)
  with Some show ?thesis
    by (simp add: pool_line_def Let_def split: option.split)
qed

lemma write_line_lines:
  "all_lines (snd (write_line stamp openable s)) = all_lines (snd s) @
     (if messageType (lssPerm (snd s)) < messageType (lssTemp (fst s)) \<or>
         messageType (lssPerm (snd s)) = messageType (lssTemp (fst s)) \<and>
         severity (lssPerm (snd s)) \<le> severity (lssTemp (fst s))
      then [stamp @ '' ['' @ getSource s @ ''] : '' @ mBuf (fst s)] else [])"
  by (auto simp: write_line_def locked_write_def pool_line_lines)

lemma pool_line_frame [simp]:
  "lssPerm (pool_line openable l sys) = lssPerm sys"
  "maxBufferSize (pool_line openable l sys) = maxBufferSize sys"
  "outFilePath (pool_line openable l sys) = outFilePath sys"
  "doFlush (pool_line openable l sys) = doFlush sys"
  by (auto simp: pool_line_def openLogFile_def write_pool_def Let_def split: option.split)

lemma pool_line_bound:
  assumes "openable" "outFilePath sys \<noteq> []"
  shows "length (stringPool (pool_line openable l sys)) \<le> unat (maxBufferSize sys)"
    and "doFlush sys \<Longrightarrow> stringPool (pool_line openable l sys) = []"
    and "outFile (pool_line openable l sys) \<noteq> None"
  using assms by (auto simp: pool_line_def openLogFile_def write_pool_def Let_def not_less split: option.split)

lemma do_write_perm [simp]:
  "lssPerm (snd (do_write stamp openable b s)) = lssPerm (snd s)"
  by (auto simp: do_write_def write_line_def locked_write_def Let_def)

lemma do_write_fields [simp]:
  "mBuf (fst (do_write stamp openable b s)) = []"
  "messageType (lssTemp (fst (do_write stamp openable b s))) = messageType (lssPerm (snd s))"
  "severity (lssTemp (fst (do_write stamp openable b s))) = severity (lssPerm (snd s))"
  by (auto simp: do_write_def write_line_def locked_write_def Let_def)

section \<open>Numbers\<close>

text \<open>Reading the digits back gives the number, in each base.\<close>

definition hex_digit_value :: "char \<Rightarrow> nat" where
  "hex_digit_value c = (if CHR ''a'' \<le> c then of_char c - 87 else of_char c - 48)"

definition value_in :: "nat \<Rightarrow> string \<Rightarrow> nat" where
  "value_in b s = foldl (\<lambda>n c. n * b + hex_digit_value c) 0 s"

lemma hex_digit_value_nth: "n < 16 \<Longrightarrow> hex_digit_value (''0123456789abcdef'' ! n) = n"
proof -
  have "\<forall>n \<in> set [0..<16]. hex_digit_value (''0123456789abcdef'' ! n) = n" by code_simp
  then show "n < 16 \<Longrightarrow> hex_digit_value (''0123456789abcdef'' ! n) = n" by simp
qed

lemma digits_in_value:
  assumes "1 < b" "b \<le> 16"
  shows "value_in b (digits_in b n) = n"
  using assms
proof (induction b n rule: digits_in.induct)
  case (1 b n)
  show ?case
  proof (cases "n < b")
    case True
    with 1 show ?thesis by (simp add: value_in_def hex_digit_value_nth)
  next
    case False
    have "n mod b < 16" using 1(2,3) by (meson less_le_trans mod_less_divisor less_trans zero_less_one)
    moreover have "value_in b (digits_in b (n div b)) = n div b" using 1 False by simp
    ultimately show ?thesis
      using False 1(2) by (subst digits_in.simps) (simp add: value_in_def hex_digit_value_nth)
  qed
qed

lemma radix_value: "value_in (radix b) (digits_in (radix b) n) = n"
  by (cases b) (simp_all add: digits_in_value del: digits_in.simps)

lemma unsigned_reads_back:
  fixes v :: "'w::len word"
  assumes "num_base (fst s) \<noteq> Dec" "\<not> showbase (fst s)"
  obtains d where "mBuf (fst (log_put_unsigned v s)) = mBuf (fst s) @ d"
    "value_in (radix (num_base (fst s))) d = unat v"
proof
  have "uint v mod 2 ^ LENGTH('w) = uint v" by (simp add: uint_lt2p)
  then show "mBuf (fst (log_put_unsigned v s)) = mBuf (fst s) @ digits_in (radix (num_base (fst s))) (unat v)"
    using assms by (simp add: log_put_unsigned_def log_put_integer_def log_put_def show_integer_def show_bits_def
        nat_uint_eq del: digits_in.simps)
qed (rule radix_value)

text \<open>A character is inserted as its number.\<close>

lemma char_as_number:
  "num_base (fst s) = Dec \<Longrightarrow> log_put_char 65 s = log_put ''65'' s"
  by (simp add: log_put_char_def log_put_integer_def show_integer_def, code_simp)

section \<open>Properties\<close>

definition passes :: "log_state \<Rightarrow> bool" where
  "passes s \<longleftrightarrow> messageType (lssPerm (snd s)) < messageType (lssTemp (fst s)) \<or>
     messageType (lssPerm (snd s)) = messageType (lssTemp (fst s)) \<and>
     severity (lssPerm (snd s)) \<le> severity (lssTemp (fst s))"


definition demo_log :: log_state where
  "demo_log = log_put ''started'' (new_log_file ''T'' True ''main'' ''/tmp/a.log'' False 2 initial_sys)"


text \<open>
  A \<open>LogStream\<close> constructed from a manipulator alone ignores it: the permanent settings are
  copied over what the manipulator set. Constructed from a manipulator and a source it keeps the
  manipulator's level. Neither changes the permanent settings.
\<close>

theorem manipulator_constructor:
  "lssTemp (fst (new_log_manip (manip mt ms) sys)) = lssPerm sys \<and>
   messageType (lssTemp (fst (new_log_manip_source (manip mt ms) src sys))) = mt \<and>
   severity (lssTemp (fst (new_log_manip_source (manip mt ms) src sys))) = ms \<and>
   lssPerm (snd (new_log_manip (manip mt ms) sys)) = lssPerm sys \<and>
   lssPerm (snd (new_log_manip_source (manip mt ms) src sys)) = lssPerm sys"
  by (simp add: new_log_manip_def new_log_manip_source_def manip_def take_perm_def set_type_def
      set_severity_def set_source_def)

end
