(* ===== verification/Standard_Handlers.thy ===== *)
theory Standard_Handlers
  imports Request_Router Stats_Keeper Error_State Log_Stream
begin

text \<open>
  The handlers every server registers, and the error cleaner (kisscpp/standard_handlers.hpp and
  .cpp), each as the record its constructor and its \<open>run\<close> give. They work on \<open>world\<close>, the three
  singletons, together with the descriptions of the handlers in the router that
  \<open>HandlerReporter\<close> has a reference to and the value \<open>time(NULL)\<close> returns. \<open>henv\<close> holds what they use besides: the number conversions (that of the property
  tree and that of a \<open>stringstream\<close>, whose precisions differ), \<open>to_lower\<close>, the parsing of an unsigned number and the text of \<open>ptree_bad_data\<close>. The trace lines that the local
  \<open>LogStream\<close> objects write are not part of the model.
\<close>

section \<open>State and environment\<close>

record ('d, 'q) world =
  w_stats :: "('d, 'q) stats"
  w_errors :: error_map
  w_log :: log_sys
  w_handlers :: "(string, string) smap"
  w_time :: int

record ('d, 'q) henv =
  of_time :: "int \<Rightarrow> 'd"
  of_size :: "nat \<Rightarrow> 'd"
  qsize :: "'q \<Rightarrow> nat"
  show_number :: "'d \<Rightarrow> string"
  stream_number :: "'d \<Rightarrow> string"
  lower_case :: "string \<Rightarrow> string"
  parse_uint :: "string \<Rightarrow> u32 option"
  bad_data_what :: "string \<Rightarrow> string"

text \<open>The two catch clauses every \<open>run\<close> ends with.\<close>

definition catch_failures ::
  "'p pt_ops \<Rightarrow> (thrown, unit, 'p \<times> 'w) outcome \<Rightarrow> (thrown, unit, 'p \<times> 'w) outcome" where
  "catch_failures ops r =
     (case r of
        (Inl (Bad_path e), (response, w)) \<Rightarrow> (Inr (), (put_failure ops RQST_MISSING_PARAMETER e response, w))
      | (Inl (Std_exception e), (response, w)) \<Rightarrow> (Inr (), (put_failure ops RQST_UNKNOWN e response, w))
      | _ \<Rightarrow> r)"

text \<open>\<open>request.get<std::string>(p)\<close>\<close>

definition get_or_throw ::
  "'p pt_ops \<Rightarrow> 'p \<Rightarrow> string \<Rightarrow> 's \<Rightarrow> (thrown, string, 's) outcome" where
  "get_or_throw ops request p s =
     (case pt_get ops request p of
        None \<Rightarrow> (Inl (Bad_path (bad_path_what ops p)), s)
      | Some v \<Rightarrow> (Inr v, s))"

section \<open>Statistics\<close>

definition put_numbers :: "'p pt_ops \<Rightarrow> ('d \<Rightarrow> string) \<Rightarrow> (string, 'd) smap \<Rightarrow> 'p \<Rightarrow> 'p" where
  "put_numbers ops sh m r = fold (\<lambda>e. pt_put ops (fst e) (sh (snd e))) m r"

fun cacti_format :: "('d \<Rightarrow> string) \<Rightarrow> bool \<Rightarrow> (string, 'd) smap \<Rightarrow> string" where
  "cacti_format sh first [] = []"
| "cacti_format sh first ((k, v) # m) =
     (if first then [] else '' '') @ k @ '':'' @ sh v @ cacti_format sh False m"

definition put_stats ::
  "'p pt_ops \<Rightarrow> ('d, 'q) henv \<Rightarrow> (string, 'd) smap \<Rightarrow> 'p \<Rightarrow> 'p" where
  "put_stats ops h m r =
     pt_put ops ''cacti_format_stats'' (cacti_format (stream_number h) True m)
       (put_numbers ops (show_number h) m r)"

definition gathered ::
  "'p pt_ops \<Rightarrow> ('d, 'q) henv \<Rightarrow> 'p \<times> ('d, 'q) world \<Rightarrow> (thrown, unit, 'p \<times> ('d, 'q) world) outcome" where
  "gathered ops h s =
     (case getLastGatheredStats (w_stats (snd s)) of
        Inl e \<Rightarrow> (Inl Undefined, s)
      | Inr m \<Rightarrow> (Inr (), (put_stats ops h m (fst s), snd s)))"

definition full ::
  "'p pt_ops \<Rightarrow> ('d, 'q) henv \<Rightarrow> 'p \<times> ('d, 'q) world \<Rightarrow> (thrown, unit, 'p \<times> ('d, 'q) world) outcome" where
  "full ops h s =
     (case getFullStatsHistory (w_stats (snd s)) of
        Inl e \<Rightarrow> (Inl Undefined, s)
      | Inr m \<Rightarrow> (Inr (), (fold (\<lambda>e. fold (\<lambda>v. pt_put ops (fst e) (show_number h v)) (snd e)) m (fst s), snd s)))"

definition current_report ::
  "'p pt_ops \<Rightarrow> ('d, 'q) henv \<Rightarrow> 'p \<times> ('d, 'q) world \<Rightarrow> (thrown, unit, 'p \<times> ('d, 'q) world) outcome" where
  "current_report ops h s =
     (let (m, st) = getCurrentStats (of_time h) (of_size h) (qsize h) (w_time (snd s)) (w_stats (snd s))
      in (Inr (), (put_stats ops h m (fst s), (snd s)\<lparr>w_stats := st\<rparr>)))"

definition stats_run ::
  "'p pt_ops \<Rightarrow> ('d, 'q) henv \<Rightarrow> 'p \<Rightarrow> 'p \<times> ('d, 'q) world \<Rightarrow>
   (thrown, unit, 'p \<times> ('d, 'q) world) outcome" where
  "stats_run ops h request s =
     catch_failures ops
       (let stat_type = pt_get_or ops request ''type'' ''current'';
            s1 = (put_status ops RQST_SUCCESS (fst s), snd s)
        in if stat_type = ''full'' then full ops h s1
           else if stat_type = ''current'' then current_report ops h s1
           else gathered ops h s1)"

definition statsReporter ::
  "'p pt_ops \<Rightarrow> ('d, 'q) henv \<Rightarrow> ('p, ('d, 'q) world) request_handler" where
  "statsReporter ops h =
     \<lparr>commandId = ''kch-stats'', getDescription = ''retrieves the application statistics'',
      run = stats_run ops h\<rparr>"

section \<open>Errors\<close>

definition error_node :: "'p pt_ops \<Rightarrow> error_state \<Rightarrow> 'p" where
  "error_node ops e =
     pt_put ops ''count'' (show_nat (unat (count e)))
       (pt_put ops ''description'' (description e) (pt_put ops ''type'' (es_id e) (pt_new ops)))"

fun report_errors :: "'p pt_ops \<Rightarrow> error_state list \<Rightarrow> u32 \<Rightarrow> u32 \<Rightarrow> 'p \<Rightarrow> u32 \<times> u32 \<times> 'p" where
  "report_errors ops [] types overall r = (types, overall, r)"
| "report_errors ops (e # es) types overall r =
     report_errors ops es (types + 1) (overall + count e)
       (pt_add_child ops ''error-state.errors.error'' (error_node ops e) r)"

definition errors_run ::
  "'p pt_ops \<Rightarrow> 'p \<Rightarrow> 'p \<times> ('d, 'q) world \<Rightarrow> (thrown, unit, 'p \<times> ('d, 'q) world) outcome" where
  "errors_run ops request s =
     catch_failures ops
       (case getStates (w_errors (snd s)) of
          Inl e \<Rightarrow> (Inl Undefined, s)
        | Inr selm \<Rightarrow>
            (let (types, overall, r) = report_errors ops selm 0 0 (put_status ops RQST_SUCCESS (fst s))
             in (Inr (), (pt_put ops ''error-state.total-error-count'' (show_nat (unat overall))
                  (pt_put ops ''error-state.error-type-count'' (show_nat (unat types)) r), snd s))))"

definition errorReporter :: "'p pt_ops \<Rightarrow> ('p, ('d, 'q) world) request_handler" where
  "errorReporter ops =
     \<lparr>commandId = ''kch-errstat'', getDescription = ''retrieves the application error states'',
      run = errors_run ops\<rparr>"

definition clear_errors ::
  "'p pt_ops \<Rightarrow> ('d, 'q) henv \<Rightarrow> 'p \<Rightarrow> string \<Rightarrow> 'p \<times> ('d, 'q) world \<Rightarrow>
   (thrown, unit, 'p \<times> ('d, 'q) world) outcome" where
  "clear_errors ops h request i s =
     (let error_id = lower_case h i;
          number = lower_case h (pt_get_or ops request ''kcm-clear-error.count'' ''all'');
          apply = (\<lambda>res. (case fst res of Inl e \<Rightarrow> Inl Undefined | Inr u \<Rightarrow> Inr (),
             (case fst res of Inl e \<Rightarrow> fst s | Inr u \<Rightarrow> put_status ops RQST_SUCCESS (fst s),
              (snd s)\<lparr>w_errors := snd res\<rparr>)))
      in if number = ''all'' then apply (el_clear_all (lower_case h) error_id (w_errors (snd s)))
         else and_then (get_or_throw ops request ''kcm-clear-error.count'' s)
           (\<lambda>v s1. case parse_uint h v of
                None \<Rightarrow> (Inl (Std_exception (bad_data_what h ''kcm-clear-error.count'')), s1)
              | Some n \<Rightarrow> apply (el_clear (lower_case h) error_id n (w_errors (snd s1)))))"

definition cleaner_run ::
  "'p pt_ops \<Rightarrow> ('d, 'q) henv \<Rightarrow> 'p \<Rightarrow> 'p \<times> ('d, 'q) world \<Rightarrow>
   (thrown, unit, 'p \<times> ('d, 'q) world) outcome" where
  "cleaner_run ops h request s =
     catch_failures ops
       (and_then (get_or_throw ops request ''kcm-clear-error.id'' s)
          (\<lambda>i s1. clear_errors ops h request i s1))"

definition errorCleaner ::
  "'p pt_ops \<Rightarrow> ('d, 'q) henv \<Rightarrow> ('p, ('d, 'q) world) request_handler" where
  "errorCleaner ops h =
     \<lparr>commandId = ''kch-errclear'',
      getDescription = ''Used to marks an application error state as cleared.'',
      run = cleaner_run ops h\<rparr>"

section \<open>The list of handlers\<close>

definition handler_node :: "'p pt_ops \<Rightarrow> string \<times> string \<Rightarrow> 'p" where
  "handler_node ops e =
     pt_put ops ''description'' (snd e) (pt_put ops ''id'' (fst e) (pt_new ops))"

definition handlers_run ::
  "'p pt_ops \<Rightarrow> 'p \<Rightarrow> 'p \<times> ('d, 'q) world \<Rightarrow> (thrown, unit, 'p \<times> ('d, 'q) world) outcome" where
  "handlers_run ops request s =
     catch_failures ops
       (Inr (), (fold (\<lambda>e. pt_add_child ops ''handler'' (handler_node ops e))
          (w_handlers (snd s)) (put_status ops RQST_SUCCESS (fst s)), snd s))"

definition handlerReporter :: "'p pt_ops \<Rightarrow> ('p, ('d, 'q) world) request_handler" where
  "handlerReporter ops =
     \<lparr>commandId = ''kch-handlers'',
      getDescription = ''shows a list of the request handlers for this application'',
      run = handlers_run ops\<rparr>"

section \<open>The log level\<close>

definition level_run ::
  "'p pt_ops \<Rightarrow> ('d, 'q) henv \<Rightarrow> 'p \<Rightarrow> 'p \<times> ('d, 'q) world \<Rightarrow>
   (thrown, unit, 'p \<times> ('d, 'q) world) outcome" where
  "level_run ops h request s =
     catch_failures ops
       (and_then (get_or_throw ops request ''type'' s)
          (\<lambda>newLogType s1. and_then (get_or_throw ops request ''severity'' s1)
             (\<lambda>newLogSeverity s2.
                if newLogType = ''debug'' \<or> newLogType = ''info'' \<or> newLogType = ''error'' then
                  if newLogSeverity = ''low'' \<or> newLogSeverity = ''normal'' \<or> newLogSeverity = ''high'' then
                    (let log1 = set_type_name (lower_case h) newLogType True (blank_stream, w_log (snd s2));
                         log2 = set_severity_name (lower_case h) newLogSeverity True log1
                     in (Inr (),
                         (pt_put ops ''new-log-level.severity'' newLogSeverity
                            (pt_put ops ''new-log-level.type'' newLogType
                               (put_status ops RQST_SUCCESS (fst s2))),
                          (snd s2)\<lparr>w_log := snd log2\<rparr>)))
                  else (Inr (), (put_failure ops RQST_INVALID_PARAMETER ''invalid log severity'' (fst s2), snd s2))
                else (Inr (), (put_failure ops RQST_INVALID_PARAMETER ''invalid log type'' (fst s2), snd s2)))))"

definition logLevelAdjuster ::
  "'p pt_ops \<Rightarrow> ('d, 'q) henv \<Rightarrow> ('p, ('d, 'q) world) request_handler" where
  "logLevelAdjuster ops h =
     \<lparr>commandId = ''kch-loglevel'', getDescription = ''Adjust the log level to specified levels'',
      run = level_run ops h\<rparr>"

section \<open>Properties\<close>

text \<open>What the adjuster's two names mean; \<open>None\<close> for a name it rejects.\<close>

definition type_named :: "string \<Rightarrow> log_type option" where
  "type_named t =
     map_of [(''debug'', LT_DEBUG), (''info'', LT_INFO), (''error'', LT_ERROR)] t"

definition severity_named :: "string \<Rightarrow> log_severity option" where
  "severity_named t =
     map_of [(''low'', LS_LOW), (''normal'', LS_NORMAL), (''high'', LS_HIGH)] t"

definition level_names :: "string list" where
  "level_names = [''debug'', ''info'', ''error'', ''low'', ''normal'', ''high'']"

lemma level_names_apart [simp]:
  "apart ''new-log-level.severity'' ''kcm-sts''" "apart ''new-log-level.type'' ''kcm-sts''"
  "apart ''new-log-level.severity'' ''new-log-level.type''"
  by code_simp+

lemma set_names_perm:
  assumes "\<forall>s\<in>set level_names. lower s = s" "type_named t = Some lt" "severity_named sv = Some ls"
  shows "snd (set_severity_name lower sv True (set_type_name lower t True s)) =
    (snd s)\<lparr>lssPerm := (lssPerm (snd s))\<lparr>messageType := lt, severity := ls\<rparr>\<rparr>"
  using assms
  by (auto simp: level_names_def type_named_def severity_named_def set_type_name_def
      set_severity_name_def set_type_def set_severity_def split: if_splits)

lemma level_run_ok:
  assumes "pt_get ops request ''type'' = Some t" "pt_get ops request ''severity'' = Some sv"
    "type_named t = Some lt" "severity_named sv = Some ls"
    "\<forall>s\<in>set level_names. lower_case h s = s"
  shows "level_run ops h request (r, w) = (Inr (),
    (pt_put ops ''new-log-level.severity'' sv (pt_put ops ''new-log-level.type'' t
       (put_status ops RQST_SUCCESS r)),
     w\<lparr>w_log := (w_log w)\<lparr>lssPerm := (lssPerm (w_log w))\<lparr>messageType := lt, severity := ls\<rparr>\<rparr>\<rparr>))"
proof -
  have "t = ''debug'' \<or> t = ''info'' \<or> t = ''error''" "sv = ''low'' \<or> sv = ''normal'' \<or> sv = ''high''"
    using assms(3,4) by (auto simp: type_named_def severity_named_def split: if_splits)
  with assms(1,2) show ?thesis
    by (simp add: level_run_def get_or_throw_def catch_failures_def Let_def
        set_names_perm [OF assms(5,3,4)])
qed

text \<open>
  \<open>kch-loglevel\<close> answers every request and throws nothing. Without a type or a severity the
  status is that of a missing parameter, with a name it does not know that of an invalid one, and
  the log keeps its level; otherwise it reports success and the two names, the permanent level is
  what they say, and nothing else of the server changes.
\<close>

theorem log_level_request:
  assumes "property_tree ops" "\<forall>s\<in>set level_names. lower_case h s = s"
  shows "\<exists>r1 w1. run (logLevelAdjuster ops h) request (r, w) = (Inr (), (r1, w1)) \<and>
    (case (pt_get ops request ''type'', pt_get ops request ''severity'') of
       (Some t, Some sv) \<Rightarrow>
         (case (type_named t, severity_named sv) of
            (Some lt, Some ls) \<Rightarrow>
              pt_get ops r1 ''kcm-sts'' = Some (status_text RQST_SUCCESS) \<and>
              pt_get ops r1 ''new-log-level.type'' = Some t \<and>
              pt_get ops r1 ''new-log-level.severity'' = Some sv \<and>
              w1 = w\<lparr>w_log := (w_log w)\<lparr>lssPerm :=
                     (lssPerm (w_log w))\<lparr>messageType := lt, severity := ls\<rparr>\<rparr>\<rparr>
          | _ \<Rightarrow> pt_get ops r1 ''kcm-sts'' = Some (status_text RQST_INVALID_PARAMETER) \<and> w1 = w)
     | _ \<Rightarrow> pt_get ops r1 ''kcm-sts'' = Some (status_text RQST_MISSING_PARAMETER) \<and> w1 = w)"
proof -
  note gets = property_tree.put_failure_get [OF assms(1)] property_tree.put_status_get [OF assms(1)]
    property_tree.get_put [OF assms(1)] property_tree.get_put_other [OF assms(1)]
  consider "pt_get ops request ''type'' = None \<or> pt_get ops request ''severity'' = None"
    | t sv where "pt_get ops request ''type'' = Some t" "pt_get ops request ''severity'' = Some sv"
      "type_named t = None \<or> severity_named sv = None"
    | t sv lt ls where "pt_get ops request ''type'' = Some t" "pt_get ops request ''severity'' = Some sv"
      "type_named t = Some lt" "severity_named sv = Some ls"
    using option.exhaust by metis
  then show ?thesis
  proof cases
    case 1
    then show ?thesis
      by (cases "pt_get ops request ''type''"; cases "pt_get ops request ''severity''")
        (auto simp: logLevelAdjuster_def level_run_def get_or_throw_def catch_failures_def gets)
  next
    case (2 t sv)
    then have "level_run ops h request (r, w) = (Inr (), (put_failure ops RQST_INVALID_PARAMETER
        (if type_named t = None then ''invalid log type'' else ''invalid log severity'') r, w))"
      by (auto simp: level_run_def get_or_throw_def catch_failures_def type_named_def
          severity_named_def split: if_splits)
    with 2 show ?thesis
      by (cases "type_named t"; cases "severity_named sv") (auto simp: logLevelAdjuster_def gets)
  next
    case (3 t sv lt ls)
    with level_run_ok [OF 3 assms(2), of r w] show ?thesis
      by (simp add: logLevelAdjuster_def gets)
  qed
qed

definition demo_henv :: "(int, nat) henv" where
  "demo_henv =
     \<lparr>of_time = id, of_size = int, qsize = id, show_number = show_int, stream_number = show_int,
      lower_case = ascii_lower, parse_uint = (\<lambda>s. if s = ''2'' then Some 2 else None),
      bad_data_what = (\<lambda>p. ''conversion of data failed'')\<rparr>"

definition demo_request :: "string \<Rightarrow> (string \<times> string) list \<Rightarrow> ptree" where
  "demo_request command kvs =
     Ptree [] ((''kcm-cmd'', Ptree command []) # map (\<lambda>(k, v). (k, Ptree v [])) kvs)"

definition demo_world :: "(int, nat) world" where
  "demo_world =
     \<lparr>w_stats = new_keeper 0 300 12,
      w_errors = snd (error_run ascii_lower
        [Set_error ''db'' [], Set_error ''db'' [], Set_error ''db'' [], Set_error ''net'' []] []),
      w_log = initial_sys, w_handlers = [], w_time = 0\<rparr>"

lemma log_level_request_witness:
  "\<exists>r1 w1. run (logLevelAdjuster ptree_ops demo_henv)
       (demo_request ''kch-loglevel'' [(''type'', ''error''), (''severity'', ''low'')])
       (pt_new ptree_ops, demo_world) = (Inr (), (r1, w1)) \<and>
     pt_get ptree_ops r1 ''kcm-sts'' = Some (status_text RQST_SUCCESS) \<and>
     messageType (lssPerm (w_log w1)) = LT_ERROR \<and> w_errors w1 = w_errors demo_world"
proof -
  let ?q = "demo_request ''kch-loglevel'' [(''type'', ''error''), (''severity'', ''low'')]"
  have get: "pt_get ptree_ops ?q ''type'' = Some ''error''" "pt_get ptree_ops ?q ''severity'' = Some ''low''"
    "type_named ''error'' = Some LT_ERROR" "severity_named ''low'' = Some LS_LOW" by code_simp+
  have "list_all (\<lambda>s. ascii_lower s = s) level_names" by code_simp
  then have low: "\<forall>s\<in>set level_names. lower_case demo_henv s = s"
    by (simp add: list_all_iff demo_henv_def)
  from log_level_request [OF boost.property_tree_axioms low, of ?q "pt_new ptree_ops" demo_world] get
  show ?thesis by auto
qed

text \<open>
  \<open>kch-errclear\<close> answers every request and throws nothing. Without an identifier the status is
  that of a missing parameter and with an amount that is no number it is that of an unknown error,
  and no counter changes; otherwise it reports success and only the counter of the identifier in
  lower case changes: to zero when the amount is absent or is \<open>all\<close> in any case, and by
  the amount, modulo two to the thirty-two, when it is a number.
\<close>

theorem error_clear_request:
  assumes "property_tree ops" "case_folding (lower_case h)" "errors_ok (w_errors w)"
    "lower_case h ''all'' = ''all''"
  shows "\<exists>r1 m1. run (errorCleaner ops h) request (r, w) = (Inr (), (r1, w\<lparr>w_errors := m1\<rparr>)) \<and> errors_ok m1 \<and>
    (case pt_get ops request ''kcm-clear-error.id'' of
       None \<Rightarrow> pt_get ops r1 ''kcm-sts'' = Some (status_text RQST_MISSING_PARAMETER) \<and> m1 = w_errors w
     | Some i \<Rightarrow>
         (let n = pt_get_or ops request ''kcm-clear-error.count'' ''all'';
              clear = (\<lambda>v. pt_get ops r1 ''kcm-sts'' = Some (status_text RQST_SUCCESS) \<and>
                count_of m1 = (count_of (w_errors w))(lower_case h i := v))
          in if lower_case h n = ''all'' then clear 0
             else case parse_uint h n of
                None \<Rightarrow> pt_get ops r1 ''kcm-sts'' = Some (status_text RQST_UNKNOWN) \<and> m1 = w_errors w
              | Some k \<Rightarrow> clear (count_of (w_errors w) (lower_case h i) - k)))"
proof (cases "pt_get ops request ''kcm-clear-error.id''")
  case None
  then show ?thesis
    using assms(3) by (intro exI [of _ "w_errors w"] exI)
      (auto simp: errorCleaner_def cleaner_run_def get_or_throw_def catch_failures_def
        property_tree.put_failure_get [OF assms(1)])
next
  case (Some i)
  note gets = property_tree.put_failure_get [OF assms(1)] property_tree.put_status_get [OF assms(1)]
  let ?i = "lower_case h i" and ?n = "pt_get_or ops request ''kcm-clear-error.count'' ''all''"
  have low: "lower_case h ?i = ?i" using assms(2) by (simp add: case_folding_def)
  obtain e where e: "el_clear_all (lower_case h) ?i (w_errors w) = (Inr (), smap_put ?i (Some e) (w_errors w))"
    "count e = 0" "es_id e = ?i"
    by (rule lower_case_step [OF assms(3), of "lower_case h" "Clear_all_errors ?i"]) (simp_all add: low)
  have cl: "\<exists>f. el_clear (lower_case h) ?i k (w_errors w) = (Inr (), smap_put ?i (Some f) (w_errors w)) \<and>
      count f = count_of (w_errors w) ?i - k \<and> es_id f = ?i" for k
    by (rule lower_case_step [OF assms(3), of "lower_case h" "Clear_error ?i k"])
      (simp_all add: low, blast)
  have ok: "errors_ok (smap_put ?i (Some f) (w_errors w))" if "es_id f = ?i" for f
    by (rule errors_ok_put [OF assms(3) that])
  note defs = errorCleaner_def cleaner_run_def get_or_throw_def catch_failures_def clear_errors_def
  have v: "get_or_throw ops request ''kcm-clear-error.count'' s = (Inr ?n, s)"
    if "lower_case h ?n \<noteq> ''all''" for s :: "'a \<times> ('b, 'c) world"
    using that assms(4) by (auto simp: get_or_throw_def pt_get_or_def split: option.splits)
  consider "lower_case h ?n = ''all''" | "lower_case h ?n \<noteq> ''all''" "parse_uint h ?n = None"
    | k where "lower_case h ?n \<noteq> ''all''" "parse_uint h ?n = Some k" by (cases "parse_uint h ?n") auto
  then show ?thesis
  proof cases
    case 1
    then show ?thesis using Some e ok [OF e(3)]
      by (intro exI [of _ "smap_put ?i (Some e) (w_errors w)"] exI) (auto simp: defs gets Let_def)
  next
    case 2
    then show ?thesis using Some assms(3)
      by (intro exI [of _ "w_errors w"] exI) (auto simp: defs gets Let_def v [unfolded get_or_throw_def])
  next
    case (3 k)
    obtain f where f: "el_clear (lower_case h) ?i k (w_errors w) = (Inr (), smap_put ?i (Some f) (w_errors w))"
      "count f = count_of (w_errors w) ?i - k" "es_id f = ?i" using cl [of k] by blast
    with 3 show ?thesis using Some ok [OF f(3)]
      by (intro exI [of _ "smap_put ?i (Some f) (w_errors w)"] exI)
        (auto simp: defs gets Let_def v [unfolded get_or_throw_def])
  qed
qed

lemma error_clear_request_witness:
  "\<exists>r1 m1. run (errorCleaner ptree_ops demo_henv)
       (Ptree [] [(''kcm-clear-error'', Ptree [] [(''id'', Ptree ''DB'' []), (''count'', Ptree ''2'' [])])])
       (pt_new ptree_ops, demo_world) = (Inr (), (r1, demo_world\<lparr>w_errors := m1\<rparr>)) \<and>
     pt_get ptree_ops r1 ''kcm-sts'' = Some (status_text RQST_SUCCESS) \<and>
     count_of m1 ''db'' = 1 \<and> count_of m1 ''net'' = 1"
proof -
  let ?q = "Ptree [] [(''kcm-clear-error'', Ptree [] [(''id'', Ptree ''DB'' []), (''count'', Ptree ''2'' [])])]"
  let ?ops = "[Set_error ''db'' [], Set_error ''db'' [], Set_error ''db'' [], Set_error ''net'' []]"
  have "list_all (\<lambda>oper. ascii_lower (op_id oper) = op_id oper) ?ops" by code_simp
  then have low: "\<forall>oper\<in>set ?ops. ascii_lower (op_id oper) = op_id oper" by (simp add: list_all_iff)
  obtain m where m: "error_run ascii_lower ?ops [] = (Inr (), m)" "errors_ok m"
    by (rule error_run_counts [OF errors_ok_Nil low, of "\<lambda>_. 0"]) (auto simp: count_of_def)
  have ok: "errors_ok (w_errors demo_world)" using m by (simp add: demo_world_def)
  have lc: "case_folding (lower_case demo_henv)" "lower_case demo_henv ''all'' = ''all''"
    using ascii.case_folding_axioms by (simp add: demo_henv_def, code_simp)
  have get: "pt_get ptree_ops ?q ''kcm-clear-error.id'' = Some ''DB''"
    "pt_get_or ptree_ops ?q ''kcm-clear-error.count'' ''all'' = ''2''"
    "lower_case demo_henv ''DB'' = ''db''" "lower_case demo_henv ''2'' \<noteq> ''all''"
    "parse_uint demo_henv ''2'' = Some 2"
    "count_of (w_errors demo_world) ''db'' = 3" "count_of (w_errors demo_world) ''net'' = 1"
    by code_simp+
  obtain r1 m1 where r: "run (errorCleaner ptree_ops demo_henv) ?q (pt_new ptree_ops, demo_world) =
      (Inr (), (r1, demo_world\<lparr>w_errors := m1\<rparr>))"
    "pt_get ptree_ops r1 ''kcm-sts'' = Some (status_text RQST_SUCCESS)"
    "count_of m1 = (count_of (w_errors demo_world))(''db'' := 1)"
    using error_clear_request [OF boost.property_tree_axioms lc(1) ok lc(2), of ?q "pt_new ptree_ops"]
    by (auto simp: get Let_def)
  show ?thesis
    by (intro exI [of _ r1] exI [of _ m1]) (simp add: r get)
qed

end
