(* ===== verification/Io_Service_Pool.thy ===== *)
theory Io_Service_Pool
  imports Prelude
begin

text \<open>
  \<open>IoServicePool\<close> (kisscpp/io_service_pool.hpp and .cpp). An \<open>io_service\<close> is known by a number;
  what Boost does inside one is not part of the model, except that its \<open>run\<close> returns once it has
  been stopped, because it was given work to wait for. Reading the vector past its end is the
  error \<open>NoService\<close>.
\<close>

section \<open>State and operations\<close>

datatype pool_error = PoolSizeZero | NoService nat

record io_pool =
  io_services :: "nat list"
  work :: "nat list"
  next_io_service :: nat
  stopped :: "nat list"

definition empty_pool :: io_pool where
  "empty_pool = \<lparr>io_services = [], work = [], next_io_service = 0, stopped = []\<rparr>"

definition add_service :: "nat \<Rightarrow> io_pool \<Rightarrow> io_pool" where
  "add_service i p = p\<lparr>io_services := io_services p @ [i], work := work p @ [i]\<rparr>"

definition new_pool :: "nat \<Rightarrow> pool_error + io_pool" where
  "new_pool pool_size =
     (if pool_size = 0 then Inl PoolSizeZero
      else Inr (fold add_service [0..<pool_size] empty_pool))"

definition get_io_service :: "io_pool \<Rightarrow> (pool_error, nat, io_pool) outcome" where
  "get_io_service p =
     (if length (io_services p) \<le> next_io_service p then (Inl (NoService (next_io_service p)), p)
      else
        (let n = Suc (next_io_service p)
         in (Inr (io_services p ! next_io_service p),
             p\<lparr>next_io_service := (if n = length (io_services p) then 0 else n)\<rparr>)))"

definition stop_pool :: "io_pool \<Rightarrow> io_pool" where
  "stop_pool p = fold (\<lambda>s q. q\<lparr>stopped := stopped q @ [s]\<rparr>) (io_services p) p"

text \<open>
  \<open>run\<close>: a thread per service, then a \<open>join\<close> of each, which returns when the service has been
  stopped. The value says which joins block.
\<close>

definition run_pool :: "io_pool \<Rightarrow> nat list" where
  "run_pool p = filter (\<lambda>thread. thread \<notin> set (stopped p)) (io_services p)"

section \<open>Round robin\<close>

definition pool_ok :: "nat \<Rightarrow> io_pool \<Rightarrow> bool" where
  "pool_ok n p \<longleftrightarrow> io_services p = [0..<n] \<and> work p = [0..<n] \<and> next_io_service p < n"

lemma fold_add_service:
  "fold add_service xs p = p\<lparr>io_services := io_services p @ xs, work := work p @ xs\<rparr>"
  by (induction xs arbitrary: p) (simp_all add: add_service_def)

lemma new_pool_ok: "0 < n \<Longrightarrow> \<exists>p. new_pool n = Inr p \<and> pool_ok n p \<and> next_io_service p = 0 \<and> stopped p = []"
  by (simp add: new_pool_def fold_add_service pool_ok_def empty_pool_def)

lemma get_io_service_ok:
  assumes "pool_ok n p"
  shows "get_io_service p =
    (Inr (next_io_service p), p\<lparr>next_io_service := Suc (next_io_service p) mod n\<rparr>)"
    and "pool_ok n (p\<lparr>next_io_service := k mod n\<rparr>)"
  using assms by (auto simp: pool_ok_def get_io_service_def Let_def)

text \<open>\<open>k\<close> calls one after the other.\<close>

fun take_services :: "nat \<Rightarrow> io_pool \<Rightarrow> (pool_error, nat list, io_pool) outcome" where
  "take_services 0 p = (Inr [], p)"
| "take_services (Suc k) p =
     and_then (get_io_service p)
       (\<lambda>s p1. and_then (take_services k p1) (\<lambda>ss p2. (Inr (s # ss), p2)))"

lemma take_services_ok:
  "pool_ok n p \<Longrightarrow> take_services k p =
     (Inr (map (\<lambda>i. (next_io_service p + i) mod n) [0..<k]),
      p\<lparr>next_io_service := (next_io_service p + k) mod n\<rparr>)"
proof (induction k arbitrary: p)
  case 0
  then show ?case by (simp add: pool_ok_def)
next
  case (Suc k)
  let ?p = "p\<lparr>next_io_service := Suc (next_io_service p) mod n\<rparr>"
  have "(Suc (next_io_service p) mod n + i) mod n = (next_io_service p + Suc i) mod n" for i
    by (simp add: mod_simps)
  moreover have "next_io_service p mod n = next_io_service p" using Suc.prems by (simp add: pool_ok_def)
  ultimately show ?case
    using Suc.IH [OF get_io_service_ok(2) [OF Suc.prems]] get_io_service_ok(1) [OF Suc.prems]
    by (simp add: map_upt_Suc del: upt_Suc)
qed

text \<open>How often the service \<open>j\<close> is among the first \<open>k\<close> of a round.\<close>

lemma count_round:
  "j < n \<Longrightarrow> count_list (map (\<lambda>i. i mod n) [0..<k]) j = k div n + (if j < k mod n then 1 else 0)"
proof (induction k)
  case (Suc k)
  have "k mod n < n" using Suc.prems by simp
  with Suc show ?case by (auto simp: div_Suc mod_Suc)
qed simp

lemma stop_services:
  "stopped (fold (\<lambda>s q. q\<lparr>stopped := stopped q @ [s]\<rparr>) xs q) = stopped q @ xs"
  "io_services (fold (\<lambda>s q. q\<lparr>stopped := stopped q @ [s]\<rparr>) xs q) = io_services q"
  by (induction xs arbitrary: q) simp_all

lemma stop_pool_stops: "run_pool (stop_pool p) = []"
  by (simp add: run_pool_def stop_pool_def stop_services)

end
