(* ===== verification/Server.thy ===== *)
theory Server
  imports Connection Standard_Handlers Io_Service_Pool
begin

text \<open>
  \<open>Server\<close> (kisscpp/server.hpp and .cpp): the lock file, the start of the process, the standard
  handlers, the accept loop and the signals. \<open>process\<close> is what outlives a server object: the disk,
  the singletons of configuration, statistics, errors and log. \<open>sv_env\<close> holds what the operating
  system and Boost decide: the outcome of \<open>fork\<close> and its companions, the conversion of numbers,
  whether resolving, opening, binding and listening succeed, the time, the log's time stamp and
  whether the log file can be opened. The progress messages on \<open>std::cerr\<close> are left out.
\<close>

section \<open>State\<close>

datatype fork_result = Is_init | Fork_failed | Is_parent | Sid_failed | Chdir_failed | Is_child

record 'p sv_env =
  cfg_env :: "'p cfg_env"
  forks :: fork_result
  get_ulong :: "string \<Rightarrow> nat option"
  get_u32 :: "string \<Rightarrow> u32 option"
  listens :: "string \<Rightarrow> string \<Rightarrow> bool"
  clock :: int
  log_stamp :: string
  log_openable :: bool

record ('p, 'd, 'q) process =
  sv_disk :: disk
  sv_config :: "'p config option"
  sv_keeper :: bool
  sv_world :: "('d, 'q) world"

record ('p, 'w) server =
  io_service_pool :: io_pool
  accept_service :: nat
  new_conn :: "nat option"
  request_router :: "('p, 'w) router"
  lockFilePath :: string
  stop_armed :: bool
  log_reopen_armed :: bool

datatype sv_error =
    Sv_pool pool_error
  | Sv_no_lock
  | Sv_daemon string
  | Sv_config cfg_error
  | Sv_directories string
  | Sv_bad_path string
  | Sv_network

section \<open>The lock file\<close>

definition lock_path :: "(string \<Rightarrow> string option) \<Rightarrow> string \<Rightarrow> string \<Rightarrow> string" where
  "lock_path env appid inst =
     (case env ''KCPP_LOCK_DIR'' of None \<Rightarrow> ''/var/run'' | Some d \<Rightarrow> d) @ ''/'' @
     appid @ ''.'' @ inst @ ''.lock''"

definition checkLockFile :: "(string \<Rightarrow> string option) \<Rightarrow> string \<Rightarrow> string \<Rightarrow> disk \<Rightarrow> bool" where
  "checkLockFile env appid inst d \<longleftrightarrow> \<not> disk_exists d (lock_path env appid inst)"

text \<open>The second half of \<open>createLockFile\<close>: open, which truncates or creates, and write.\<close>

definition writeLockFile :: "int \<Rightarrow> string \<Rightarrow> disk \<Rightarrow> bool \<times> disk" where
  "writeLockFile now path d =
     (if disk_can_write d path then (True, disk_write path (show_int now @ [newline]) d) else (False, d))"

definition createLockFile ::
  "(string \<Rightarrow> string option) \<Rightarrow> int \<Rightarrow> string \<Rightarrow> string \<Rightarrow> disk \<Rightarrow> bool \<times> disk" where
  "createLockFile env now appid inst d =
     (if checkLockFile env appid inst d then writeLockFile now (lock_path env appid inst) d else (False, d))"

text \<open>\<open>None\<close> when \<open>boost::filesystem::remove\<close> throws.\<close>

definition removeLockFile :: "string \<Rightarrow> disk \<Rightarrow> disk option" where
  "removeLockFile path d =
     (if disk_exists d path then (if rm_ok d path then Some (disk_delete path d) else None) else Some d)"

section \<open>Steps of the constructor\<close>

text \<open>\<open>Inr True\<close> in the process that goes on, \<open>Inr False\<close> in the parent, which exits.\<close>

definition becomeDaemonProcess :: "fork_result \<Rightarrow> sv_error + bool" where
  "becomeDaemonProcess f =
     (case f of
        Is_init \<Rightarrow> Inr True
      | Fork_failed \<Rightarrow> Inl (Sv_daemon ''Could not fork child process to become a daemon.'')
      | Is_parent \<Rightarrow> Inr False
      | Sid_failed \<Rightarrow> Inl (Sv_daemon ''Could not obtain valid session id for this child process.'')
      | Chdir_failed \<Rightarrow> Inl (Sv_daemon ''Could not change working directory to save, guarenteed root path.'')
      | Is_child \<Rightarrow> Inr True)"

definition signalRegistrations :: "('p, 'w) server \<Rightarrow> ('p, 'w) server" where
  "signalRegistrations sv = sv\<lparr>stop_armed := True, log_reopen_armed := True\<rparr>"

definition get_number :: "'p pt_ops \<Rightarrow> 'p sv_env \<Rightarrow> 'p config \<Rightarrow> string \<Rightarrow> nat \<Rightarrow> nat" where
  "get_number ops U c p n = get_default ops (get_ulong U) c p n"

definition max_lines :: "'p pt_ops \<Rightarrow> 'p sv_env \<Rightarrow> 'p config \<Rightarrow> u32" where
  "max_lines ops U c = get_default ops (get_u32 U) c ''kcc-log-level.buff-size'' 5000"

definition log_root :: "'p sv_env \<Rightarrow> 'p config \<Rightarrow> string" where
  "log_root U c =
     (case env_var (cfg_env U) ''KCPP_LOG_ROOT'' of None \<Rightarrow> ''/tmp'' | Some r \<Rightarrow> r) @
     (case env_var (cfg_env U) ''KCPP_EXEC_ENV'' of None \<Rightarrow> [] | Some e \<Rightarrow> ''/'' @ e) @
     ''/'' @ application_id c"

definition initializeLogging ::
  "'p pt_ops \<Rightarrow> ('d, 'q) henv \<Rightarrow> 'p sv_env \<Rightarrow> bool \<Rightarrow> 'p config \<Rightarrow> ('p, 'd, 'q) process \<Rightarrow>
   (sv_error, unit, ('p, 'd, 'q) process) outcome" where
  "initializeLogging ops h U log2console c s =
     (let logFileName = application_id c @ ''.'' @ application_instance c @ ''.log'';
          logType = pt_get_or ops (cfg_data c) ''kcc-log-level.type'' ''info'';
          logSeverity = pt_get_or ops (cfg_data c) ''kcc-log-level.severity'' ''low'';
          maxLinesBuff = max_lines ops U c;
          logFilePath = log_root U c @ ''/'' @ logFileName
      in case make_dirs (cfg_env U) (log_root U c) (sv_disk s) of
           None \<Rightarrow> (Inl (Sv_directories (log_root U c)), s)
         | Some d \<Rightarrow>
             (let log = new_log_file (log_stamp U) (log_openable U)
                    ''void kisscpp::Server::initializeLogging(bool)'' logFilePath log2console
                    maxLinesBuff (w_log (sv_world s));
                  log1 = set_type_name (lower_case h) logType True log;
                  log2 = set_severity_name (lower_case h) logSeverity True log1
              in (Inr (), s\<lparr>sv_disk := d,
                     sv_world := (sv_world s)\<lparr>w_log := snd (destroy_log (log_stamp U) (log_openable U) log2)\<rparr>\<rparr>)))"

definition keeper_instance ::
  "int \<Rightarrow> nat \<Rightarrow> nat \<Rightarrow> ('p, 'd, 'q) process \<Rightarrow> ('p, 'd, 'q) process" where
  "keeper_instance now gp hl s =
     (if sv_keeper s then s
      else s\<lparr>sv_keeper := True, sv_world := (sv_world s)\<lparr>w_stats := new_keeper now gp hl\<rparr>\<rparr>)"

text \<open>Registering goes through the server; the router's descriptions follow.\<close>

definition sv_register ::
  "('p, ('d, 'q) world) request_handler \<Rightarrow> ('p, ('d, 'q) world) server \<times> ('p, 'd, 'q) process \<Rightarrow>
   ('p, ('d, 'q) world) server \<times> ('p, 'd, 'q) process" where
  "sv_register handler s =
     (let router = register_handler handler (request_router (fst s))
      in ((fst s)\<lparr>request_router := router\<rparr>,
          (snd s)\<lparr>sv_world := (sv_world (snd s))\<lparr>w_handlers := getHandlerDescriptions router\<rparr>\<rparr>))"

definition initialize_standard_handlers ::
  "'p pt_ops \<Rightarrow> ('d, 'q) henv \<Rightarrow> ('p, ('d, 'q) world) server \<times> ('p, 'd, 'q) process \<Rightarrow>
   ('p, ('d, 'q) world) server \<times> ('p, 'd, 'q) process" where
  "initialize_standard_handlers ops h s =
     sv_register (logLevelAdjuster ops h)
       (sv_register (handlerReporter ops)
         (sv_register (errorReporter ops) (sv_register (statsReporter ops h) s)))"

section \<open>Accepting\<close>

text \<open>A connection to come is known by the service it will use.\<close>

definition start_accept :: "('p, 'w) server \<Rightarrow> (sv_error, unit, ('p, 'w) server) outcome" where
  "start_accept sv =
     (let (r, p) = get_io_service (io_service_pool sv)
      in case r of
           Inl e \<Rightarrow> (Inl (Sv_pool e), sv\<lparr>io_service_pool := p\<rparr>)
         | Inr i \<Rightarrow> (Inr (), sv\<lparr>io_service_pool := p, new_conn := Some i\<rparr>))"

text \<open>
  \<open>handle_accept\<close>: the value is the service whose connection was started, if there was no error.
  \<open>Connection::start\<close> runs to its end before the next accept; it does not change the server.
\<close>

definition handle_accept ::
  "bool \<Rightarrow> ('p, 'w) server \<Rightarrow> (sv_error, nat option, ('p, 'w) server) outcome" where
  "handle_accept failed sv =
     (let served = (if failed then None else new_conn sv)
      in and_then (start_accept sv) (\<lambda>_ sv1. (Inr served, sv1)))"

definition handle_stop :: "('p, 'w) server \<Rightarrow> ('p, 'w) server" where
  "handle_stop sv = sv\<lparr>io_service_pool := stop_pool (io_service_pool sv)\<rparr>"

text \<open>
  \<open>stop\<close> and \<open>run\<close> name the address and the port in a log message, and throw when the configuration
  has none: \<open>stop\<close> after it has stopped the services, \<open>run\<close> before it starts them. The value of
  \<open>run\<close> lists the services whose threads it waits for.
\<close>

definition named_endpoint :: "'p pt_ops \<Rightarrow> 'p config \<Rightarrow> sv_error + unit" where
  "named_endpoint ops c =
     (case (pt_get ops (cfg_data c) ''kcc-server.address'', pt_get ops (cfg_data c) ''kcc-server.port'') of
        (Some address, Some port) \<Rightarrow> Inr ()
      | (None, _) \<Rightarrow> Inl (Sv_bad_path ''kcc-server.address'')
      | (_, None) \<Rightarrow> Inl (Sv_bad_path ''kcc-server.port''))"

definition server_stop ::
  "'p pt_ops \<Rightarrow> 'p config \<Rightarrow> ('p, 'w) server \<Rightarrow> (sv_error, unit, ('p, 'w) server) outcome" where
  "server_stop ops c sv = (named_endpoint ops c, handle_stop sv)"

definition server_run :: "'p pt_ops \<Rightarrow> 'p config \<Rightarrow> ('p, 'w) server \<Rightarrow> sv_error + nat list" where
  "server_run ops c sv =
     (case named_endpoint ops c of Inl e \<Rightarrow> Inl e | Inr u \<Rightarrow> Inr (run_pool (io_service_pool sv)))"

text \<open>A signal runs the handler that waits for it, which \<open>async_wait\<close> registered once.\<close>

definition stop_signal :: "('p, 'w) server \<Rightarrow> ('p, 'w) server" where
  "stop_signal sv = (if stop_armed sv then (handle_stop sv)\<lparr>stop_armed := False\<rparr> else sv)"

definition handle_log_reopen ::
  "('p, 'd, 'q) process \<Rightarrow> ('p, 'd, 'q) process" where
  "handle_log_reopen s =
     s\<lparr>sv_world := (sv_world s)\<lparr>w_log := set2ReOpen (w_log (sv_world s))\<rparr>\<rparr>"

definition hangup_signal ::
  "('p, 'w) server \<times> ('p, 'd, 'q) process \<Rightarrow> ('p, 'w) server \<times> ('p, 'd, 'q) process" where
  "hangup_signal s =
     (if log_reopen_armed (fst s)
      then ((fst s)\<lparr>log_reopen_armed := False\<rparr>, handle_log_reopen (snd s)) else s)"

section \<open>The constructor and the destructor\<close>

text \<open>The three members that take a service before the body runs.\<close>

definition members :: "nat \<Rightarrow> sv_error + ('p, 'w) server" where
  "members n =
     (case new_pool n of
        Inl e \<Rightarrow> Inl (Sv_pool e)
      | Inr p \<Rightarrow>
          (case take_services 3 p of
             (Inr ss, p1) \<Rightarrow>
               Inr \<lparr>io_service_pool = p1, accept_service = ss ! 2, new_conn = None, request_router = [],
                    lockFilePath = [], stop_armed = False, log_reopen_armed = False\<rparr>
           | (Inl e, p1) \<Rightarrow> Inl (Sv_pool e)))"

text \<open>From the registration of the signals to the first accept.\<close>

definition start_serving ::
  "'p pt_ops \<Rightarrow> ('d, 'q) henv \<Rightarrow> 'p sv_env \<Rightarrow> string \<Rightarrow> string \<Rightarrow> bool \<Rightarrow> string \<Rightarrow>
   ('p, ('d, 'q) world) server \<times> ('p, 'd, 'q) process \<Rightarrow>
   (sv_error, unit, ('p, ('d, 'q) world) server \<times> ('p, 'd, 'q) process) outcome" where
  "start_serving ops h U appid inst runAsDaemon root s =
     (let sv = signalRegistrations (fst s);
          (rc, (sing, d)) = config_instance (cfg_env U) ops appid inst root (sv_config (snd s), sv_disk (snd s));
          pr = (snd s)\<lparr>sv_config := sing, sv_disk := d\<rparr>
      in case rc of
           Inl e \<Rightarrow> (Inl (Sv_config e), (sv, pr))
         | Inr c \<Rightarrow>
             (let (rl, pr1) = initializeLogging ops h U (\<not> runAsDaemon) c pr
              in case rl of
                   Inl e \<Rightarrow> (Inl e, (sv, pr1))
                 | Inr u \<Rightarrow>
                     (let pr2 = keeper_instance (clock U) (get_number ops U c ''kcc-stats.gather-period'' 300)
                                  (get_number ops U c ''kcc-stats.history-length'' 12) pr1;
                          s3 = initialize_standard_handlers ops h (sv, pr2)
                      in case (pt_get ops (cfg_data c) ''kcc-server.address'', pt_get ops (cfg_data c) ''kcc-server.port'') of
                           (Some address, Some port) \<Rightarrow>
                             if listens U address port
                             then (let (ra, sv4) = start_accept (fst s3) in (ra, (sv4, snd s3)))
                             else (Inl Sv_network, s3)
                         | (None, _) \<Rightarrow> (Inl (Sv_bad_path ''kcc-server.address''), s3)
                         | (_, None) \<Rightarrow> (Inl (Sv_bad_path ''kcc-server.port''), s3))))"

text \<open>The value of the constructor: \<open>None\<close> in the parent process, which has exited.\<close>

definition new_server ::
  "'p pt_ops \<Rightarrow> ('d, 'q) henv \<Rightarrow> 'p sv_env \<Rightarrow> nat \<Rightarrow> string \<Rightarrow> string \<Rightarrow> bool \<Rightarrow> string \<Rightarrow>
   ('p, 'd, 'q) process \<Rightarrow>
   (sv_error, ('p, ('d, 'q) world) server option, ('p, 'd, 'q) process) outcome" where
  "new_server ops h U n appid inst runAsDaemon root pr =
     (case members n of
        Inl e \<Rightarrow> (Inl e, pr)
      | Inr sv \<Rightarrow>
          (let (locked, d) = createLockFile (env_var (cfg_env U)) (clock U) appid inst (sv_disk pr);
               pr1 = pr\<lparr>sv_disk := d\<rparr>;
               sv1 = sv\<lparr>lockFilePath := lock_path (env_var (cfg_env U)) appid inst\<rparr>
           in if \<not> locked then (Inl Sv_no_lock, pr1)
              else case (if runAsDaemon then becomeDaemonProcess (forks U) else Inr True) of
                     Inl e \<Rightarrow> (Inl e, pr1)
                   | Inr False \<Rightarrow> (Inr None, pr1)
                   | Inr True \<Rightarrow>
                       (let (r, (sv2, pr2)) = start_serving ops h U appid inst runAsDaemon root (sv1, pr1)
                        in case r of Inl e \<Rightarrow> (Inl e, pr2) | Inr u \<Rightarrow> (Inr (Some sv2), pr2))))"

text \<open>\<open>None\<close> when removing the lock file throws, out of the destructor.\<close>

definition destroy_server :: "('p, 'w) server \<Rightarrow> ('p, 'd, 'q) process \<Rightarrow> ('p, 'd, 'q) process option" where
  "destroy_server sv pr = map_option (\<lambda>d. pr\<lparr>sv_disk := d\<rparr>) (removeLockFile (lockFilePath sv) (sv_disk pr))"

end
