(* ===== verification/Echo_Server.thy ===== *)
theory Echo_Server
  imports Server
begin

text \<open>
  The example application (examples/kc_echo/src): its handler and its server, which is the library's
  server of one service with the handler registered after the constructor of the base class.
\<close>

definition echo_run :: "'p pt_ops \<Rightarrow> 'p \<Rightarrow> 'p \<times> 'w \<Rightarrow> (thrown, unit, 'p \<times> 'w) outcome" where
  "echo_run ops request s =
     catch_failures ops
       (and_then (get_or_throw ops request ''message'' (put_status ops RQST_SUCCESS (fst s), snd s))
          (\<lambda>message s1. (Inr (), (pt_put ops ''you-sent'' message (fst s1), snd s1))))"

definition echoHandler :: "'p pt_ops \<Rightarrow> ('p, 'w) request_handler" where
  "echoHandler ops =
     \<lparr>commandId = ''echo'', getDescription = ''Will echo back what you send in.'', run = echo_run ops\<rparr>"

definition registerHandlers ::
  "'p pt_ops \<Rightarrow> ('p, ('d, 'q) world) server \<times> ('p, 'd, 'q) process \<Rightarrow>
   ('p, ('d, 'q) world) server \<times> ('p, 'd, 'q) process" where
  "registerHandlers ops s = sv_register (echoHandler ops) s"

definition new_kc_echo ::
  "'p pt_ops \<Rightarrow> ('d, 'q) henv \<Rightarrow> 'p sv_env \<Rightarrow> ('p, 'd, 'q) process \<Rightarrow>
   (sv_error, ('p, ('d, 'q) world) server option, ('p, 'd, 'q) process) outcome" where
  "new_kc_echo ops h U pr =
     (case new_server ops h U 1 ''kc_echo'' ''0'' False [] pr of
        (Inr (Some sv), pr1) \<Rightarrow> (let (sv2, pr2) = registerHandlers ops (sv, pr1) in (Inr (Some sv2), pr2))
      | r \<Rightarrow> r)"

text \<open>What the handler answers.\<close>

lemma echo_answers:
  assumes "property_tree ops"
  shows "\<exists>r. run (echoHandler ops) request (r0, w) = (Inr (), (r, w)) \<and>
    (case pt_get ops request ''message'' of
       Some m \<Rightarrow> pt_get ops r ''kcm-sts'' = Some (status_text RQST_SUCCESS) \<and> pt_get ops r ''you-sent'' = Some m
     | None \<Rightarrow> pt_get ops r ''kcm-sts'' = Some (status_text RQST_MISSING_PARAMETER) \<and>
         pt_get ops r ''kcm-erm'' = Some (bad_path_what ops ''message''))"
proof -
  have "one_part ''you-sent''" by (simp add: one_part_def)
  then show ?thesis
    by (auto simp: echoHandler_def echo_run_def get_or_throw_def catch_failures_def
        property_tree.put_failure_get [OF assms] property_tree.put_status_get [OF assms]
        property_tree.get_put_cases [OF assms] split: option.split)
qed

end
