(* ===== verification/Exchange.thy ===== *)
theory Exchange
  imports Client Echo_Server
begin

text \<open>
  A client and a server talking to each other: the lemmas that carry an answer from the tree the
  server's handler filled in to the exception, or the value, the caller of the client sees. What the
  two sides rely on is that JSON written is JSON read back, and that the codes of the statuses are
  read as the numbers they are.
\<close>

definition json_laws :: "'p json_io \<Rightarrow> bool" where
  "json_laws J \<longleftrightarrow> (\<forall>r s. write_json J r = Some s \<longrightarrow>
     (\<exists>t. s = t @ [newline] \<and> newline \<notin> set t \<and> read_json J t = Some r))"

definition reads_statuses :: "'p cl_env \<Rightarrow> bool" where
  "reads_statuses N \<longleftrightarrow> (\<forall>st. get_uint N (status_text st) = Some (status_code st))"

text \<open>The answer to a call, as the server's response decides it.\<close>

definition verdict :: "'p pt_ops \<Rightarrow> 'p cl_env \<Rightarrow> 'p \<Rightarrow> cl_error + unit" where
  "verdict ops N r =
     (if comms_status ops N r = status_code RQST_SUCCESS then Inr ()
      else case pt_get ops r ''kcm-erm'' of
             None \<Rightarrow> Inl (Cl_bad_path ''kcm-erm'')
           | Some m \<Rightarrow>
               if retryable (comms_status ops N r) then Inl (RetryableCommsFailure m)
               else Inl (PerminantCommsFailure m))"

lemma json_line:
  assumes "json_laws J" "write_json J r = Some s"
  shows "read_json J (first_line s) = Some r"
proof -
  from assms obtain t where t: "s = t @ [newline]" "newline \<notin> set t" "read_json J t = Some r"
    unfolding json_laws_def by blast
  then have "first_line s = t" by (simp add: first_line_def takeWhile_tail takeWhile_notin)
  with t show ?thesis by simp
qed

lemma handle_read_verdict:
  "read_json (json N) (first_line reply) = Some r \<Longrightarrow>
   fst (handle_read ops N None reply c) = verdict ops N r \<and> cl_response (snd (handle_read ops N None reply c)) = r"
  by (auto simp: handle_read_def getline_first verdict_def retryable_def Let_def split: option.split)

lemma failure_verdict:
  assumes "property_tree ops" "reads_statuses N"
    and "st \<noteq> RQST_SUCCESS" "\<not> retryable (status_code st)"
  shows "verdict ops N (put_failure ops st m r) = Inl (PerminantCommsFailure m)"
proof -
  have "comms_status ops N (put_failure ops st m r) = status_code st"
    using assms(2) by (simp add: comms_status_def reads_statuses_def property_tree.put_failure_get [OF assms(1)])
  with assms(3,4) show ?thesis
    by (simp add: verdict_def property_tree.put_failure_get [OF assms(1)] del: status_code.simps)
qed

lemma sent_send: "sent c = None \<Longrightarrow> sent (send J p c) = Some s \<Longrightarrow> write_json J (raw_response c) = Some s"
  by (simp split: if_splits)

text \<open>The tree behind the text that a connection sends.\<close>

lemma reply_tree:
  assumes run: "start ops J cfg router p (new_connection ops, w) = (Inr (), (k, w'))" and "sent k = Some reply"
  obtains (refused) m where "admitted ops J cfg p = None" "w' = w"
      "write_json J (put_failure ops RQST_CLIENT_DENIED m (pt_new ops)) = Some reply"
  | (answered) t r where "admitted ops J cfg p = Some t"
      "route_request ops router t (pt_new ops, w) = (Inr (), (r, w'))" "write_json J r = Some reply"
  | (failed) t e r m where "admitted ops J cfg p = Some t"
      "route_request ops router t (pt_new ops, w) = (Inl e, (r, w'))"
      "write_json J (put_failure ops RQST_UNKNOWN m r) = Some reply"
proof (cases "admitted ops J cfg p")
  case None
  from start_refused [OF this, of router w] obtain c where
    "start ops J cfg router p (new_connection ops, w) = (Inr (), (c, w))"
    "sent c = None \<or> (\<exists>msg. sent c = write_json J (put_failure ops RQST_CLIENT_DENIED msg (pt_new ops)))"
    by blast
  with assms None refused show thesis by fastforce
next
  case (Some t)
  let ?c = "(new_connection ops)\<lparr>parsed_request := t\<rparr>"
  obtain res r w1 where route: "route_request ops router t (pt_new ops, w) = (res, (r, w1))" by (metis prod_cases3)
  have sends: "\<exists>c. serve ops cfg router (?c, w) = (Inr (), (c, w')) \<and> k = send J p c"
    using run unfolding start_admitted(1) [OF Some] by (auto simp: and_then_Inr_iff)
  show thesis
  proof (cases res)
    case (Inr u)
    have "serve ops cfg router (?c, w) = (Inr (), (?c\<lparr>raw_response := r\<rparr>, w1))"
      using route Inr by (simp add: serve_def start_admitted(2) [OF Some])
    with sends sent_send [of "?c\<lparr>raw_response := r\<rparr>" J p reply] assms(2) have "w' = w1" "write_json J r = Some reply"
      by auto
    with answered [OF Some] route Inr show thesis by simp
  next
    case (Inl e)
    have "e \<noteq> Bad_path x" for x
      using route route_no_bad_path [of ops router t "(pt_new ops, w)"] Inl by auto
    with sends have "w' = w1 \<and> (\<exists>m. k = send J p (answer ops RQST_UNKNOWN m (?c\<lparr>raw_response := r\<rparr>)))"
      using route Inl by (cases e) (auto simp: serve_def start_admitted(2) [OF Some])
    then obtain m where m: "w' = w1" "k = send J p (answer ops RQST_UNKNOWN m (?c\<lparr>raw_response := r\<rparr>))" by blast
    with sent_send [of "answer ops RQST_UNKNOWN m (?c\<lparr>raw_response := r\<rparr>)" J p reply] assms(2)
    have "write_json J (put_failure ops RQST_UNKNOWN m r) = Some reply" by simp
    with failed [OF Some] route Inl m show thesis by simp
  qed
qed

text \<open>The client names itself in the request.\<close>

lemma add_or_put_get:
  assumes "property_tree ops" "p \<noteq> []" "pt_get ops t p = None"
  shows "pt_get ops (ptreeAddOrPut ops t p v) p = Some v"
  using assms(2,3) by (simp add: ptreeAddOrPut_def property_tree.get_put [OF assms(1)] property_tree.get_add [OF assms(1)])

lemma add_or_put_other:
  assumes "property_tree ops" "apart p q"
  shows "pt_get ops (ptreeAddOrPut ops t p v) q = pt_get ops t q"
  using assms(2) by (simp add: ptreeAddOrPut_def property_tree.get_put_other [OF assms(1)] property_tree.get_add_other [OF assms(1)])

lemma client_names_itself:
  assumes ops: "property_tree ops" and "start_client ops N cfg request response = (Inr (), c)"
    and "pt_get ops request ''kcm-client.id'' = None" "pt_get ops request ''kcm-client.instance'' = None"
  shows "pt_get ops (cl_request c) ''kcm-client.id'' = Some (application_id cfg)"
    and "pt_get ops (cl_request c) ''kcm-client.instance'' = Some (application_instance cfg)"
    and "apart q ''kcm-client.id'' \<Longrightarrow> apart q ''kcm-client.instance'' \<Longrightarrow> pt_get ops (cl_request c) q = pt_get ops request q"
proof -
  have r: "cl_request c = ptreeAddOrPut ops (ptreeAddOrPut ops request ''kcm-client.id'' (application_id cfg))
      ''kcm-client.instance'' (application_instance cfg)"
    using assms(2) by (auto simp: start_client_def Let_def split: option.splits if_splits)
  have a: "apart ''kcm-client.id'' ''kcm-client.instance''" "apart ''kcm-client.instance'' ''kcm-client.id''"
    by code_simp+
  show "pt_get ops (cl_request c) ''kcm-client.id'' = Some (application_id cfg)"
    and "pt_get ops (cl_request c) ''kcm-client.instance'' = Some (application_instance cfg)"
    using assms(3,4) a by (simp_all add: r add_or_put_get [OF ops] add_or_put_other [OF ops])
  show "apart q ''kcm-client.id'' \<Longrightarrow> apart q ''kcm-client.instance'' \<Longrightarrow> pt_get ops (cl_request c) q = pt_get ops request q"
    by (simp add: r add_or_put_other [OF ops] apart_sym)
qed

text \<open>What the server sees of the request the client wrote.\<close>

lemma exchange_admitted:
  assumes ops: "property_tree ops" and json: "json_laws (json N)"
    and client: "start_client ops N ccfg request response = (Inr (), c0)"
      "pt_get ops request ''kcm-client.id'' = None" "pt_get ops request ''kcm-client.instance'' = None"
      "handle_connect N None c0 = (Inr (), c1)" "outgoing c1 = Some msg"
    and peer: "remote_ip p = Some ip" "arriving p = Some msg"
  shows "admitted ops (json N) scfg p =
    (if isAllowedIp scfg ip \<and> isAllowedClient scfg (application_id ccfg) (application_instance ccfg)
     then Some (cl_request c0) else None)"
proof -
  have "write_json (json N) (cl_request c0) = Some msg"
    using client(4,5) by (auto simp: handle_connect_def split: option.splits)
  then have "read_json (json N) (first_line msg) = Some (cl_request c0)" by (rule json_line [OF json])
  then show ?thesis using client_names_itself(1,2) [OF ops client(1-3)] by (simp add: admitted_def peer)
qed

end
