(* ===== verification/Server_Theorems.thy ===== *)
theory Server_Theorems
  imports Server
begin

text \<open>
  The properties of the server: the lock file as a mutual exclusion of processes, what a started
  server looks like, what a failed start leaves behind, and the accept loop.
\<close>

section \<open>One lock file, several processes\<close>

text \<open>
  The processes of one application instance, each starting, stopping by its destructor or ending
  without it. The state is the disk and the processes that hold the lock.
\<close>

datatype lock_op = Starts nat | Stops nat | Crashes nat

fun lock_run ::
  "(string \<Rightarrow> string option) \<Rightarrow> string \<Rightarrow> string \<Rightarrow> lock_op \<Rightarrow> disk \<times> nat list \<Rightarrow> disk \<times> nat list" where
  "lock_run env app inst (Starts p) (d, hs) =
     (let (ok, d1) = createLockFile env 0 app inst d in (d1, if ok then p # hs else hs))"
| "lock_run env app inst (Stops p) (d, hs) =
     (if p \<in> set hs then
        (case removeLockFile (lock_path env app inst) d of
           None \<Rightarrow> (d, removeAll p hs) | Some d1 \<Rightarrow> (d1, removeAll p hs))
      else (d, hs))"
| "lock_run env app inst (Crashes p) (d, hs) = (d, removeAll p hs)"

definition lock_inv :: "string \<Rightarrow> disk \<times> nat list \<Rightarrow> bool" where
  "lock_inv path s \<longleftrightarrow> length (snd s) \<le> 1 \<and> (snd s \<noteq> [] \<longrightarrow> disk_exists (fst s) path)"

lemma createLockFile_cases:
  "createLockFile env now app inst d = (b, d') \<Longrightarrow>
   (if b then \<not> disk_exists d (lock_path env app inst) \<and> disk_can_write d (lock_path env app inst) \<and>
      d' = disk_write (lock_path env app inst) (show_int now @ [newline]) d
    else d' = d)"
  by (auto simp: createLockFile_def checkLockFile_def writeLockFile_def split: if_splits)

lemma lock_inv_run: "lock_inv (lock_path env app inst) s \<Longrightarrow> lock_inv (lock_path env app inst) (lock_run env app inst oper s)"
proof (induction env app inst oper s rule: lock_run.induct)
  case (1 env app inst p d hs)
  obtain b d' where c: "createLockFile env 0 app inst d = (b, d')" by fastforce
  from createLockFile_cases [OF c] 1 c show ?case by (cases b) (auto simp: lock_inv_def)
next
  case (2 env app inst p d hs)
  then have "p \<in> set hs \<Longrightarrow> removeAll p hs = []" by (cases hs) (auto simp: lock_inv_def)
  with 2 show ?case by (auto simp: lock_inv_def split: option.split)
next
  case (3 env app inst p d hs)
  then show ?case by (cases hs) (auto simp: lock_inv_def)
qed

lemma lock_inv_runs:
  "lock_inv (lock_path env app inst) s \<Longrightarrow> lock_inv (lock_path env app inst) (fold (lock_run env app inst) ops s)"
proof (induction ops arbitrary: s)
  case (Cons oper ops)
  from Cons.IH [OF lock_inv_run [OF Cons.prems]] show ?case by simp
qed simp

text \<open>A file without a holder stays, and keeps everybody out.\<close>

lemma lock_left:
  "disk_exists d (lock_path env app inst) \<Longrightarrow> fold (lock_run env app inst) ops (d, []) = (d, [])"
proof (induction ops)
  case (Cons oper ops)
  have "lock_run env app inst oper (d, []) = (d, [])"
    using Cons.prems by (cases oper) (simp_all add: createLockFile_def checkLockFile_def)
  with Cons show ?case by simp
qed simp

text \<open>
  C18. The lock file excludes: when the processes of an instance start, stop and crash one after the
  other, at most one of them holds the lock at any time; and when the holder ends without its
  destructor, no process starts again until the file is removed by hand.
\<close>

theorem lock_excludes:
  "length (snd (fold (lock_run env app inst) ops (d, []))) \<le> 1 \<and>
   (\<forall>p \<in> set (snd (fold (lock_run env app inst) ops (d, []))).
      snd (fold (lock_run env app inst) (ops @ Crashes p # ops') (d, [])) = [])"
proof -
  obtain d1 hs where r: "fold (lock_run env app inst) ops (d, []) = (d1, hs)" by fastforce
  have i: "lock_inv (lock_path env app inst) (d1, hs)"
    using lock_inv_runs [of env app inst "(d, [])" ops] by (simp add: lock_inv_def r)
  have "fold (lock_run env app inst) (Crashes p # ops') (d1, hs) = (d1, [])" if "p \<in> set hs" for p
  proof -
    have "removeAll p hs = []" "disk_exists d1 (lock_path env app inst)"
      using i that by (cases hs; auto simp: lock_inv_def)+
    then show ?thesis by (simp add: lock_left)
  qed
  with i r show ?thesis by (simp add: lock_inv_def)
qed

lemma lock_excludes_witness:
  "length (snd (fold (lock_run (\<lambda>_. None) ''a'' ''1'')
     [Starts 1, Starts 2, Stops 1, Starts 2, Crashes 2, Starts 3] (cfg_disk ''flat'', []))) \<le> 1"
  using lock_excludes [of "\<lambda>_. None" "''a''" "''1''"] by blast

section \<open>Between the check and the creation\<close>

datatype lock_phase = Before | Checked | Holding | Refused

inductive lock_step ::
  "string \<Rightarrow> (nat \<Rightarrow> lock_phase) \<times> disk \<Rightarrow> (nat \<Rightarrow> lock_phase) \<times> disk \<Rightarrow> bool" for path where
  checks: "ph p = Before \<Longrightarrow>
    lock_step path (ph, d) (ph(p := if disk_exists d path then Refused else Checked), d)"
| writes: "ph p = Checked \<Longrightarrow>
    lock_step path (ph, d) (ph(p := if fst (writeLockFile now path d) then Holding else Refused), snd (writeLockFile now path d))"

lemma lock_holding_exists:
  assumes "(lock_step path)\<^sup>*\<^sup>* ((\<lambda>_. Before), d) (ph, d')"
  shows "(\<exists>q. ph q = Holding) \<longrightarrow> disk_exists d' path"
  using assms
proof (induction "(ph, d')" arbitrary: ph d' rule: rtranclp_induct)
  case (step y)
  from step(2,3) show ?case
    by (cases y) (auto elim!: lock_step.cases simp: writeLockFile_def split: if_splits)
qed simp



section \<open>Starting\<close>

text \<open>What is documented of \<open>create_directories\<close>: it removes nothing.\<close>

definition dirs_keep :: "'p cfg_env \<Rightarrow> bool" where
  "dirs_keep V \<longleftrightarrow> (\<forall>p d d1 q. make_dirs V p d = Some d1 \<longrightarrow> disk_exists d q \<longrightarrow> disk_exists d1 q)"

lemma default_dirs_keep:
  "dirs_keep V \<Longrightarrow> populateDefaultDirs V ops (c, d) = (r, (c', d')) \<Longrightarrow> disk_exists d q \<Longrightarrow> disk_exists d' q"
  unfolding populateDefaultDirs_def Let_def dirs_keep_def
  by (auto split: option.splits)

lemma config_keeps:
  assumes "dirs_keep V" "config_instance V ops app inst root (c, d) = (r, (c', d'))" "disk_exists d q"
  shows "disk_exists d' q"
  using assms default_dirs_keep [OF assms(1)]
  by (auto simp: config_instance_def new_config_def initiate_def loadConfig_def Let_def
      split: option.splits prod.splits sum.splits)

lemma logging_keeps:
  "dirs_keep (cfg_env U) \<Longrightarrow> initializeLogging ops h U b c pr = (r, pr') \<Longrightarrow> disk_exists (sv_disk pr) q \<Longrightarrow>
   disk_exists (sv_disk pr') q"
  unfolding initializeLogging_def Let_def dirs_keep_def by (auto split: option.splits)

lemma register_simps [simp]:
  "sv_disk (snd (sv_register handler s)) = sv_disk (snd s)"
  "lockFilePath (fst (sv_register handler s)) = lockFilePath (fst s)"
  "io_service_pool (fst (sv_register handler s)) = io_service_pool (fst s)"
  "request_router (fst (sv_register handler s)) = register_handler handler (request_router (fst s))"
  "w_handlers (sv_world (snd (sv_register handler s))) =
     getHandlerDescriptions (register_handler handler (request_router (fst s)))"
  by (simp_all add: sv_register_def Let_def)

lemma standard_handlers_frame [simp]:
  "sv_disk (snd (initialize_standard_handlers ops h s)) = sv_disk (snd s)"
  "lockFilePath (fst (initialize_standard_handlers ops h s)) = lockFilePath (fst s)"
  "io_service_pool (fst (initialize_standard_handlers ops h s)) = io_service_pool (fst s)"
  "w_handlers (sv_world (snd (initialize_standard_handlers ops h s))) =
     getHandlerDescriptions (request_router (fst (initialize_standard_handlers ops h s)))"
  by (simp_all add: initialize_standard_handlers_def)

lemma keeper_disk [simp]: "sv_disk (keeper_instance now gp hl pr) = sv_disk pr"
  by (simp add: keeper_instance_def)

lemma start_accept_frame [simp]:
  "request_router (snd (start_accept sv)) = request_router sv"
  "lockFilePath (snd (start_accept sv)) = lockFilePath sv"
  by (auto simp: start_accept_def Let_def split: prod.split sum.split)

definition standard_commands :: "string list" where
  "standard_commands = [''kch-errstat'', ''kch-handlers'', ''kch-loglevel'', ''kch-stats'']"

lemma standard_router:
  "request_router (fst s) = [] \<Longrightarrow>
   map fst (request_router (fst (initialize_standard_handlers ops h s))) = standard_commands"
  by (simp add: initialize_standard_handlers_def register_handler_def statsReporter_def
      errorReporter_def handlerReporter_def logLevelAdjuster_def standard_commands_def less_char_def)

text \<open>What a start leaves, whether or not it throws, and what it has set up when it does not.\<close>

lemma start_serving_effect:
  assumes keep: "dirs_keep (cfg_env U)"
    and run: "start_serving ops h U app inst b root (sv, pr) = (r, (sv', pr'))"
    and "request_router sv = []"
  shows "(\<forall>q. disk_exists (sv_disk pr) q \<longrightarrow> disk_exists (sv_disk pr') q) \<and>
    (r = Inr () \<longrightarrow> lockFilePath sv' = lockFilePath sv \<and> map fst (request_router sv') = standard_commands \<and>
       w_handlers (sv_world pr') = getHandlerDescriptions (request_router sv') \<and>
       (\<exists>sv1. start_accept sv1 = (Inr (), sv') \<and> io_service_pool sv1 = io_service_pool sv))"
proof -
  let ?sv = "signalRegistrations sv"
  have sig: "lockFilePath ?sv = lockFilePath sv" "io_service_pool ?sv = io_service_pool sv" "request_router ?sv = []"
    using assms(3) by (simp_all add: signalRegistrations_def)
  obtain rc sing d where c: "config_instance (cfg_env U) ops app inst root (sv_config pr, sv_disk pr) = (rc, (sing, d))"
    by (metis prod_cases3)
  let ?pr = "pr\<lparr>sv_config := sing, sv_disk := d\<rparr>"
  have k1: "disk_exists (sv_disk pr) q \<Longrightarrow> disk_exists d q" for q by (rule config_keeps [OF keep c])
  show ?thesis
  proof (cases rc)
    case (Inl e)
    with run c k1 show ?thesis by (auto simp: start_serving_def Let_def)
  next
    case (Inr cfg)
    obtain rl pr1 where l: "initializeLogging ops h U (\<not> b) cfg ?pr = (rl, pr1)" by fastforce
    have k2: "disk_exists (sv_disk pr) q \<Longrightarrow> disk_exists (sv_disk pr1) q" for q
      using logging_keeps [OF keep l] k1 by simp
    show ?thesis
    proof (cases rl)
      case Inl
      with run c l Inr k2 show ?thesis by (auto simp: start_serving_def Let_def)
    next
      case rl: (Inr u)
      let ?s3 = "initialize_standard_handlers ops h (?sv, keeper_instance (clock U)
          (get_number ops U cfg ''kcc-stats.gather-period'' 300)
          (get_number ops U cfg ''kcc-stats.history-length'' 12) pr1)"
      have "(r, (sv', pr')) = (case (pt_get ops (cfg_data cfg) ''kcc-server.address'', pt_get ops (cfg_data cfg) ''kcc-server.port'') of
          (Some address, Some port) \<Rightarrow> if listens U address port
            then (let (ra, sv4) = start_accept (fst ?s3) in (ra, (sv4, snd ?s3))) else (Inl Sv_network, ?s3)
        | (None, _) \<Rightarrow> (Inl (Sv_bad_path ''kcc-server.address''), ?s3)
        | (_, None) \<Rightarrow> (Inl (Sv_bad_path ''kcc-server.port''), ?s3))"
        using run c l Inr rl by (simp add: start_serving_def Let_def)
      then have "pr' = snd ?s3" "r = Inr () \<longrightarrow> start_accept (fst ?s3) = (Inr (), sv')"
        by (auto simp: prod_eq_iff split: option.splits if_splits prod.splits)
      moreover have "map fst (request_router (fst ?s3)) = standard_commands"
        by (rule standard_router) (simp add: sig)
      ultimately show ?thesis
        using k2 sig start_accept_frame [of "fst ?s3"]
        by (auto simp del: start_accept_frame intro!: exI [of _ "fst ?s3"])
    qed
  qed
qed

lemma members_ok:
  assumes "members n = Inr sv"
  shows "pool_ok n (io_service_pool sv) \<and> next_io_service (io_service_pool sv) = 3 mod n \<and>
    request_router sv = [] \<and> 0 < n"
proof (cases "n = 0")
  case True
  with assms show ?thesis by (simp add: members_def new_pool_def)
next
  case False
  then obtain p where p: "new_pool n = Inr p" "pool_ok n p" "next_io_service p = 0"
    using new_pool_ok [of n] by auto
  with assms False show ?thesis
    using take_services_ok [OF p(2), of 3] get_io_service_ok(2) [OF p(2), of 3]
    by (auto simp: members_def)
qed

lemma members_fail: "members n = Inl e \<longleftrightarrow> n = 0 \<and> e = Sv_pool PoolSizeZero"
proof (cases "n = 0")
  case True
  then show ?thesis by (auto simp: members_def new_pool_def)
next
  case False
  then obtain p where p: "new_pool n = Inr p" "pool_ok n p"
    using new_pool_ok [of n] by auto
  then show ?thesis using take_services_ok [OF p(2), of 3] False by (simp add: members_def)
qed

lemma start_accept_ok:
  assumes "pool_ok n (io_service_pool sv)"
  shows "start_accept sv = (Inr (), sv\<lparr>
    io_service_pool := (io_service_pool sv)\<lparr>next_io_service := Suc (next_io_service (io_service_pool sv)) mod n\<rparr>,
    new_conn := Some (next_io_service (io_service_pool sv))\<rparr>)"
  using get_io_service_ok(1) [OF assms] by (simp add: start_accept_def)

lemma start_serving_error: "fst (start_serving ops h U app inst b root s) \<noteq> Inl Sv_no_lock"
  by (auto simp: start_serving_def start_accept_def initializeLogging_def Let_def
      split: prod.splits sum.splits option.splits if_splits)

text \<open>How a constructor can end.\<close>

lemma new_server_cases:
  fixes ops :: "'p pt_ops" and h :: "('d, 'q) henv"
  assumes "new_server ops h U n app inst daemon root pr = (r, pr')"
  obtains (pool) "n = 0" "r = Inl (Sv_pool PoolSizeZero)" "pr' = pr"
  | (unlocked) "0 < n" "r = Inl Sv_no_lock" "pr' = pr"
  | (forked) d where "0 < n" "createLockFile (env_var (cfg_env U)) (clock U) app inst (sv_disk pr) = (True, d)"
      "pr' = pr\<lparr>sv_disk := d\<rparr>" "r = Inr None \<or> (\<exists>m. r = Inl (Sv_daemon m))"
  | (serving) sv0 d r1 sv where "members n = Inr sv0"
      "createLockFile (env_var (cfg_env U)) (clock U) app inst (sv_disk pr) = (True, d)"
      "start_serving ops h U app inst daemon root
         (sv0\<lparr>lockFilePath := lock_path (env_var (cfg_env U)) app inst\<rparr>, pr\<lparr>sv_disk := d\<rparr>) = (r1, (sv, pr'))"
      "r = (case r1 of Inl e \<Rightarrow> Inl e | Inr u \<Rightarrow> Inr (Some sv))"
proof -
  obtain b d where l: "createLockFile (env_var (cfg_env U)) (clock U) app inst (sv_disk pr) = (b, d)" by fastforce
  have un: "pr\<lparr>sv_disk := d\<rparr> = pr" if "\<not> b" using createLockFile_cases [OF l] that by simp
  consider e where "members n = (Inl e :: sv_error + ('p, ('d, 'q) world) server)"
    | sv0 where "members n = (Inr sv0 :: sv_error + ('p, ('d, 'q) world) server)"
    by (cases "members n :: sv_error + ('p, ('d, 'q) world) server") auto
  then show thesis
  proof cases
    case (1 e)
    with assms members_fail [THEN iffD1, OF 1] pool show thesis by (simp add: new_server_def)
  next
    case (2 sv0)
    have n: "0 < n" using members_ok [OF 2] by simp
    show thesis
    proof (cases b)
      case False
      with assms 2 l un n unlocked show thesis by (simp add: new_server_def Let_def)
    next
      case True
      with l have lt: "createLockFile (env_var (cfg_env U)) (clock U) app inst (sv_disk pr) = (True, d)" by simp
      obtain r1 sv pr1 where s: "start_serving ops h U app inst daemon root
         (sv0\<lparr>lockFilePath := lock_path (env_var (cfg_env U)) app inst\<rparr>, pr\<lparr>sv_disk := d\<rparr>) = (r1, (sv, pr1))"
        by (metis prod_cases3)
      consider "(if daemon then becomeDaemonProcess (forks U) else Inr True) = Inr True"
        | "(if daemon then becomeDaemonProcess (forks U) else Inr True) = Inr False"
        | m where "(if daemon then becomeDaemonProcess (forks U) else Inr True) = Inl (Sv_daemon m)"
        by (cases daemon; cases "forks U") (simp_all add: becomeDaemonProcess_def)
      then show thesis
      proof cases
        case 1
        then have "r = (case r1 of Inl e \<Rightarrow> Inl e | Inr u \<Rightarrow> Inr (Some sv)) \<and> pr' = pr1"
          using assms 2 l True s by (auto simp: new_server_def split: sum.splits)
        with serving [OF \<open>members n = Inr sv0\<close> lt] s show thesis by auto
      next
        case 2: 2
        show thesis
          by (rule forked [OF n]) (use 2 assms \<open>members n = Inr sv0\<close> l True in \<open>auto simp: new_server_def\<close>)
      next
        case (3 m)
        show thesis
          by (rule forked [OF n]) (use 3 assms \<open>members n = Inr sv0\<close> l True in \<open>auto simp: new_server_def\<close>)
      qed
    qed
  qed
qed

definition demo_sv_env :: "bool \<Rightarrow> ptree sv_env" where
  "demo_sv_env net =
     \<lparr>cfg_env = demo_cfg_env, forks = Is_child, get_ulong = (\<lambda>_. None), get_u32 = (\<lambda>_. None), listens = (\<lambda>_ _. net),
      clock = 1000, log_stamp = ''t'', log_openable = True\<rparr>"

definition demo_process :: "(ptree, int, nat) process" where
  "demo_process =
     \<lparr>sv_disk = cfg_disk ''flat'', sv_config = None, sv_keeper = False, sv_world = demo_world\<rparr>"

lemma demo_dirs_keep: "dirs_keep (cfg_env (demo_sv_env net))"
  by (simp add: dirs_keep_def demo_sv_env_def demo_cfg_env_def)

text \<open>
  C19. A server that started: the lock file is there and was not there before, exactly the four
  standard handlers are registered (the error cleaner is not, although the documentation lists it)
  and \<open>kch-handlers\<close> will report them, and one accept is pending, on the fourth service of the round.
\<close>

theorem server_started:
  assumes "dirs_keep (cfg_env U)"
    and "new_server ops h U n app inst daemon root pr = (Inr (Some sv), pr')"
  shows "lockFilePath sv = lock_path (env_var (cfg_env U)) app inst \<and>
    disk_exists (sv_disk pr') (lockFilePath sv) \<and> \<not> disk_exists (sv_disk pr) (lockFilePath sv) \<and>
    map fst (request_router sv) = standard_commands \<and> ''kch-errclear'' \<notin> set standard_commands \<and>
    w_handlers (sv_world pr') = getHandlerDescriptions (request_router sv) \<and>
    pool_ok n (io_service_pool sv) \<and> new_conn sv = Some (3 mod n) \<and>
    next_io_service (io_service_pool sv) = 4 mod n"
proof -
  let ?path = "lock_path (env_var (cfg_env U)) app inst"
  obtain sv0 d where m: "members n = Inr sv0"
    and l: "createLockFile (env_var (cfg_env U)) (clock U) app inst (sv_disk pr) = (True, d)"
    and s: "start_serving ops h U app inst daemon root (sv0\<lparr>lockFilePath := ?path\<rparr>, pr\<lparr>sv_disk := d\<rparr>) =
      (Inr (), (sv, pr'))"
    by (rule new_server_cases [OF assms(2)]) (auto split: sum.splits)
  have d: "\<not> disk_exists (sv_disk pr) ?path" "disk_exists d ?path" using createLockFile_cases [OF l] by simp_all
  from start_serving_effect [OF assms(1) s] members_ok [OF m] d
  have e: "disk_exists (sv_disk pr') ?path" "lockFilePath sv = ?path" "map fst (request_router sv) = standard_commands"
    "w_handlers (sv_world pr') = getHandlerDescriptions (request_router sv)"
    "\<exists>sv1. start_accept sv1 = (Inr (), sv) \<and> io_service_pool sv1 = io_service_pool sv0" by simp_all
  then obtain sv1 where a: "start_accept sv1 = (Inr (), sv)" "io_service_pool sv1 = io_service_pool sv0" by blast
  have "pool_ok n (io_service_pool sv1)" using members_ok [OF m] a(2) by simp
  from start_accept_ok [OF this] a members_ok [OF m] get_io_service_ok(2) [OF this, of 4]
  have "pool_ok n (io_service_pool sv) \<and> new_conn sv = Some (3 mod n) \<and> next_io_service (io_service_pool sv) = 4 mod n"
    by (auto simp: mod_Suc_eq)
  with e d show ?thesis by (simp add: standard_commands_def)
qed

lemma server_started_witness:
  "\<exists>sv pr'. new_server ptree_ops demo_henv (demo_sv_env True) 4 ''app'' ''1'' False [] demo_process = (Inr (Some sv), pr') \<and>
     disk_exists (sv_disk pr') ''/var/run/app.1.lock'' \<and> new_conn sv = Some 3 \<and>
     next_io_service (io_service_pool sv) = 0"
proof -
  have "(case fst (new_server ptree_ops demo_henv (demo_sv_env True) 4 ''app'' ''1'' False [] demo_process) of
      Inr (Some sv) \<Rightarrow> new_conn sv | _ \<Rightarrow> None) = Some 3" by code_simp
  then obtain sv pr' where r: "new_server ptree_ops demo_henv (demo_sv_env True) 4 ''app'' ''1'' False [] demo_process =
      (Inr (Some sv), pr')"
    by (cases "new_server ptree_ops demo_henv (demo_sv_env True) 4 ''app'' ''1'' False [] demo_process")
      (auto split: sum.splits option.splits)
  have "lock_path (env_var (cfg_env (demo_sv_env True))) ''app'' ''1'' = ''/var/run/app.1.lock''" by code_simp
  with server_started [OF demo_dirs_keep r] r show ?thesis by auto
qed

text \<open>
  A constructor that throws after it has taken the lock leaves the lock file behind, because the
  destructor of an object that was never complete does not run: the same application instance
  cannot start again, whatever the cause was and however it is mended, until the file is removed
  by hand. When it throws for want of the lock, the disk is as it was.
\<close>

theorem failed_start_leaves_lock:
  assumes "dirs_keep (cfg_env U)" and "0 < n"
    and "new_server ops h U n app inst daemon root pr = (Inl e, pr')"
  shows "(e = Sv_no_lock \<longrightarrow> sv_disk pr' = sv_disk pr) \<and>
    (e \<noteq> Sv_no_lock \<longrightarrow> disk_exists (sv_disk pr') (lock_path (env_var (cfg_env U)) app inst)) \<and>
    (e \<noteq> Sv_no_lock \<longrightarrow> (\<forall>U2 daemon2 root2 pr2. sv_disk pr2 = sv_disk pr' \<longrightarrow>
        env_var (cfg_env U2) ''KCPP_LOCK_DIR'' = env_var (cfg_env U) ''KCPP_LOCK_DIR'' \<longrightarrow>
        new_server ops h U2 n app inst daemon2 root2 pr2 = (Inl Sv_no_lock, pr2)))"
proof -
  let ?path = "lock_path (env_var (cfg_env U)) app inst"
  have again: "new_server ops h U2 n app inst daemon2 root2 pr2 = (Inl Sv_no_lock, pr2)"
    if "disk_exists (sv_disk pr') ?path" "sv_disk pr2 = sv_disk pr'"
      "env_var (cfg_env U2) ''KCPP_LOCK_DIR'' = env_var (cfg_env U) ''KCPP_LOCK_DIR''" for U2 daemon2 root2 pr2
  proof -
    obtain r pr3 where r: "new_server ops h U2 n app inst daemon2 root2 pr2 = (r, pr3)" by fastforce
    have "createLockFile (env_var (cfg_env U2)) (clock U2) app inst (sv_disk pr2) = (False, sv_disk pr2)"
      using that by (simp add: createLockFile_def checkLockFile_def lock_path_def)
    with r show ?thesis by (cases rule: new_server_cases [OF r]) (use assms(2) in auto)
  qed
  have "(e = Sv_no_lock \<longrightarrow> sv_disk pr' = sv_disk pr) \<and> (e \<noteq> Sv_no_lock \<longrightarrow> disk_exists (sv_disk pr') ?path)"
    using assms(3)
  proof (cases rule: new_server_cases)
    case (forked d)
    then show ?thesis using createLockFile_cases [OF forked(2)] by auto
  next
    case (serving sv0 d r1 sv)
    have "disk_exists (sv_disk pr') ?path"
      using start_serving_effect [OF assms(1) serving(3)] members_ok [OF serving(1)]
        createLockFile_cases [OF serving(2)] by simp
    moreover have "r1 \<noteq> Inl Sv_no_lock"
      using start_serving_error [of ops h U app inst daemon root
        "(sv0\<lparr>lockFilePath := lock_path (env_var (cfg_env U)) app inst\<rparr>, pr\<lparr>sv_disk := d\<rparr>)"]
      by (simp add: serving(3))
    then have "e \<noteq> Sv_no_lock" using serving(4) by (auto split: sum.splits)
    ultimately show ?thesis by simp
  qed (use assms(2) in auto)
  with again show ?thesis by blast
qed

lemma failed_start_leaves_lock_witness:
  "\<exists>e pr'. new_server ptree_ops demo_henv (demo_sv_env False) 4 ''app'' ''1'' False [] demo_process = (Inl e, pr') \<and>
     new_server ptree_ops demo_henv (demo_sv_env True) 4 ''app'' ''1'' False [] pr' = (Inl Sv_no_lock, pr')"
proof -
  have "(case fst (new_server ptree_ops demo_henv (demo_sv_env False) 4 ''app'' ''1'' False [] demo_process) of
      Inl e \<Rightarrow> Some e | Inr _ \<Rightarrow> None) = Some Sv_network" by code_simp
  then obtain pr' where r: "new_server ptree_ops demo_henv (demo_sv_env False) 4 ''app'' ''1'' False [] demo_process =
      (Inl Sv_network, pr')"
    by (cases "new_server ptree_ops demo_henv (demo_sv_env False) 4 ''app'' ''1'' False [] demo_process")
      (auto split: sum.splits)
  have "env_var (cfg_env (demo_sv_env True)) = env_var (cfg_env (demo_sv_env False))" by (simp add: demo_sv_env_def)
  with failed_start_leaves_lock [OF demo_dirs_keep _ r] r show ?thesis by auto
qed

text \<open>A running server ends when the first stop signal has arrived, and not before.\<close>

lemma run_until_stopped:
  assumes "stop_armed sv" "server_run ops c sv = Inr joins"
  shows "server_run ops c (stop_signal sv) = Inr []" and "pool_ok n p \<Longrightarrow> stopped p = [] \<Longrightarrow> run_pool p = [0..<n]"
  using assms
  by (auto simp: server_run_def stop_signal_def handle_stop_def stop_pool_stops split: sum.splits)
    (simp add: run_pool_def pool_ok_def)

text \<open>A second hangup signal does nothing: the wait for it is not renewed.\<close>

lemma second_hangup: "hangup_signal (hangup_signal s) = hangup_signal s"
  by (simp add: hangup_signal_def)

section \<open>The accept loop\<close>

fun accepts :: "bool list \<Rightarrow> ('p, 'w) server \<Rightarrow> (sv_error, nat option list, ('p, 'w) server) outcome" where
  "accepts [] sv = (Inr [], sv)"
| "accepts (failed # fs) sv =
     and_then (handle_accept failed sv)
       (\<lambda>i sv1. and_then (accepts fs sv1) (\<lambda>is sv2. (Inr (i # is), sv2)))"

text \<open>
  C20. The accept loop of a server with \<open>n\<close> services goes on for ever: after any number of
  completed accepts, failed ones included, the next accept is pending, no call has thrown, every
  connection that was accepted was started once, and the services serve in turn.
\<close>

theorem accept_loop:
  assumes "pool_ok n (io_service_pool sv)" and "new_conn sv = Some i" and "i < n"
    and "next_io_service (io_service_pool sv) = Suc i mod n"
  shows "\<exists>sv'. accepts fs sv = (Inr (map (\<lambda>(k, failed). if failed then None else Some ((i + k) mod n))
      (enumerate 0 fs)), sv') \<and>
    new_conn sv' = Some ((i + length fs) mod n) \<and> pool_ok n (io_service_pool sv') \<and>
    request_router sv' = request_router sv"
  using assms
proof (induction fs arbitrary: sv i)
  case Nil
  then show ?case by simp
next
  case (Cons failed fs)
  let ?sv = "sv\<lparr>io_service_pool := (io_service_pool sv)\<lparr>next_io_service := Suc (Suc i mod n) mod n\<rparr>,
    new_conn := Some (Suc i mod n)\<rparr>"
  have a: "handle_accept failed sv = (Inr (if failed then None else Some i), ?sv)"
    using start_accept_ok [OF Cons.prems(1)] Cons.prems by (simp add: handle_accept_def)
  have "pool_ok n (io_service_pool ?sv)" using get_io_service_ok(2) [OF Cons.prems(1)] by simp
  then obtain sv' where sv': "accepts fs ?sv = (Inr (map (\<lambda>(k, failed). if failed then None
      else Some ((Suc i mod n + k) mod n)) (enumerate 0 fs)), sv')"
    "new_conn sv' = Some ((Suc i mod n + length fs) mod n)" "pool_ok n (io_service_pool sv')"
    "request_router sv' = request_router sv"
    using Cons.IH [of ?sv "Suc i mod n"] Cons.prems(3) by auto
  have "(Suc i mod n + k) mod n = (i + Suc k) mod n" for k by (simp add: mod_simps)
  with sv'(1,2) have r: "accepts fs ?sv = (Inr (map (\<lambda>(k, failed). if failed then None
      else Some ((i + Suc k) mod n)) (enumerate 0 fs)), sv')"
    "new_conn sv' = Some ((i + Suc (length fs)) mod n)"
    by (simp_all only:)
  have "map (\<lambda>(k, failed). if failed then None else Some ((i + k) mod n)) (enumerate (Suc 0) fs) =
      map (\<lambda>(k, failed). if failed then None else Some ((i + Suc k) mod n)) (enumerate 0 fs)"
    by (simp add: enumerate_Suc_eq comp_def case_prod_unfold)
  with a r sv'(3,4) Cons.prems(3) show ?case by simp
qed

definition demo_pool_server :: "(ptree, unit) server" where
  "demo_pool_server =
     \<lparr>io_service_pool = \<lparr>io_services = [0..<4], work = [0..<4], next_io_service = 0, stopped = []\<rparr>,
      accept_service = 2, new_conn = Some 3, request_router = [], lockFilePath = [], stop_armed = True,
      log_reopen_armed = True\<rparr>"

lemma accept_loop_witness:
  "\<exists>sv'. accepts [False, True, False] demo_pool_server = (Inr [Some 3, None, Some 1], sv') \<and> new_conn sv' = Some 2"
proof -
  have "pool_ok 4 (io_service_pool demo_pool_server)" "new_conn demo_pool_server = Some 3"
    "next_io_service (io_service_pool demo_pool_server) = Suc 3 mod 4"
    by (simp_all add: pool_ok_def demo_pool_server_def)
  from accept_loop [OF this(1,2) _ this(3), of "[False, True, False]"] show ?thesis by auto
qed

end
