(* ===== verification/Server_Run.thy ===== *)
theory Server_Run
  imports Exchange Server_Theorems
begin

text \<open>
  A server at work: requests on its connections, the periods of its statistics and the signal to
  open the log again, one after the other, on the state its handlers share. The locale
  \<open>request_service\<close> is the contract between the router and the handlers: handlers keep the
  shared state well formed, and run into undefined behaviour only when the request is \<open>risky\<close> in
  that state. Adding a handler that keeps the contract keeps it; the standard handlers, the
  error cleaner and the handler of the example keep it.
\<close>

section \<open>Events\<close>

text \<open>A request at a time, the end of a period of the statistics, the signal SIGHUP.\<close>

datatype server_event = Request int peer | Period int | Hangup

definition at_time :: "int \<Rightarrow> ('d, 'q) world \<Rightarrow> ('d, 'q) world" where
  "at_time now w = w\<lparr>w_time := now\<rparr>"

definition gather_world :: "('d::zero, 'q) henv \<Rightarrow> int \<Rightarrow> ('d, 'q) world \<Rightarrow> ('d, 'q) world" where
  "gather_world h now w =
     w\<lparr>w_stats := gather_round (of_time h) (of_size h) (qsize h) now (w_stats w)\<rparr>"

definition hangup_world :: "('d, 'q) world \<Rightarrow> ('d, 'q) world" where
  "hangup_world w = w\<lparr>w_log := set2ReOpen (w_log w)\<rparr>"

text \<open>The replies of the requests, \<open>None\<close> for a request that gets none.\<close>

fun server_events ::
  "'p pt_ops \<Rightarrow> ('d::zero, 'q) henv \<Rightarrow> 'p json_io \<Rightarrow> 'p config \<Rightarrow> ('p, ('d, 'q) world) router \<Rightarrow>
   server_event list \<Rightarrow> ('d, 'q) world \<Rightarrow> (thrown, string option list, ('d, 'q) world) outcome" where
  "server_events ops h J cfg router [] w = (Inr [], w)"
| "server_events ops h J cfg router (Request now p # es) w =
     (case start ops J cfg router p (new_connection ops, at_time now w) of
        (Inl e, (c, w1)) \<Rightarrow> (Inl e, w1)
      | (Inr u, (c, w1)) \<Rightarrow>
          and_then (server_events ops h J cfg router es w1) (\<lambda>rs w2. (Inr (sent c # rs), w2)))"
| "server_events ops h J cfg router (Period now # es) w =
     server_events ops h J cfg router es (gather_world h now w)"
| "server_events ops h J cfg router (Hangup # es) w =
     server_events ops h J cfg router es (hangup_world w)"

fun requests_of :: "server_event list \<Rightarrow> peer list" where
  "requests_of [] = []"
| "requests_of (Request now p # es) = p # requests_of es"
| "requests_of (e # es) = requests_of es"

section \<open>The contract of the handlers\<close>

locale request_service =
  fixes ops :: "'p pt_ops"
    and router :: "('p, 'w) router"
    and good :: "'w \<Rightarrow> bool"
    and risky :: "'p \<Rightarrow> 'w \<Rightarrow> bool"
  assumes handler_keeps: "smap_find router c = Some k \<Longrightarrow> good w \<Longrightarrow> good (snd (snd (run k q (r, w))))"
    and handler_defined: "smap_find router c = Some k \<Longrightarrow> good w \<Longrightarrow> pt_get ops q ''kcm-cmd'' = Some c \<Longrightarrow>
      fst (run k q (r, w)) = Inl Undefined \<Longrightarrow> risky q w"
begin

lemma route_cases:
  obtains (direct) r1 where "route_request ops router q (r, w) = (Inr (), (r1, w))"
  | (handled) c k res r1 r2 w1 where "pt_get ops q ''kcm-cmd'' = Some c" "smap_find router c = Some k"
      "run k q (r, w) = (res, (r1, w1))"
      "route_request ops router q (r, w) =
        ((case res of Inl (Bad_path e) \<Rightarrow> Inr () | _ \<Rightarrow> res), (r2, w1))"
proof (cases "pt_get ops q ''kcm-cmd''")
  case (Some c)
  show thesis
  proof (cases "smap_find router c")
    case (Some k)
    obtain res r1 w1 where run: "run k q (r, w) = (res, (r1, w1))" by (metis prod_cases3)
    have "\<exists>r2. route_request ops router q (r, w) =
        ((case res of Inl (Bad_path e) \<Rightarrow> Inr () | _ \<Rightarrow> res), (r2, w1))"
      using Some \<open>pt_get ops q ''kcm-cmd'' = Some c\<close> run
      by (cases res; (cases "projl res")?) (simp_all add: route_request_def)
    then show thesis
      using handled [OF \<open>pt_get ops q ''kcm-cmd'' = Some c\<close> Some run] by blast
  qed (use direct Some in \<open>simp add: route_request_def\<close>)
qed (use direct in \<open>simp add: route_request_def\<close>)

lemma route_keeps:
  assumes "good w"
  shows "good (snd (snd (route_request ops router q (r, w))))"
proof (cases rule: route_cases [of q r w])
  case (handled c k res r1 r2 w1)
  then show ?thesis using handler_keeps [OF handled(2) assms, of q r] by simp
qed (simp add: assms)

lemma route_defined:
  assumes "good w" "fst (route_request ops router q (r, w)) = Inl Undefined"
  shows "risky q w"
proof (cases rule: route_cases [of q r w])
  case (handled c k res r1 r2 w1)
  then have "fst (run k q (r, w)) = Inl Undefined"
    using assms(2) by (auto split: sum.splits thrown.splits)
  with handler_defined [OF handled(2) assms(1) handled(1)] show ?thesis by blast
qed (use assms in simp)

text \<open>A whole connection keeps the state, and throws only what an admitted risky request brings.\<close>

lemma connection_keeps:
  assumes "good w" "start ops J cfg router p (new_connection ops, w) = (r, (c, w1))"
  shows "good w1"
    and "r = Inl e \<Longrightarrow> e = Undefined \<and> (\<exists>t. admitted ops J cfg p = Some t \<and> risky t w)"
proof -
  have "good w1 \<and> (r = Inl e \<longrightarrow> e = Undefined \<and> (\<exists>t. admitted ops J cfg p = Some t \<and> risky t w))"
  proof (cases "admitted ops J cfg p")
    case None
    then show ?thesis using assms by (auto elim: start_refused [of ops J cfg p router w])
  next
    case (Some t)
    obtain res r1 w2 where route: "route_request ops router t (pt_new ops, w) = (res, (r1, w2))"
      by (metis prod_cases3)
    have "good w2" using route_keeps [OF assms(1), of t "pt_new ops"] route by simp
    moreover have "res = Inl Undefined \<Longrightarrow> risky t w"
      using route_defined [OF assms(1), of t "pt_new ops"] route by simp
    ultimately show ?thesis
      using assms(2) Some route unfolding start_admitted(1) [OF Some]
      by (cases res; (cases "projl res")?)
        (auto simp: serve_def start_admitted(2) [OF Some] and_then_def split: thrown.splits)
  qed
  then show "good w1"
    and "r = Inl e \<Longrightarrow> e = Undefined \<and> (\<exists>t. admitted ops J cfg p = Some t \<and> risky t w)" by simp_all
qed

end

text \<open>Handlers that moreover answer with a status whenever they do not throw.\<close>

definition has_status :: "'p pt_ops \<Rightarrow> 'p \<Rightarrow> bool" where
  "has_status ops r \<longleftrightarrow> (\<exists>st. pt_get ops r ''kcm-sts'' = Some (status_text st))"

locale answering_service = request_service ops router good risky + property_tree ops
  for ops :: "'p pt_ops" and router :: "('p, 'w) router" and good risky +
  assumes handler_answers: "smap_find router c = Some k \<Longrightarrow> good w \<Longrightarrow> run k q (r, w) = (Inr u, (r1, w1)) \<Longrightarrow>
    has_status ops r1"
begin

lemma failure_has_status: "has_status ops (put_failure ops st m r)"
  by (auto simp: has_status_def put_failure_get)

lemma route_answers:
  assumes "good w" "route_request ops router q (r, w) = (Inr u, (r1, w1))"
  shows "has_status ops r1"
proof (cases "pt_get ops q ''kcm-cmd''")
  case None
  then show ?thesis using assms(2) failure_has_status by (auto simp: route_request_def)
next
  case (Some c)
  show ?thesis
  proof (cases "smap_find router c")
    case None
    then show ?thesis using assms(2) Some failure_has_status by (auto simp: route_request_def)
  next
    case k: (Some k)
    obtain res r2 w2 where run: "run k q (r, w) = (res, (r2, w2))" by (metis prod_cases3)
    show ?thesis
    proof (cases res)
      case (Inl e)
      then show ?thesis
        using assms(2) Some k run failure_has_status by (cases e) (auto simp: route_request_def)
    next
      case (Inr v)
      then have "has_status ops r2" using handler_answers [OF k assms(1)] run by simp
      then show ?thesis using assms(2) Some k run Inr by (simp add: route_request_def)
    qed
  qed
qed

lemma reply_has_status:
  assumes "good w" "start ops J cfg router p (new_connection ops, w) = (Inr u, (c, w1))" "sent c = Some s"
  shows "\<exists>r. write_json J r = Some s \<and> has_status ops r"
proof -
  have "start ops J cfg router p (new_connection ops, w) = (Inr (), (c, w1))" using assms(2) by simp
  from this assms(3) show ?thesis
    by (cases rule: reply_tree) (use failure_has_status route_answers [OF assms(1)] in \<open>blast+\<close>)
qed

end

text \<open>Registering a handler that keeps the contract.\<close>

lemma answering_service_register:
  assumes "answering_service ops router good risky"
    and "\<And>w q r. good w \<Longrightarrow> good (snd (snd (run k q (r, w))))"
    and "\<And>w q r. good w \<Longrightarrow> pt_get ops q ''kcm-cmd'' = Some (commandId k) \<Longrightarrow>
      fst (run k q (r, w)) = Inl Undefined \<Longrightarrow> risky q w"
    and "\<And>w q r. good w \<Longrightarrow> fst (run k q (r, w)) = Inr () \<Longrightarrow> has_status ops (fst (snd (run k q (r, w))))"
  shows "answering_service ops (register_handler k router) good risky"
proof -
  have old: "request_service ops router good risky" "property_tree ops"
    using assms(1) by (simp_all add: answering_service_def)
  show ?thesis
  proof (intro answering_service.intro request_service.intro answering_service_axioms.intro)
    show "property_tree ops" by (rule old(2))
    fix c k' w q r u r1 w1
    assume k': "smap_find (register_handler k router) c = Some k'" and w: "good w"
    show "good (snd (snd (run k' q (r, w))))"
      using k' w assms(2) request_service.handler_keeps [OF old(1)]
      by (auto simp: register_handler_def smap_find_put split: if_splits)
    show "pt_get ops q ''kcm-cmd'' = Some c \<Longrightarrow> fst (run k' q (r, w)) = Inl Undefined \<Longrightarrow> risky q w"
      using k' w assms(3) request_service.handler_defined [OF old(1)]
      by (auto simp: register_handler_def smap_find_put split: if_splits)
    show "run k' q (r, w) = (Inr u, (r1, w1)) \<Longrightarrow> has_status ops r1"
      using k' w assms(4) [of w q r] answering_service.handler_answers [OF assms(1), of c k' w q r u r1 w1]
      by (auto simp: register_handler_def smap_find_put split: if_splits)
  qed
qed

lemma answering_service_nothing: "property_tree ops \<Longrightarrow> answering_service ops [] good risky"
  by (simp add: answering_service_def answering_service_axioms_def request_service_def)

section \<open>The state the handlers share\<close>

text \<open>A history that is kept at all has a value, which \<open>getLastGatheredStats\<close> reads.\<close>

definition histories_ok :: "('d, 'q) stats \<Rightarrow> bool" where
  "histories_ok st \<longleftrightarrow> (0 < historyLength st \<longrightarrow> (\<forall>e\<in>set (gatheredStatsMap st). snd e \<noteq> []))"

definition world_ok :: "('d, 'q) world \<Rightarrow> bool" where
  "world_ok w \<longleftrightarrow> stats_ok (w_stats w) \<and> histories_ok (w_stats w) \<and> errors_ok (w_errors w)"

text \<open>A request that reads histories past their end: \<open>stats_risky\<close> says which, in which state.\<close>

definition stats_risky :: "'p pt_ops \<Rightarrow> 'p \<Rightarrow> ('d, 'q) world \<Rightarrow> bool" where
  "stats_risky ops q w \<longleftrightarrow>
     pt_get ops q ''kcm-cmd'' = Some ''kch-stats'' \<and>
     (if pt_get_or ops q ''type'' ''current'' = ''full''
      then (\<exists>e\<in>set (gatheredStatsMap (w_stats w)). length (snd e) < historyLength (w_stats w))
      else pt_get_or ops q ''type'' ''current'' \<noteq> ''current'' \<and> historyLength (w_stats w) = 0)"

lemma smap_put_entries: "set (smap_put k v m) \<subseteq> insert (k, v) (set m)"
  by (induction k v m rule: smap_put.induct) auto

lemma gather_stats_filled:
  "\<forall>e\<in>set g. snd e \<noteq> [] \<Longrightarrow> \<forall>e\<in>set (gather_stats m g). snd e \<noteq> []"
  unfolding gather_stats_def
proof (induction m arbitrary: g)
  case (Cons e m)
  have "\<forall>e\<in>set (push_gathered (fst e) (snd e) g). snd e \<noteq> []"
    using Cons.prems smap_put_entries by (fastforce simp: push_gathered_def)
  from Cons.IH [OF this] show ?case by simp
qed simp

lemma trim_history_filled:
  fixes g :: "(string, 'v list) smap"
  assumes "0 < h" "\<forall>e\<in>set g. snd e \<noteq> []"
  shows "\<forall>e\<in>set (trim_history h g). snd e \<noteq> []"
proof -
  have "butlast xs \<noteq> []" if "h < length xs" for xs :: "'v list"
    using assms(1) that by (cases xs rule: rev_cases) auto
  with assms(2) show ?thesis by (fastforce simp: trim_history_def split: if_splits)
qed

lemma histories_ok_round:
  assumes "histories_ok st"
  shows "histories_ok (gather_round tm sz qs now st)"
proof -
  have same: "historyLength (note_uptime tm now st) = historyLength st"
    "gatheredStatsMap (note_uptime tm now st) = gatheredStatsMap st"
    by (simp_all add: note_uptime_def)
  have "\<forall>e\<in>set (gatheredStatsMap (gather_round tm sz qs now st)). snd e \<noteq> []"
    if "0 < historyLength st"
  proof -
    have "\<forall>e\<in>set (gatheredStatsMap st). snd e \<noteq> []" using assms that by (simp add: histories_ok_def)
    from trim_history_filled [OF that gather_stats_filled [OF gather_stats_filled [OF this]]]
    show ?thesis unfolding gather_round_def Let_def by (simp add: same)
  qed
  then show ?thesis by (simp add: histories_ok_def gather_round_def Let_def same)
qed

lemma world_ok_steps [inv_intros]:
  "world_ok w \<Longrightarrow> world_ok (at_time now w)"
  "world_ok w \<Longrightarrow> world_ok (gather_world h now w)"
  "world_ok w \<Longrightarrow> world_ok (hangup_world w)"
  by (simp_all add: world_ok_def at_time_def gather_world_def hangup_world_def stats_ok_round histories_ok_round)

section \<open>The handlers keep the contract\<close>

lemma catch_failures_state [simp]: "snd (snd (catch_failures ops r)) = snd (snd r)"
  by (auto simp: catch_failures_def split: prod.split sum.split thrown.split)

lemma catch_failures_undefined [simp]:
  "fst (catch_failures ops r) = Inl Undefined \<longleftrightarrow> fst r = Inl Undefined"
  by (auto simp: catch_failures_def split: prod.split sum.split thrown.split)

lemma last_gathered_error: "last_gathered m r = Inl e \<Longrightarrow> \<exists>e\<in>set m. snd e = []"
  by (induction m r rule: last_gathered.induct) auto

lemma history_of_error: "history_of i xs ns r = Inl e \<Longrightarrow> \<exists>n\<in>set ns. length xs \<le> n"
  by (induction ns arbitrary: r) (auto split: if_splits)

lemma full_history_error: "full_history h m r = Inl e \<Longrightarrow> \<exists>e\<in>set m. length (snd e) < h"
proof (induction m arbitrary: r)
  case (Cons e m)
  obtain i xs where e: "e = (i, xs)" by fastforce
  show ?case
  proof (cases "history_of i xs [0..<h] r")
    case (Inl e')
    then show ?thesis using history_of_error [OF Inl] e by auto
  next
    case (Inr r1)
    then show ?thesis using Cons e by auto
  qed
qed simp

lemma stats_keeps:
  assumes "world_ok w"
  shows "world_ok (snd (snd (stats_run ops h q (r, w))))"
    and "pt_get ops q ''kcm-cmd'' = Some ''kch-stats'' \<Longrightarrow> fst (stats_run ops h q (r, w)) = Inl Undefined \<Longrightarrow>
      stats_risky ops q w"
proof -
  let ?t = "pt_get_or ops q ''type'' ''current''"
  have "world_ok (w\<lparr>w_stats := note_uptime (of_time h) (w_time w) (w_stats w)\<rparr>)"
    using assms by (simp add: world_ok_def note_uptime_def stats_ok_def histories_ok_def smap.wf_put)
  then show "world_ok (snd (snd (stats_run ops h q (r, w))))"
    using assms
    by (simp add: stats_run_def Let_def full_def current_report_def gathered_def getCurrentStats_def
        split: sum.split)
  assume c: "pt_get ops q ''kcm-cmd'' = Some ''kch-stats''"
    and u: "fst (stats_run ops h q (r, w)) = Inl Undefined"
  consider "?t = ''full''" | "?t = ''current''" | "?t \<noteq> ''full''" "?t \<noteq> ''current''" by blast
  then show "stats_risky ops q w"
  proof cases
    case 1
    then show ?thesis using u c
      by (auto simp: stats_run_def Let_def full_def stats_risky_def getFullStatsHistory_def
          split: sum.splits dest: full_history_error)
  next
    case 2
    then show ?thesis using u by (simp add: stats_run_def Let_def current_report_def split: prod.splits)
  next
    case 3
    then have "\<exists>e\<in>set (gatheredStatsMap (w_stats w)). snd e = []" using u
      by (auto simp: stats_run_def Let_def gathered_def getLastGatheredStats_def
          split: sum.splits dest: last_gathered_error)
    then have "historyLength (w_stats w) = 0" using assms by (auto simp: world_ok_def histories_ok_def)
    with 3 c show ?thesis by (simp add: stats_risky_def)
  qed
qed

lemma errors_keeps:
  assumes "world_ok w"
  shows "world_ok (snd (snd (errors_run ops q (r, w))))" "fst (errors_run ops q (r, w)) \<noteq> Inl Undefined"
proof -
  obtain es where "getStates (w_errors w) = Inr es"
    by (rule getStates_ok [of "w_errors w"]) (use assms in \<open>simp_all add: world_ok_def\<close>)
  with assms show "world_ok (snd (snd (errors_run ops q (r, w))))" "fst (errors_run ops q (r, w)) \<noteq> Inl Undefined"
    by (simp_all add: errors_run_def Let_def split: prod.split)
qed

lemma handlers_keeps:
  "world_ok w \<Longrightarrow> world_ok (snd (snd (handlers_run ops q (r, w))))"
  "fst (handlers_run ops q (r, w)) \<noteq> Inl Undefined"
  by (simp_all add: handlers_run_def)

lemma level_keeps:
  assumes "world_ok w"
  shows "world_ok (snd (snd (level_run ops h q (r, w))))" "fst (level_run ops h q (r, w)) \<noteq> Inl Undefined"
  using assms
  by (auto simp: level_run_def get_or_throw_def Let_def world_ok_def split: option.split)

lemma echo_keeps:
  "good w \<Longrightarrow> good (snd (snd (echo_run ops q (r, w))))" "fst (echo_run ops q (r, w)) \<noteq> Inl Undefined"
  by (simp_all add: echo_run_def get_or_throw_def split: option.split)

lemma cleaner_keeps:
  assumes "world_ok w" "case_folding (lower_case h)"
  shows "world_ok (snd (snd (cleaner_run ops h q (r, w))))" "fst (cleaner_run ops h q (r, w)) \<noteq> Inl Undefined"
proof -
  have fold: "lower_case h (lower_case h i) = lower_case h i" for i
    using assms(2) by (simp add: case_folding_def)
  have ok: "errors_ok (w_errors w)" using assms(1) by (simp add: world_ok_def)
  have all: "\<exists>m. el_clear_all (lower_case h) (lower_case h i) (w_errors w) = (Inr (), m) \<and> errors_ok m" for i
    by (rule lower_case_step [OF ok, of "lower_case h" "Clear_all_errors (lower_case h i)"])
      (use ok in \<open>auto simp: fold errors_ok_put\<close>)
  have some: "\<exists>m. el_clear (lower_case h) (lower_case h i) n (w_errors w) = (Inr (), m) \<and> errors_ok m" for i n
    by (rule lower_case_step [OF ok, of "lower_case h" "Clear_error (lower_case h i) n"])
      (use ok in \<open>auto simp: fold errors_ok_put\<close>)
  have "world_ok (snd (snd (clear_errors ops h q i (r, w)))) \<and> fst (clear_errors ops h q i (r, w)) \<noteq> Inl Undefined" for i
  proof -
    obtain m where m: "el_clear_all (lower_case h) (lower_case h i) (w_errors w) = (Inr (), m)" "errors_ok m"
      using all by blast
    let ?n = "pt_get_or ops q ''kcm-clear-error.count'' ''all''"
    note defs = clear_errors_def Let_def get_or_throw_def world_ok_def
    show ?thesis
    proof (cases "lower_case h ?n = ''all''")
      case True
      then show ?thesis using m assms(1) by (simp add: defs)
    next
      case False
      show ?thesis
      proof (cases "pt_get ops q ''kcm-clear-error.count''")
        case None
        then show ?thesis using False assms(1) by (simp add: defs)
      next
        case (Some v)
        show ?thesis
        proof (cases "parse_uint h v")
          case None
          then show ?thesis using False Some assms(1) by (simp add: defs)
        next
          case (Some k)
          obtain m' where "el_clear (lower_case h) (lower_case h i) k (w_errors w) = (Inr (), m')" "errors_ok m'"
            using some by blast
          then show ?thesis
            using False Some \<open>pt_get ops q _ = Some v\<close> assms(1) by (simp add: defs)
        qed
      qed
    qed
  qed
  then show "world_ok (snd (snd (cleaner_run ops h q (r, w))))" "fst (cleaner_run ops h q (r, w)) \<noteq> Inl Undefined"
    using assms(1) by (auto simp: cleaner_run_def get_or_throw_def split: option.split)
qed

section \<open>The handlers answer with a status\<close>

lemma stat_path_apart: "apart (stat_path x) ''kcm-sts''"
proof -
  have "path_parts (''stats'' @ CHR ''.'' # x) = ''stats'' # path_parts x"
    by (rule path_parts_dot) simp
  then show ?thesis by (simp add: apart_def path_of_def is_prefix_Cons stat_path_def)
qed

definition stats_paths :: "(string, 'v) smap \<Rightarrow> bool" where
  "stats_paths m \<longleftrightarrow> fst ` set m \<subseteq> range stat_path"

lemma stats_paths_put: "stats_paths m \<Longrightarrow> stats_paths (smap_put (stat_path x) v m)"
  using set_smap_put [of "stat_path x" v m] by (auto simp: stats_paths_def)

lemma stats_paths_fold:
  "stats_paths m \<Longrightarrow> stats_paths (fold (\<lambda>e. smap_put (stat_path (fst e)) (f e)) es m)"
  by (induction es arbitrary: m) (simp_all add: stats_paths_put)

lemma stats_paths_last: "last_gathered g r = Inr m \<Longrightarrow> stats_paths r \<Longrightarrow> stats_paths m"
  by (induction g r rule: last_gathered.induct) (simp_all add: stats_paths_put)

lemma stats_paths_history: "history_of i xs ns r = Inr m \<Longrightarrow> stats_paths r \<Longrightarrow> stats_paths m"
proof (induction ns arbitrary: r)
  case (Cons n ns)
  have "history_path i n = stat_path (i @ ''.'' @ two_digits n)"
    by (simp add: history_path_def stat_path_def)
  with Cons show ?case by (auto simp: push_history_def stats_paths_put split: if_splits)
qed simp

lemma stats_paths_full: "full_history h g r = Inr m \<Longrightarrow> stats_paths r \<Longrightarrow> stats_paths m"
proof (induction g arbitrary: r)
  case (Cons e g)
  obtain i xs where "e = (i, xs)" by fastforce
  with Cons show ?case by (auto split: sum.splits dest: stats_paths_history)
qed simp

lemma stats_paths_Nil: "stats_paths []"
  by (simp add: stats_paths_def)

context property_tree
begin

lemma put_status_has: "has_status ops (put_status ops st r)"
  by (auto simp: has_status_def put_status_get)

lemma put_has_status: "apart p ''kcm-sts'' \<Longrightarrow> has_status ops (pt_put ops p v r) = has_status ops r"
  by (simp add: has_status_def get_put_other)

lemma add_child_has_status: "apart p ''kcm-sts'' \<Longrightarrow> has_status ops (pt_add_child ops p u r) = has_status ops r"
  by (simp add: has_status_def get_add_child_other)

lemma put_numbers_has: "stats_paths m \<Longrightarrow> has_status ops r \<Longrightarrow> has_status ops (put_numbers ops sh m r)"
  unfolding put_numbers_def
proof (induction m arbitrary: r)
  case (Cons e m)
  then have "apart (fst e) ''kcm-sts''" "stats_paths m" by (auto simp: stats_paths_def stat_path_apart)
  with Cons show ?case by (simp add: put_has_status)
qed simp

lemma put_lists_has: "stats_paths m \<Longrightarrow> has_status ops r \<Longrightarrow>
  has_status ops (fold (\<lambda>e. fold (\<lambda>v. pt_put ops (fst e) (sh v)) (snd e)) m r)"
proof (induction m arbitrary: r)
  case (Cons e m)
  then have a: "apart (fst e) ''kcm-sts''" "stats_paths m" by (auto simp: stats_paths_def stat_path_apart)
  then have "has_status ops (fold (\<lambda>v. pt_put ops (fst e) (sh v)) vs r)" if "has_status ops r" for vs r
    using that by (induction vs arbitrary: r) (simp_all add: put_has_status)
  with Cons a show ?case by simp
qed simp

lemma catch_failures_has:
  "fst (catch_failures ops r) = Inr u \<Longrightarrow> (fst r = Inr u \<Longrightarrow> has_status ops (fst (snd r))) \<Longrightarrow>
   has_status ops (fst (snd (catch_failures ops r)))"
  by (auto simp: catch_failures_def has_status_def put_failure_get split: prod.splits sum.splits thrown.splits)

lemma put_stats_has: "stats_paths m \<Longrightarrow> has_status ops r \<Longrightarrow> has_status ops (put_stats ops h m r)"
proof -
  have "apart ''cacti_format_stats'' ''kcm-sts''" by code_simp
  then show "stats_paths m \<Longrightarrow> has_status ops r \<Longrightarrow> has_status ops (put_stats ops h m r)"
    by (simp add: put_stats_def put_has_status put_numbers_has)
qed

lemma stats_answers:
  assumes "fst (stats_run ops h q (r, w)) = Inr ()"
  shows "has_status ops (fst (snd (stats_run ops h q (r, w))))"
  using assms unfolding stats_run_def
proof (rule catch_failures_has)
  let ?t = "pt_get_or ops q ''type'' ''current''"
  let ?s1 = "(put_status ops RQST_SUCCESS (fst (r, w)), snd (r, w))"
  have cur: "stats_paths (fst (getCurrentStats (of_time h) (of_size h) (qsize h) now st))" for now st
    by (simp add: getCurrentStats_def Let_def stats_paths_fold stats_paths_Nil)
  have "has_status ops (fst (snd (full ops h ?s1)))" if "fst (full ops h ?s1) = Inr ()"
    using that by (auto simp: full_def getFullStatsHistory_def put_status_has split: sum.splits
        intro!: put_lists_has dest: stats_paths_full [OF _ stats_paths_Nil])
  moreover have "has_status ops (fst (snd (gathered ops h ?s1)))" if "fst (gathered ops h ?s1) = Inr ()"
    using that by (auto simp: gathered_def getLastGatheredStats_def put_status_has split: sum.splits
        intro!: put_stats_has dest: stats_paths_last [OF _ stats_paths_Nil])
  moreover have "has_status ops (fst (snd (current_report ops h ?s1)))"
    using cur by (auto simp: current_report_def put_status_has split: prod.split intro!: put_stats_has)
      (metis fst_conv)
  ultimately show "has_status ops (fst (snd (let stat_type = ?t; s1 = ?s1
        in if stat_type = ''full'' then full ops h s1
           else if stat_type = ''current'' then current_report ops h s1 else gathered ops h s1)))"
    if "fst (let stat_type = ?t; s1 = ?s1
        in if stat_type = ''full'' then full ops h s1
           else if stat_type = ''current'' then current_report ops h s1 else gathered ops h s1) = Inr ()"
    using that by (auto simp: Let_def split: if_splits)
qed

lemma report_errors_has:
  "has_status ops r \<Longrightarrow> has_status ops (snd (snd (report_errors ops es a b r)))"
proof (induction es arbitrary: a b r)
  case (Cons e es)
  have "apart ''error-state.errors.error'' ''kcm-sts''" by code_simp
  with Cons show ?case by (simp add: add_child_has_status)
qed simp

lemma errors_answers:
  assumes "fst (errors_run ops q (r, w)) = Inr ()"
  shows "has_status ops (fst (snd (errors_run ops q (r, w))))"
proof -
  have a: "apart ''error-state.total-error-count'' ''kcm-sts''" "apart ''error-state.error-type-count'' ''kcm-sts''"
    by code_simp+
  have has: "has_status ops r1" if "report_errors ops es 0 0 (put_status ops RQST_SUCCESS r) = (x, y, r1)" for es x y r1
    using that report_errors_has [OF put_status_has, of es 0 0 RQST_SUCCESS r] by simp
  show ?thesis
    using assms unfolding errors_run_def
    by (intro catch_failures_has) (auto simp: put_has_status a dest: has split: sum.splits prod.splits)
qed

lemma handlers_answers:
  assumes "fst (handlers_run ops q (r, w)) = Inr ()"
  shows "has_status ops (fst (snd (handlers_run ops q (r, w))))"
proof -
  have "one_part ''handler''" by (simp add: one_part_def)
  then have a: "apart ''handler'' ''kcm-sts''" by (simp add: apart_one)
  have "has_status ops (fold (\<lambda>e. pt_add_child ops ''handler'' (f e)) es r)" if "has_status ops r"
    for f :: "string \<times> string \<Rightarrow> 'p" and es r
    using that by (induction es arbitrary: r) (simp_all add: add_child_has_status a)
  then show ?thesis
    using assms unfolding handlers_run_def
    by (intro catch_failures_has) (simp_all add: put_status_has)
qed

lemma level_answers:
  assumes "fst (level_run ops h q (r, w)) = Inr ()"
  shows "has_status ops (fst (snd (level_run ops h q (r, w))))"
  using assms unfolding level_run_def
  by (intro catch_failures_has)
    (auto simp: get_or_throw_def Let_def put_has_status put_status_has put_failure_get
      has_status_def [of _ "put_failure _ _ _ _"] split: option.splits if_splits)

lemma echo_has_status:
  assumes "fst (echo_run ops q (r, w)) = Inr ()"
  shows "has_status ops (fst (snd (echo_run ops q (r, w))))"
proof -
  have "one_part ''you-sent''" by (simp add: one_part_def)
  then have "apart ''you-sent'' ''kcm-sts''" by (simp add: apart_one)
  then show ?thesis
    using assms unfolding echo_run_def
    by (intro catch_failures_has) (auto simp: get_or_throw_def put_has_status put_status_has split: option.splits)
qed

lemma cleaner_answers:
  assumes "fst (cleaner_run ops h q (r, w)) = Inr ()"
  shows "has_status ops (fst (snd (cleaner_run ops h q (r, w))))"
  using assms unfolding cleaner_run_def
  by (intro catch_failures_has)
    (auto simp: get_or_throw_def clear_errors_def Let_def put_status_has split: option.splits if_splits sum.splits)

end

section \<open>Runs of a server\<close>

lemma risky_at_time [simp]: "stats_risky ops t (at_time now w) = stats_risky ops t w"
  by (simp add: stats_risky_def at_time_def)

text \<open>A reply is the JSON of a tree with a status.\<close>

definition reply_ok :: "'p pt_ops \<Rightarrow> 'p json_io \<Rightarrow> string option \<Rightarrow> bool" where
  "reply_ok ops J reply \<longleftrightarrow>
     (case reply of None \<Rightarrow> True | Some s \<Rightarrow> \<exists>r. write_json J r = Some s \<and> has_status ops r)"

text \<open>The request of a run at which it meets undefined behaviour.\<close>

definition fatal_request ::
  "'p pt_ops \<Rightarrow> ('d::zero, 'q) henv \<Rightarrow> 'p json_io \<Rightarrow> 'p config \<Rightarrow> ('p, ('d, 'q) world) router \<Rightarrow>
   server_event list \<Rightarrow> ('d, 'q) world \<Rightarrow> bool" where
  "fatal_request ops h J cfg router es w \<longleftrightarrow>
     (\<exists>es1 now p es2 rs w1 t. es = es1 @ Request now p # es2 \<and>
        server_events ops h J cfg router es1 w = (Inr rs, w1) \<and>
        admitted ops J cfg p = Some t \<and> stats_risky ops t w1)"

lemma fatal_request_Cons:
  assumes "fatal_request ops h J cfg router es w1"
    and "\<And>es rs w2. server_events ops h J cfg router es w1 = (Inr rs, w2) \<Longrightarrow>
      \<exists>rs. server_events ops h J cfg router (e # es) w = (Inr rs, w2)"
  shows "fatal_request ops h J cfg router (e # es) w"
proof -
  obtain es1 now p es2 rs w2 t where f: "es = es1 @ Request now p # es2"
    "server_events ops h J cfg router es1 w1 = (Inr rs, w2)"
    "admitted ops J cfg p = Some t" "stats_risky ops t w2"
    using assms(1) unfolding fatal_request_def by blast
  obtain rs' where "server_events ops h J cfg router (e # es1) w = (Inr rs', w2)"
    using assms(2) [OF f(2)] by blast
  then show ?thesis
    unfolding fatal_request_def
    by (intro exI [of _ "e # es1"] exI [of _ now] exI [of _ p] exI [of _ es2] exI [of _ rs'] exI [of _ w2] exI [of _ t])
      (simp add: f)
qed

lemma events_ok:
  fixes h :: "('d::zero, 'q) henv"
  assumes serv: "answering_service ops router world_ok (stats_risky ops)"
    and ok: "world_ok w" and run: "server_events ops h J cfg router es w = (res, w1)"
  shows "world_ok w1 \<and>
    (case res of
       Inr rs \<Rightarrow> length rs = length (requests_of es) \<and> list_all (reply_ok ops J) rs
     | Inl e \<Rightarrow> e = Undefined \<and> fatal_request ops h J cfg router es w)"
  using ok run
proof (induction es arbitrary: w res w1)
  case (Cons e es)
  have req: "request_service ops router world_ok (stats_risky ops)"
    using serv by (simp add: answering_service_def)
  show ?case
  proof (cases e)
    case (Request now p)
    obtain r c w2 where st: "start ops J cfg router p (new_connection ops, at_time now w) = (r, (c, w2))"
      by (metis prod_cases3)
    have at: "world_ok (at_time now w)" by (rule world_ok_steps(1) [OF Cons.prems(1)])
    note conn = request_service.connection_keeps [OF req at st]
    show ?thesis
    proof (cases r)
      case (Inl x)
      then obtain t where t: "x = Undefined" "admitted ops J cfg p = Some t" "stats_risky ops t w"
        using conn(2) by auto
      then have "fatal_request ops h J cfg router (e # es) w"
        unfolding fatal_request_def Request
        by (intro exI [of _ "[]"] exI [of _ now] exI [of _ p] exI [of _ es] exI [of _ "[]"] exI [of _ w] exI [of _ t]) simp
      then show ?thesis using Cons.prems(2) Inl st conn(1) t(1) by (auto simp: Request)
    next
      case (Inr u)
      obtain r2 w3 where rest: "server_events ops h J cfg router es w2 = (r2, w3)" by fastforce
      note ih = Cons.IH [OF conn(1) rest]
      have reply: "reply_ok ops J (sent c)"
        using answering_service.reply_has_status [OF serv at] st Inr
        by (auto simp: reply_ok_def split: option.split)
      have eq: "(res, w1) = and_then (server_events ops h J cfg router es w2) (\<lambda>rs w2. (Inr (sent c # rs), w2))"
        using Cons.prems(2) st Inr by (simp add: Request)
      show ?thesis
      proof (cases r2)
        case (Inl x)
        have "fatal_request ops h J cfg router (e # es) w"
          by (rule fatal_request_Cons [of _ _ _ _ _ _ w2]) (use ih Inl st Inr \<open>r = Inr u\<close> in \<open>auto simp: Request\<close>)
        then show ?thesis using ih eq rest Inl by simp
      next
        case (Inr rs)
        then show ?thesis using ih eq rest reply by (simp add: Request)
      qed
    qed
  next
    case (Period now)
    note ih = Cons.IH [OF world_ok_steps(2) [OF Cons.prems(1)], of h now res w1]
    have "fatal_request ops h J cfg router es (gather_world h now w) \<Longrightarrow> fatal_request ops h J cfg router (e # es) w"
      by (rule fatal_request_Cons) (auto simp: Period)
    then show ?thesis using ih Cons.prems(2) by (auto simp: Period split: sum.splits)
  next
    case Hangup
    note ih = Cons.IH [OF world_ok_steps(3) [OF Cons.prems(1)], of res w1]
    have "fatal_request ops h J cfg router es (hangup_world w) \<Longrightarrow> fatal_request ops h J cfg router (e # es) w"
      by (rule fatal_request_Cons) (auto simp: Hangup)
    then show ?thesis using ih Cons.prems(2) by (auto simp: Hangup split: sum.splits)
  qed
qed auto

section \<open>The servers' routers\<close>

definition four_handlers :: "'p pt_ops \<Rightarrow> ('d, 'q) henv \<Rightarrow> ('p, ('d, 'q) world) router" where
  "four_handlers ops h =
     register_handler (logLevelAdjuster ops h)
       (register_handler (handlerReporter ops)
         (register_handler (errorReporter ops) (register_handler (statsReporter ops h) [])))"

lemma four_handlers_service:
  assumes "property_tree ops"
  shows "answering_service ops (four_handlers ops h) world_ok (stats_risky ops)"
  unfolding four_handlers_def
  by (intro answering_service_register answering_service_nothing assms)
    (auto simp: statsReporter_def errorReporter_def handlerReporter_def logLevelAdjuster_def
      stats_keeps errors_keeps handlers_keeps level_keeps
      intro: property_tree.stats_answers [OF assms] property_tree.errors_answers [OF assms]
        property_tree.handlers_answers [OF assms] property_tree.level_answers [OF assms])

lemma echo_service:
  assumes "answering_service ops router good risky"
  shows "answering_service ops (register_handler (echoHandler ops) router) good risky"
proof -
  have "property_tree ops" using assms by (simp add: answering_service_def)
  then show ?thesis
    by (intro answering_service_register assms)
      (auto simp: echoHandler_def echo_keeps intro: property_tree.echo_has_status)
qed

lemma cleaner_service:
  assumes "answering_service ops router world_ok risky" "case_folding (lower_case h)"
  shows "answering_service ops (register_handler (errorCleaner ops h) router) world_ok risky"
proof -
  have "property_tree ops" using assms(1) by (simp add: answering_service_def)
  then show ?thesis
    using assms(2)
    by (intro answering_service_register assms(1))
      (auto simp: errorCleaner_def cleaner_keeps intro: property_tree.cleaner_answers)
qed

interpretation standard: answering_service ptree_ops "four_handlers ptree_ops h" world_ok "stats_risky ptree_ops" for h
  by (rule four_handlers_service [OF boost.property_tree_axioms])

section \<open>What the constructor hands over\<close>

lemma logging_frame:
  "initializeLogging ops h U b c pr = (r, pr1) \<Longrightarrow>
   w_stats (sv_world pr1) = w_stats (sv_world pr) \<and> w_errors (sv_world pr1) = w_errors (sv_world pr) \<and>
   sv_keeper pr1 = sv_keeper pr"
  by (auto simp: initializeLogging_def Let_def split: option.splits)

lemma register_frame [simp]:
  "w_stats (sv_world (snd (sv_register handler s))) = w_stats (sv_world (snd s))"
  "w_errors (sv_world (snd (sv_register handler s))) = w_errors (sv_world (snd s))"
  "sv_config (snd (sv_register handler s)) = sv_config (snd s)"
  by (simp_all add: sv_register_def Let_def)

lemma initialize_frame:
  "w_stats (sv_world (snd (initialize_standard_handlers ops h s))) = w_stats (sv_world (snd s))"
  "w_errors (sv_world (snd (initialize_standard_handlers ops h s))) = w_errors (sv_world (snd s))"
  "sv_config (snd (initialize_standard_handlers ops h s)) = sv_config (snd s)"
  "request_router (fst s) = [] \<Longrightarrow>
   request_router (fst (initialize_standard_handlers ops h s)) = four_handlers ops h"
  by (simp_all add: initialize_standard_handlers_def four_handlers_def)

lemma new_keeper_ok: "stats_ok (new_keeper now gp hl)" "histories_ok (new_keeper now gp hl)"
  by (simp_all add: new_keeper_def start_keeper_def stats_ok_def histories_ok_def smap.wf_nothing)

lemma logging_config:
  "initializeLogging ops h U b c pr = (r, pr1) \<Longrightarrow> sv_config pr1 = sv_config pr"
  by (auto simp: initializeLogging_def Let_def split: option.splits)

lemma start_serving_world:
  assumes run: "start_serving ops h U app inst b root (sv, pr) = (Inr (), (sv', pr'))"
    and sv: "request_router sv = []" and ok: "errors_ok (w_errors (sv_world pr))" and "\<not> sv_keeper pr"
  shows "request_router sv' = four_handlers ops h \<and> world_ok (sv_world pr') \<and>
    (\<exists>c. sv_config pr' = Some c \<and> named_endpoint ops c = Inr ())"
proof -
  obtain rc sing d where c: "config_instance (cfg_env U) ops app inst root (sv_config pr, sv_disk pr) = (rc, (sing, d))"
    by (metis prod_cases3)
  then obtain cfg where cfg: "rc = Inr cfg" using run by (cases rc) (auto simp: start_serving_def Let_def)
  let ?pr = "pr\<lparr>sv_config := sing, sv_disk := d\<rparr>"
  obtain rl pr1 where l: "initializeLogging ops h U (\<not> b) cfg ?pr = (rl, pr1)" by fastforce
  then have rl: "rl = Inr ()" using run c cfg by (cases rl) (auto simp: start_serving_def Let_def)
  let ?pr2 = "keeper_instance (clock U) (get_number ops U cfg ''kcc-stats.gather-period'' 300)
      (get_number ops U cfg ''kcc-stats.history-length'' 12) pr1"
  let ?s3 = "initialize_standard_handlers ops h (signalRegistrations sv, ?pr2)"
  have "(Inr (), (sv', pr')) = (case (pt_get ops (cfg_data cfg) ''kcc-server.address'', pt_get ops (cfg_data cfg) ''kcc-server.port'') of
      (Some address, Some port) \<Rightarrow> if listens U address port
        then (let (ra, sv4) = start_accept (fst ?s3) in (ra, (sv4, snd ?s3))) else (Inl Sv_network, ?s3)
    | (None, _) \<Rightarrow> (Inl (Sv_bad_path ''kcc-server.address''), ?s3)
    | (_, None) \<Rightarrow> (Inl (Sv_bad_path ''kcc-server.port''), ?s3))"
    using run c cfg l rl by (simp add: start_serving_def Let_def)
  then have "pr' = snd ?s3" "sv' = snd (start_accept (fst ?s3))" "named_endpoint ops cfg = Inr ()"
    by (auto simp: named_endpoint_def split: option.splits if_splits prod.splits)
  moreover have "sing = Some cfg"
    using c cfg by (auto simp: config_instance_def split: option.splits prod.splits sum.splits)
  then have "sv_config (snd ?s3) = Some cfg"
    using logging_config [OF l] by (simp add: initialize_frame keeper_instance_def)
  moreover have "request_router (signalRegistrations sv) = []" using sv by (simp add: signalRegistrations_def)
  moreover have "world_ok (sv_world ?pr2)"
    using logging_frame [OF l] ok assms(4)
    by (simp add: keeper_instance_def world_ok_def new_keeper_ok)
  ultimately show ?thesis by (simp add: initialize_frame world_ok_def)
qed

lemma new_server_world:
  assumes new: "new_server ops h U n app inst daemon root pr = (Inr (Some sv), pr')"
    and ok: "errors_ok (w_errors (sv_world pr))" "\<not> sv_keeper pr"
  shows "request_router sv = four_handlers ops h" "world_ok (sv_world pr')"
    "\<exists>c. sv_config pr' = Some c \<and> named_endpoint ops c = Inr ()"
proof -
  obtain sv0 d where "members n = Inr sv0"
    "start_serving ops h U app inst daemon root
       (sv0\<lparr>lockFilePath := lock_path (env_var (cfg_env U)) app inst\<rparr>, pr\<lparr>sv_disk := d\<rparr>) = (Inr (), (sv, pr'))"
    by (rule new_server_cases [OF new]) (auto split: sum.splits)
  then show "request_router sv = four_handlers ops h" "world_ok (sv_world pr')"
    "\<exists>c. sv_config pr' = Some c \<and> named_endpoint ops c = Inr ()"
    using start_serving_world [of ops h U] members_ok [of n sv0] ok by simp_all
qed

lemma new_kc_echo_world:
  assumes "new_kc_echo ops h U pr = (Inr (Some sv), pr')"
    and ok: "errors_ok (w_errors (sv_world pr))" "\<not> sv_keeper pr"
  shows "request_router sv = register_handler (echoHandler ops) (four_handlers ops h)" "world_ok (sv_world pr')"
    "\<exists>c. sv_config pr' = Some c \<and> named_endpoint ops c = Inr ()"
proof -
  obtain sv1 pr1 where new: "new_server ops h U 1 ''kc_echo'' ''0'' False [] pr = (Inr (Some sv1), pr1)"
    and reg: "(sv, pr') = registerHandlers ops (sv1, pr1)"
    using assms(1) by (auto simp: new_kc_echo_def split: prod.splits sum.splits option.splits)
  note world = new_server_world [OF new ok]
  then show "request_router sv = register_handler (echoHandler ops) (four_handlers ops h)" "world_ok (sv_world pr')"
    "\<exists>c. sv_config pr' = Some c \<and> named_endpoint ops c = Inr ()"
    using reg by (auto simp: registerHandlers_def sv_register_def Let_def world_ok_def prod_eq_iff)
qed

section \<open>Properties\<close>

text \<open>
  C7. No request corrupts a server: after whatever requests, well formed or not, periods and
  signals, in any order, the statistics, the histories and the error states the handlers share are
  well formed; no exception leaves a connection; every request that gets a reply gets the JSON of a
  tree with a status of the enumeration. The one way out is \<open>kch-stats\<close>: asking for the full
  history while one is shorter than \<open>historyLength\<close>, or for the last values when no history is kept,
  reads a deque past its end.
\<close>

theorem server_keeps_types:
  assumes "property_tree ops" and "new_kc_echo ops h U pr = (Inr (Some sv), pr')"
    and "errors_ok (w_errors (sv_world pr))" and "\<not> sv_keeper pr"
    and "server_events ops h J cfg (request_router sv) es (sv_world pr') = (res, w)"
  shows "world_ok w \<and>
    (case res of
       Inr rs \<Rightarrow> length rs = length (requests_of es) \<and> list_all (reply_ok ops J) rs
     | Inl e \<Rightarrow> e = Undefined \<and> fatal_request ops h J cfg (request_router sv) es (sv_world pr'))"
proof (rule events_ok)
  show "answering_service ops (request_router sv) world_ok (stats_risky ops)"
    using echo_service [OF four_handlers_service [OF assms(1)]] new_kc_echo_world(1) [OF assms(2-4)] by simp
qed (use assms(5) new_kc_echo_world(2) [OF assms(2-4)] in simp_all)

text \<open>A history that has one value, asked for in full by a client on the white list.\<close>

definition full_request :: ptree where
  "full_request = node [(''kcm-cmd'', leaf ''kch-stats''), (''type'', leaf ''full''),
     (''kcm-client'', node [(''id'', leaf ''shop''), (''instance'', leaf ''1'')])]"

definition run_json :: "ptree json_io" where
  "run_json = demo_json\<lparr>read_json := (\<lambda>s. if s = ''FULL'' then Some full_request else read_json demo_json s)\<rparr>"

definition demo_events :: "server_event list" where
  "demo_events = [Request 1010 (demo_peer ''SHOP''), Period 1020, Hangup, Request 1030 (demo_peer ''FULL'')]"

definition echo_process :: "(ptree, int, nat) process" where
  "echo_process = demo_process\<lparr>
     sv_disk := (cfg_disk ''flat'')\<lparr>entries := [(''/c/kc_echo/kc_echo.common.kcppcfg'', Regular ''common''),
       (''/c/kc_echo/kc_echo.0.kcppcfg'', Regular ''flat'')]\<rparr>,
     sv_world := demo_world\<lparr>w_errors := []\<rparr>\<rparr>"

lemma server_keeps_types_witness:
  "\<exists>sv pr'. new_kc_echo ptree_ops demo_henv (demo_sv_env True) echo_process = (Inr (Some sv), pr') \<and>
     fst (server_events ptree_ops demo_henv run_json white_config (request_router sv) demo_events (sv_world pr')) =
       Inl Undefined \<and>
     world_ok (snd (server_events ptree_ops demo_henv run_json white_config (request_router sv) demo_events (sv_world pr')))"
proof -
  have "(case new_kc_echo ptree_ops demo_henv (demo_sv_env True) echo_process of
      (Inr (Some sv), pr') \<Rightarrow> fst (server_events ptree_ops demo_henv run_json white_config (request_router sv) demo_events (sv_world pr'))
    | _ \<Rightarrow> Inr []) = Inl Undefined" by code_simp
  then obtain sv pr' where new: "new_kc_echo ptree_ops demo_henv (demo_sv_env True) echo_process = (Inr (Some sv), pr')"
    and run: "fst (server_events ptree_ops demo_henv run_json white_config (request_router sv) demo_events (sv_world pr')) =
      Inl Undefined"
    by (auto split: prod.splits sum.splits option.splits)
  have ok: "errors_ok (w_errors (sv_world echo_process))" "\<not> sv_keeper echo_process"
    by (simp_all add: echo_process_def demo_process_def errors_ok_Nil)
  from server_keeps_types [OF boost.property_tree_axioms new ok prod.collapse [symmetric]] new run
  show ?thesis by blast
qed

end
