(* ===== verification/Kcsrt.thy ===== *)
theory Kcsrt
  imports Server_Run
begin

text \<open>
  The example applications as whole programs: examples/kc_echo (its \<open>main\<close> and its destructor; its
  handler and constructor are in Echo_Server) and examples/kcsrt, whose servers also send requests to
  each other from a thread of their own and count what they send and receive. The lines
  the sending thread writes to the log are in Kcsrt_Log, other trace lines are not modelled. A program whose \<open>main\<close> does not return because an
  exception leaves a destructor, or because of undefined behaviour, has the value \<open>None\<close>.
\<close>

section \<open>kc_echo\<close>

text \<open>The destructor of \<open>kc_echo\<close>, and what that of \<open>kcsrt\<close> does last: \<open>stop()\<close>, then the destructor of \<open>Server\<close>.\<close>

definition leave_application ::
  "'p pt_ops \<Rightarrow> ('p, ('d, 'q) world) server \<Rightarrow> ('p, 'd, 'q) process \<Rightarrow> ('p, 'd, 'q) process option" where
  "leave_application ops sv pr =
     (case sv_config pr of
        None \<Rightarrow> None
      | Some c \<Rightarrow>
          (case server_stop ops c sv of
             (Inl e, sv1) \<Rightarrow> None
           | (Inr u, sv1) \<Rightarrow> destroy_server sv1 pr))"

text \<open>
  \<open>app.run()\<close> and the end of the block \<open>app\<close> lives in. While \<open>run\<close> waits for the services, the
  server meets the events \<open>es\<close>; an exception of \<open>run\<close> itself is caught by \<open>main\<close>.
\<close>

definition run_application ::
  "'p pt_ops \<Rightarrow> ('d::zero, 'q) henv \<Rightarrow> 'p json_io \<Rightarrow> server_event list \<Rightarrow>
   (('p, 'd, 'q) process \<Rightarrow> ('p, 'd, 'q) process option) \<Rightarrow>
   ('p, ('d, 'q) world) server \<Rightarrow> ('p, 'd, 'q) process \<Rightarrow> ('p, 'd, 'q) process option" where
  "run_application ops h J es leave_app sv pr =
     (case sv_config pr of
        None \<Rightarrow> None
      | Some c \<Rightarrow>
          (case server_run ops c sv of
             Inl e \<Rightarrow> leave_app pr
           | Inr services \<Rightarrow>
               (case server_events ops h J c (request_router sv) es (sv_world pr) of
                  (Inl e, w) \<Rightarrow> None
                | (Inr rs, w) \<Rightarrow> leave_app (pr\<lparr>sv_world := w\<rparr>))))"

definition echo_main ::
  "'p pt_ops \<Rightarrow> ('d::zero, 'q) henv \<Rightarrow> 'p sv_env \<Rightarrow> 'p json_io \<Rightarrow> server_event list \<Rightarrow> ('p, 'd, 'q) process \<Rightarrow>
   (int \<times> ('p, 'd, 'q) process) option" where
  "echo_main ops h U J es pr =
     (case new_kc_echo ops h U pr of
        (Inr (Some sv), pr1) \<Rightarrow> map_option (\<lambda>pr2. (0, pr2)) (run_application ops h J es (leave_application ops sv) sv pr1)
      | (r, pr1) \<Rightarrow> Some (0, pr1))"

section \<open>kcsrt: the handler\<close>

definition kcsrt_echo_run ::
  "'p pt_ops \<Rightarrow> 'p \<Rightarrow> 'p \<times> ('d::{zero,plus,minus,one}, 'q) world \<Rightarrow> (thrown, unit, 'p \<times> ('d, 'q) world) outcome" where
  "kcsrt_echo_run ops request s =
     (let s0 = (fst s, (snd s)\<lparr>w_stats := increment ''recieved'' 1 (w_stats (snd s))\<rparr>)
      in catch_failures ops
           (and_then (get_or_throw ops request ''message'' s0)
              (\<lambda>message s1. (Inr (), (pt_put ops ''you-sent'' message (put_status ops RQST_SUCCESS (fst s1)), snd s1)))))"

definition kcsrtEchoHandler ::
  "'p pt_ops \<Rightarrow> ('p, ('d::{zero,plus,minus,one}, 'q) world) request_handler" where
  "kcsrtEchoHandler ops =
     \<lparr>commandId = ''echo'', getDescription = ''Will echo back what you send in.'', run = kcsrt_echo_run ops\<rparr>"

section \<open>kcsrt: the server\<close>

record kcsrt_app =
  i_port :: string
  o_port :: string
  app_running :: bool

definition kcsrt_counters :: "('d::zero, 'q) stats \<Rightarrow> ('d, 'q) stats" where
  "kcsrt_counters st =
     setStatValue ''fail'' 0 (setStatValue ''success'' 0 (setStatValue ''sent'' 0 (setStatValue ''recieved'' 0 st)))"

definition kcsrt_registerHandlers ::
  "'p pt_ops \<Rightarrow> ('p, ('d::{zero,plus,minus,one}, 'q) world) server \<times> ('p, 'd, 'q) process \<Rightarrow>
   ('p, ('d, 'q) world) server \<times> ('p, 'd, 'q) process" where
  "kcsrt_registerHandlers ops s = sv_register (kcsrtEchoHandler ops) s"

text \<open>
  The constructor. When it throws, \<open>Server\<close> is complete and its destructor removes the lock file
  (should that throw as well, the program is terminated; the disk then stays).
\<close>

definition new_kcsrt ::
  "'p pt_ops \<Rightarrow> ('d::{zero,plus,minus,one}, 'q) henv \<Rightarrow> 'p sv_env \<Rightarrow> string \<Rightarrow> string \<Rightarrow> bool \<Rightarrow> ('p, 'd, 'q) process \<Rightarrow>
   (sv_error, (('p, ('d, 'q) world) server \<times> kcsrt_app) option, ('p, 'd, 'q) process) outcome" where
  "new_kcsrt ops h U inst out_port runAsDaemon pr =
     (case new_server ops h U 1 ''kcsrt'' inst runAsDaemon [] pr of
        (Inl e, pr1) \<Rightarrow> (Inl e, pr1)
      | (Inr None, pr1) \<Rightarrow> (Inr None, pr1)
      | (Inr (Some sv), pr1) \<Rightarrow>
          (case pt_get ops (cfg_data (the (sv_config pr1))) ''server.port'' of
             None \<Rightarrow> (Inl (Sv_bad_path ''server.port''),
                      (case destroy_server sv pr1 of None \<Rightarrow> pr1 | Some pr2 \<Rightarrow> pr2))
           | Some port \<Rightarrow>
               (let pr2 = pr1\<lparr>sv_world := (sv_world pr1)\<lparr>w_stats := kcsrt_counters (w_stats (sv_world pr1))\<rparr>\<rparr>;
                    (sv3, pr3) = kcsrt_registerHandlers ops (sv, pr2)
                in (Inr (Some (sv3, \<lparr>i_port = port, o_port = out_port, app_running = True\<rparr>)), pr3))))"

section \<open>kcsrt: the sending thread\<close>

definition message_text :: "string \<Rightarrow> u32 \<Rightarrow> string" where
  "message_text port n = ''Message Count from ['' @ port @ ''] is: '' @ show_nat (unat n)"

definition sent_request :: "'p pt_ops \<Rightarrow> kcsrt_app \<Rightarrow> u32 \<Rightarrow> 'p" where
  "sent_request ops app n =
     pt_put ops ''message'' (message_text (i_port app) n)
       (pt_put ops ''kcm-prt'' (o_port app)
         (pt_put ops ''kcm-hst'' ''localhost'' (pt_put ops ''kcm-cmd'' ''echo'' (pt_new ops))))"

record ('d, 'q) sender =
  messageCount :: u32
  failCount :: u32
  sender_stats :: "('d, 'q) stats"

definition count_failure :: "('d::{zero,plus,minus,one}, 'q) sender \<Rightarrow> ('d, 'q) sender" where
  "count_failure s = s\<lparr>failCount := failCount s + 1, sender_stats := increment ''fail'' 1 (sender_stats s)\<rparr>"

text \<open>
  One pass of the loop, \<open>r\<close> being how the call of the client ends. The two catch clauses catch
  the failures of the communication; any other exception leaves the thread.
\<close>

definition send_round ::
  "cl_error + unit \<Rightarrow> ('d::{zero,plus,minus,one}, 'q) sender \<Rightarrow> (cl_error, unit, ('d, 'q) sender) outcome" where
  "send_round r s =
     (let s1 = s\<lparr>messageCount := messageCount s + 1\<rparr> in
      case r of
        Inr u \<Rightarrow> (Inr (), s1\<lparr>sender_stats := increment ''sent'' 1 (sender_stats s1)\<rparr>)
      | Inl (RetryableCommsFailure e) \<Rightarrow> (Inr (), count_failure s1)
      | Inl (PerminantCommsFailure e) \<Rightarrow> (Inr (), count_failure s1)
      | Inl e \<Rightarrow> (Inl e, s1))"

text \<open>How the constructor of \<open>client\<close>, a whole call, can end.\<close>

definition call_ends :: "'p pt_ops \<Rightarrow> 'p cl_env \<Rightarrow> 'p config \<Rightarrow> 'p \<Rightarrow> cl_error + unit \<Rightarrow> bool" where
  "call_ends ops N cfg request r \<longleftrightarrow>
     (case start_client ops N cfg request (pt_new ops) of
        (Inl e, c) \<Rightarrow> r = Inl e
      | (Inr u, c) \<Rightarrow>
          (case r of
             Inr v \<Rightarrow> \<exists>n c'. cl_steps ops N n (Running c) (Returned c')
           | Inl e \<Rightarrow> \<exists>n c'. cl_steps ops N n (Running c) (Threw e c')))"

text \<open>The loop: it stops when the destructor has cleared \<open>running\<close>, or at an exception.\<close>

inductive sendingProcessor ::
  "'p pt_ops \<Rightarrow> 'p cl_env \<Rightarrow> 'p config \<Rightarrow> kcsrt_app \<Rightarrow> ('d::{zero,plus,minus,one}, 'q) sender \<Rightarrow>
   (cl_error + unit) list \<Rightarrow> (cl_error, unit, ('d, 'q) sender) outcome \<Rightarrow> bool" for ops N cfg app where
  stops: "sendingProcessor ops N cfg app s [] (Inr (), s)"
| round: "call_ends ops N cfg (sent_request ops app (messageCount s + 1)) r \<Longrightarrow> send_round r s = (Inr (), s1) \<Longrightarrow>
    sendingProcessor ops N cfg app s1 rs res \<Longrightarrow> sendingProcessor ops N cfg app s (r # rs) res"
| escapes: "call_ends ops N cfg (sent_request ops app (messageCount s + 1)) r \<Longrightarrow> send_round r s = (Inl e, s1) \<Longrightarrow>
    sendingProcessor ops N cfg app s [r] (Inl e, s1)"

section \<open>kcsrt: main\<close>

text \<open>What \<open>boost::program_options\<close> makes of the command line.\<close>

datatype options = Help | Bad_options string | Options string string bool

text \<open>
  The destructor waits for the sending thread to end; an exception that left the thread has
  terminated the program before.
\<close>

definition leave_kcsrt ::
  "'p pt_ops \<Rightarrow> cl_error + unit \<Rightarrow> ('p, ('d, 'q) world) server \<Rightarrow> ('p, 'd, 'q) process \<Rightarrow> ('p, 'd, 'q) process option" where
  "leave_kcsrt ops thread_end sv pr =
     (case thread_end of Inl e \<Rightarrow> None | Inr u \<Rightarrow> leave_application ops sv pr)"

text \<open>\<open>thread_end\<close>: how the sending thread ends.\<close>

definition kcsrt_main ::
  "'p pt_ops \<Rightarrow> ('d::{zero,plus,minus,one}, 'q) henv \<Rightarrow> 'p sv_env \<Rightarrow> 'p json_io \<Rightarrow> options \<Rightarrow> server_event list \<Rightarrow>
   cl_error + unit \<Rightarrow> ('p, 'd, 'q) process \<Rightarrow> (int \<times> ('p, 'd, 'q) process) option" where
  "kcsrt_main ops h U J parsed es thread_end pr =
     (case parsed of
        Help \<Rightarrow> Some (0, pr)
      | Bad_options e \<Rightarrow> Some (1, pr)
      | Options inst out_port console_mode \<Rightarrow>
          (case new_kcsrt ops h U inst out_port (\<not> console_mode) pr of
             (Inr (Some (sv, app)), pr1) \<Rightarrow>
               map_option (\<lambda>pr2. (0, pr2)) (run_application ops h J es (leave_kcsrt ops thread_end sv) sv pr1)
           | (r, pr1) \<Rightarrow> Some (0, pr1)))"

section \<open>Lemmas\<close>

lemma run_application_ends:
  assumes serv: "answering_service ops (request_router sv) world_ok (stats_risky ops)"
    and ok: "world_ok (sv_world pr)" and c: "sv_config pr = Some c" "named_endpoint ops c = Inr ()"
    and rm: "rm_ok (sv_disk pr) (lockFilePath sv)"
    and safe: "\<not> fatal_request ops h J c (request_router sv) es (sv_world pr)"
  shows "\<exists>pr2. run_application ops h J es (leave_application ops sv) sv pr = Some pr2 \<and> world_ok (sv_world pr2) \<and>
    (\<forall>q. disk_exists (sv_disk pr2) q \<longleftrightarrow> q \<noteq> lockFilePath sv \<and> disk_exists (sv_disk pr) q)"
proof -
  obtain res w where ev: "server_events ops h J c (request_router sv) es (sv_world pr) = (res, w)" by fastforce
  from events_ok [OF serv ok ev] safe have w: "world_ok w" "\<exists>rs. res = Inr rs"
    by (cases res; auto)+
  obtain d where d: "removeLockFile (lockFilePath sv) (sv_disk pr) = Some d"
    "\<forall>q. disk_exists d q \<longleftrightarrow> q \<noteq> lockFilePath sv \<and> disk_exists (sv_disk pr) q"
    using rm by (cases "disk_exists (sv_disk pr) (lockFilePath sv)") (auto simp: removeLockFile_def)
  have "leave_application ops sv (pr\<lparr>sv_world := w\<rparr>) = Some (pr\<lparr>sv_world := w, sv_disk := d\<rparr>)"
    using c d(1) by (simp add: leave_application_def server_stop_def destroy_server_def handle_stop_def)
  then show ?thesis
    using w d(2) c ev by (auto simp: run_application_def server_run_def)
qed

lemma increment_value:
  fixes st :: "('d::ab_group_add, 'q) stats"
  shows "value_at (increment i v st) j = value_at st j + (if j = i then v else 0)"
  using apply_change_value [of "(True, i, v)" st j] by simp

lemma sender_paths:
  "one_part ''message''" "one_part ''kcm-prt''" "one_part ''kcm-hst''" "one_part ''kcm-cmd''"
  "apart ''kcm-client.id'' ''message''" "apart ''message'' ''kcm-client.id''"
  "apart ''message'' ''kcm-client.instance''" "apart ''kcm-cmd'' ''kcm-client.id''"
  "apart ''kcm-cmd'' ''kcm-client.instance''"
  by (simp_all add: one_part_def) (code_simp+)

context property_tree
begin

lemma sent_request_get:
  assumes "one_part k"
  shows "pt_get ops (sent_request ops app n) k =
    (if k = ''message'' then Some (message_text (i_port app) n) else if k = ''kcm-prt'' then Some (o_port app)
     else if k = ''kcm-hst'' then Some ''localhost'' else if k = ''kcm-cmd'' then Some ''echo'' else None)"
  using assms get_new [of k] unfolding sent_request_def
  by (auto simp: get_put_cases sender_paths one_part_def)

lemma sent_request_client:
  "pt_get ops (sent_request ops app n) ''kcm-client.id'' = None"
  "pt_get ops (sent_request ops app n) ''kcm-client.instance'' = None"
proof -
  have "apart k ''kcm-client.id''" "apart k ''kcm-client.instance''"
    if "k \<in> {''message'', ''kcm-prt'', ''kcm-hst'', ''kcm-cmd''}" for k
    using that by (elim insertE emptyE; hypsubst; code_simp)+
  then show "pt_get ops (sent_request ops app n) ''kcm-client.id'' = None"
    "pt_get ops (sent_request ops app n) ''kcm-client.instance'' = None"
    by (simp_all add: sent_request_def get_put_other get_new)
qed

end

text \<open>The router of a \<open>kcsrt\<close> keeps the contract of \<open>Server_Run\<close>.\<close>

lemma kcsrt_echo_keeps:
  assumes "world_ok w"
  shows "world_ok (snd (snd (kcsrt_echo_run ops q (r, w))))" "fst (kcsrt_echo_run ops q (r, w)) \<noteq> Inl Undefined"
proof -
  have "world_ok (w\<lparr>w_stats := increment ''recieved'' 1 (w_stats w)\<rparr>)"
    using assms by (auto simp: world_ok_def stats_ok_def histories_ok_def increment_def smap.wf_put split: option.split)
  then show "world_ok (snd (snd (kcsrt_echo_run ops q (r, w))))" "fst (kcsrt_echo_run ops q (r, w)) \<noteq> Inl Undefined"
    by (simp_all add: kcsrt_echo_run_def Let_def get_or_throw_def split: option.split)
qed

lemma kcsrt_service:
  assumes "answering_service ops router world_ok risky"
  shows "answering_service ops (register_handler (kcsrtEchoHandler ops) router) world_ok risky"
proof -
  have ops: "property_tree ops" using assms by (simp add: answering_service_def)
  have "apart ''you-sent'' ''kcm-sts''" by code_simp
  then have "has_status ops (fst (snd (kcsrt_echo_run ops q (r, w))))" if "fst (kcsrt_echo_run ops q (r, w)) = Inr ()"
    for q r and w :: "('b, 'c) world"
    using that unfolding kcsrt_echo_run_def Let_def
    by (intro property_tree.catch_failures_has [OF ops])
      (auto simp: get_or_throw_def property_tree.put_has_status [OF ops] property_tree.put_status_has [OF ops]
        split: option.splits)
  then show ?thesis
    by (intro answering_service_register assms) (auto simp: kcsrtEchoHandler_def kcsrt_echo_keeps)
qed

lemma kcsrt_routed:
  assumes ops: "property_tree ops" and N: "reads_statuses N"
    and client: "start_client ops N cfg (sent_request ops app n) response = (Inr (), c0)"
    and router: "smap_find router ''echo'' = Some (kcsrtEchoHandler ops)"
  obtains r where "route_request ops router (cl_request c0) (pt_new ops, w) =
      (Inr (), (r, w\<lparr>w_stats := increment ''recieved'' 1 (w_stats w)\<rparr>))"
    "verdict ops N r = Inr ()" "pt_get ops r ''you-sent'' = Some (message_text (i_port app) n)"
proof -
  note get = property_tree.sent_request_get [OF ops]
  note named = client_names_itself(3) [OF ops client property_tree.sent_request_client [OF ops]]
  have q: "pt_get ops (cl_request c0) ''kcm-cmd'' = Some ''echo''"
    "pt_get ops (cl_request c0) ''message'' = Some (message_text (i_port app) n)"
    by (simp_all add: named get sender_paths)
  let ?r = "pt_put ops ''you-sent'' (message_text (i_port app) n) (put_status ops RQST_SUCCESS (pt_new ops))"
  have "one_part ''you-sent''" by (simp add: one_part_def)
  then have r: "pt_get ops ?r ''kcm-sts'' = Some (status_text RQST_SUCCESS)"
    "pt_get ops ?r ''you-sent'' = Some (message_text (i_port app) n)"
    by (simp_all add: property_tree.get_put_cases [OF ops] property_tree.put_status_get [OF ops])
  then have "verdict ops N ?r = Inr ()"
    using N by (simp add: verdict_def comms_status_def reads_statuses_def del: status_code.simps)
  moreover have "route_request ops router (cl_request c0) (pt_new ops, w) =
      (Inr (), (?r, w\<lparr>w_stats := increment ''recieved'' 1 (w_stats w)\<rparr>))"
    by (simp add: route_request_def q router)
      (simp add: kcsrtEchoHandler_def kcsrt_echo_run_def Let_def get_or_throw_def q catch_failures_def)
  ultimately show thesis using that r(2) by blast
qed

definition comms_failure :: "cl_error + unit \<Rightarrow> bool" where
  "comms_failure r = (case r of Inl (RetryableCommsFailure e) \<Rightarrow> True | Inl (PerminantCommsFailure e) \<Rightarrow> True | _ \<Rightarrow> False)"

lemma send_round_effect:
  fixes s :: "('d::ring_1, 'q) sender"
  assumes "send_round r s = (x, s1)"
  shows "messageCount s1 = messageCount s + 1 \<and>
    failCount s1 = failCount s + (if comms_failure r then 1 else 0) \<and>
    value_at (sender_stats s1) ''sent'' = value_at (sender_stats s) ''sent'' + (if r = Inr () then 1 else 0) \<and>
    value_at (sender_stats s1) ''fail'' = value_at (sender_stats s) ''fail'' + (if comms_failure r then 1 else 0) \<and>
    value_at (sender_stats s1) ''success'' = value_at (sender_stats s) ''success'' \<and>
    (case x of Inr u \<Rightarrow> r = Inr () \<or> comms_failure r | Inl e \<Rightarrow> r = Inl e \<and> \<not> comms_failure r) \<and>
    \<not> (r = Inr () \<and> comms_failure r)"
  using assms
  by (cases r; (cases "projl r")?)
    (auto simp: send_round_def count_failure_def comms_failure_def Let_def increment_value)

section \<open>Properties\<close>


text \<open>
  The books of the sending thread: as long as it runs, and when it ends, it has counted each
  message as sent or as failed, but the one at which an exception left it; no other exception
  than those of the two kinds of failure is caught; and it never counts a success.
\<close>

theorem sending_accounted:
  fixes s :: "('d::ring_1, 'q) sender"
  assumes "sendingProcessor ops N cfg app s rs (res, s')"
  shows "messageCount s' = messageCount s + of_nat (length rs) \<and>
    failCount s' = failCount s + of_nat (length (filter comms_failure rs)) \<and>
    value_at (sender_stats s') ''sent'' =
      value_at (sender_stats s) ''sent'' + of_nat (length (filter (\<lambda>r. r = Inr ()) rs)) \<and>
    value_at (sender_stats s') ''fail'' =
      value_at (sender_stats s) ''fail'' + of_nat (length (filter comms_failure rs)) \<and>
    value_at (sender_stats s') ''success'' = value_at (sender_stats s) ''success'' \<and>
    (case res of
       Inr u \<Rightarrow> length rs = length (filter (\<lambda>r. r = Inr ()) rs) + length (filter comms_failure rs)
     | Inl e \<Rightarrow> rs \<noteq> [] \<and> last rs = Inl e \<and> \<not> comms_failure (Inl e) \<and>
         length rs = Suc (length (filter (\<lambda>r. r = Inr ()) rs) + length (filter comms_failure rs)))"
  using assms
proof (induction s rs "(res, s')" rule: sendingProcessor.induct)
  case stops
  then show ?case by auto
next
  case (round s r s1 rs)
  then show ?case using send_round_effect [OF round(2)] by (auto split: sum.splits)
next
  case (escapes s r e)
  then show ?case using send_round_effect [OF escapes(2)] by auto
qed

lemma no_address:
  assumes "property_tree ops" "\<not> resolves N ''localhost'' (o_port app)"
    "call_ends ops N cfg (sent_request ops app n) r"
  shows "r = Inl Cl_resolve"
proof -
  note get = property_tree.sent_request_get [OF assms(1)]
  have "fst (start_client ops N cfg (sent_request ops app n) (pt_new ops)) = Inl Cl_resolve"
    using assms(2) by (simp add: start_client_def get sender_paths Let_def)
  with assms(3) show ?thesis
    by (cases "start_client ops N cfg (sent_request ops app n) (pt_new ops)") (simp add: call_ends_def)
qed

text \<open>
  The sending thread does not survive an address it cannot resolve: the first message throws an
  exception that is neither of the two kinds of failure, the thread passes it on, and the program
  does not come to the end of \<open>main\<close>.
\<close>

theorem unresolved_address_ends_program:
  assumes "property_tree ops" and "\<not> resolves N ''localhost'' (o_port app)"
    and "sendingProcessor ops N cfg app s rs (res, s')" and "rs \<noteq> []"
  shows "rs = [Inl Cl_resolve] \<and> res = Inl Cl_resolve \<and>
    value_at (sender_stats s') ''fail'' = value_at (sender_stats s) ''fail'' \<and>
    (case new_kcsrt ops h U inst port (\<not> console_mode) pr of
       (Inr (Some x), pr1) \<Rightarrow> kcsrt_main ops h U J (Options inst port console_mode) es res pr = None
     | _ \<Rightarrow> True)"
proof -
  have "rs = [Inl Cl_resolve] \<and> res = Inl Cl_resolve \<and> sender_stats s' = sender_stats s"
    using assms(3)
  proof (cases rule: sendingProcessor.cases)
    case stops
    then show ?thesis using assms(4) by simp
  next
    case (round r s1 rs1)
    have "r = Inl Cl_resolve" by (rule no_address [OF assms(1,2) round(2)])
    with round(3) show ?thesis by (simp add: send_round_def)
  next
    case (escapes r e)
    have "r = Inl Cl_resolve" by (rule no_address [OF assms(1,2) escapes(3)])
    with escapes show ?thesis by (auto simp: send_round_def)
  qed
  then show ?thesis
    by (auto simp: kcsrt_main_def run_application_def leave_kcsrt_def split: prod.split sum.split option.split)
qed

text \<open>
  C8. Two \<open>kcsrt\<close> processes: a message that the one sends while nothing breaks on the way, to one
  whose white lists admit it, is a success for the sender, which gets its own text back, and counts
  once in the receiver's \<open>recieved\<close>; nothing else of the receiver changes.
\<close>

theorem kcsrt_exchange:
  assumes ops: "property_tree ops" and json: "json_laws (json N)" and statuses: "reads_statuses N"
    and client: "start_client ops N ccfg (sent_request ops app n) response = (Inr (), c0)"
      "handle_connect N None c0 = (Inr (), c1)" "outgoing c1 = Some msg" "handle_write None c1 = (Inr (), c)"
    and peer: "remote_ip p = Some ip" "arriving p = Some msg"
    and lists: "isAllowedIp scfg ip" "isAllowedClient scfg (application_id ccfg) (application_instance ccfg)"
    and server: "smap_find router ''echo'' = Some (kcsrtEchoHandler ops)"
      "start ops (json N) scfg router p (new_connection ops, w) = (Inr (), (k, w'))" "sent k = Some reply"
  shows "fst (handle_read ops N None reply c) = Inr () \<and>
    pt_get ops (cl_response (snd (handle_read ops N None reply c))) ''you-sent'' = Some (message_text (i_port app) n) \<and>
    w' = w\<lparr>w_stats := increment ''recieved'' 1 (w_stats w)\<rparr>"
proof -
  note adm = exchange_admitted [OF ops json client(1) property_tree.sent_request_client [OF ops] client(2,3) peer,
      of scfg]
  obtain r where route: "route_request ops router (cl_request c0) (pt_new ops, w) =
      (Inr (), (r, w\<lparr>w_stats := increment ''recieved'' 1 (w_stats w)\<rparr>))"
    and r: "verdict ops N r = Inr ()" "pt_get ops r ''you-sent'' = Some (message_text (i_port app) n)"
    by (rule kcsrt_routed [OF ops statuses client(1) server(1)])
  from server(2,3) show ?thesis
  proof (cases rule: reply_tree)
    case (refused m)
    then show ?thesis using adm lists by simp
  next
    case (answered t r')
    then have "t = cl_request c0" using adm lists by simp
    then have "w' = w\<lparr>w_stats := increment ''recieved'' 1 (w_stats w)\<rparr>" "r' = r" using answered(2) route by simp_all
    then show ?thesis using handle_read_verdict [OF json_line [OF json answered(3)], of ops c] r by simp
  next
    case (failed t e r' m)
    then show ?thesis using adm lists route by simp
  qed
qed

section \<open>Witnesses\<close>

definition demo_app :: kcsrt_app where
  "demo_app = \<lparr>i_port = ''9100'', o_port = ''9200'', app_running = True\<rparr>"

definition deaf_env :: "ptree cl_env" where
  "deaf_env = demo_cl_env\<lparr>resolves := (\<lambda>host port. False)\<rparr>"

definition demo_sender :: "(int, nat) sender" where
  "demo_sender = \<lparr>messageCount = 0, failCount = 0, sender_stats = kcsrt_counters (new_keeper 0 300 12)\<rparr>"


lemma deaf_run:
  "sendingProcessor ptree_ops deaf_env (fresh_config ptree_ops ''kcsrt'' ''1'') demo_app demo_sender
     [Inl Cl_resolve] (Inl Cl_resolve, demo_sender\<lparr>messageCount := 1\<rparr>)"
proof (rule sendingProcessor.escapes)
  let ?q = "sent_request ptree_ops demo_app (messageCount demo_sender + 1)"
  have "fst (start_client ptree_ops deaf_env (fresh_config ptree_ops ''kcsrt'' ''1'') ?q (pt_new ptree_ops)) = Inl Cl_resolve"
    by code_simp
  then show "call_ends ptree_ops deaf_env (fresh_config ptree_ops ''kcsrt'' ''1'') ?q (Inl Cl_resolve)"
    by (auto simp: call_ends_def split: prod.split)
  show "send_round (Inl Cl_resolve) demo_sender = (Inl Cl_resolve, demo_sender\<lparr>messageCount := 1\<rparr>)"
    by (simp add: send_round_def demo_sender_def)
qed

lemma sending_accounted_witness:
  "\<exists>s'. sendingProcessor ptree_ops deaf_env (fresh_config ptree_ops ''kcsrt'' ''1'') demo_app demo_sender
      [Inl Cl_resolve] (Inl Cl_resolve, s') \<and> messageCount s' = 1 \<and> failCount s' = 0"
  using sending_accounted [OF deaf_run] deaf_run by (auto simp: demo_sender_def comms_failure_def)

lemma unresolved_address_ends_program_witness:
  "\<exists>s'. sendingProcessor ptree_ops deaf_env (fresh_config ptree_ops ''kcsrt'' ''1'') demo_app demo_sender
      [Inl Cl_resolve] (Inl Cl_resolve, s') \<and> value_at (sender_stats s') ''fail'' = 0"
proof -
  have deaf: "\<not> resolves deaf_env ''localhost'' (o_port demo_app)" by (simp add: deaf_env_def)
  have "value_at (sender_stats demo_sender) ''fail'' = 0" by code_simp
  with unresolved_address_ends_program [OF boost.property_tree_axioms deaf deaf_run] deaf_run show ?thesis by auto
qed

text \<open>Two processes; JSON texts are abbreviated by names.\<close>

definition kcsrt_lines :: "(ptree \<times> string) list" where
  "kcsrt_lines =
     [(node [(''kcm-cmd'', leaf ''echo''), (''kcm-hst'', leaf ''localhost''), (''kcm-prt'', leaf ''9200''),
         (''message'', leaf ''Message Count from [9100] is: 7''),
         (''kcm-client'', node [(''id'', leaf ''kcsrt''), (''instance'', leaf ''1'')])], ''Q''),
      (node [(''kcm-sts'', leaf ''0''), (''you-sent'', leaf ''Message Count from [9100] is: 7'')], ''R'')]"

definition kcsrt_env :: "ptree cl_env" where
  "kcsrt_env = demo_cl_env
     \<lparr>json := \<lparr>write_json = (\<lambda>t. map_option (\<lambda>s. s @ [newline]) (map_of kcsrt_lines t)),
               read_json = (\<lambda>s. map_of (map (\<lambda>e. (snd e, fst e)) kcsrt_lines) s)\<rparr>\<rparr>"

definition open_lists :: "ptree config" where
  "open_lists = (fresh_config ptree_ops ''kcsrt'' ''2'')\<lparr>allow_all_ip_addrs := True, allow_all_applications := True\<rparr>"

definition kcsrt_peer :: peer where
  "kcsrt_peer = \<lparr>remote_ip = Some ''127.0.0.1'', arriving = Some (''Q'' @ [newline]), writable = True\<rparr>"

lemma kcsrt_exchange_witness:
  "value_at (w_stats (snd (snd (start ptree_ops (json kcsrt_env) open_lists
     (register_handler (kcsrtEchoHandler ptree_ops) (four_handlers ptree_ops demo_henv)) kcsrt_peer
     (new_connection ptree_ops, demo_world))))) ''recieved'' = 1"
proof -
  let ?cfg = "fresh_config ptree_ops ''kcsrt'' ''1''"
  let ?router = "register_handler (kcsrtEchoHandler ptree_ops) (four_handlers ptree_ops demo_henv)"
  let ?c0 = "snd (start_client ptree_ops kcsrt_env ?cfg (sent_request ptree_ops demo_app 7) (pt_new ptree_ops))"
  let ?c1 = "snd (handle_connect kcsrt_env None ?c0)"
  have j: "json_laws (json kcsrt_env)"
    by (auto simp: json_laws_def kcsrt_env_def kcsrt_lines_def split: if_splits)
  have n: "reads_statuses kcsrt_env"
    by (simp add: reads_statuses_def kcsrt_env_def demo_cl_env_def status_text_def list_all_iff show_nat_digits)
  have c: "start_client ptree_ops kcsrt_env ?cfg (sent_request ptree_ops demo_app 7) (pt_new ptree_ops) = (Inr (), ?c0)"
    "handle_connect kcsrt_env None ?c0 = (Inr (), ?c1)" "outgoing ?c1 = Some (''Q'' @ [newline])"
    "handle_write None ?c1 = (Inr (), snd (handle_write None ?c1))"
    by code_simp+
  have p: "remote_ip kcsrt_peer = Some ''127.0.0.1''" "arriving kcsrt_peer = Some (''Q'' @ [newline])"
    by (simp_all add: kcsrt_peer_def)
  have a: "isAllowedIp open_lists ''127.0.0.1''"
    "isAllowedClient open_lists (application_id ?cfg) (application_instance ?cfg)" by code_simp+
  have h: "smap_find ?router ''echo'' = Some (kcsrtEchoHandler ptree_ops)"
    by (simp add: register_handler_def kcsrtEchoHandler_def smap_find_put)
  let ?run = "start ptree_ops (json kcsrt_env) open_lists ?router kcsrt_peer (new_connection ptree_ops, demo_world)"
  have "fst ?run = Inr ()" "sent (fst (snd ?run)) = Some (''R'' @ [newline])" by code_simp+
  then obtain k w' where s: "?run = (Inr (), (k, w'))" "sent k = Some (''R'' @ [newline])"
    by (cases ?run) auto
  have "value_at (w_stats demo_world) ''recieved'' = 0" by code_simp
  then show ?thesis
    using kcsrt_exchange [OF boost.property_tree_axioms j n c p a h s] s(1)
    by (simp add: increment_value)
qed

end
