(* ===== verification/Log_Manip.thy ===== *)
theory Log_Manip
  imports Log_Stream
begin

text \<open>
  The rest of kisscpp/logstream.hpp: the manipulators one by one, the insertion operators that
  apply them, \<open>ManipResult\<close> and the accessors; and what a whole statement
  \<open>log << error_high << src(s) << text << endl\<close> does.
\<close>

section \<open>Manipulators\<close>

text \<open>\<open>error\<close>, \<open>info\<close>, \<open>debug\<close> set the type, \<open>high\<close>, \<open>normal\<close>, \<open>low\<close> the severity.\<close>

definition manip_type :: "log_type \<Rightarrow> log_state \<Rightarrow> bool \<Rightarrow> log_state" where
  "manip_type mt s permanent = set_type mt permanent s"

definition manip_severity :: "log_severity \<Rightarrow> log_state \<Rightarrow> bool \<Rightarrow> log_state" where
  "manip_severity ms s permanent = set_severity ms permanent s"

lemma manip_steps: "manip mt ms s permanent = manip_type mt (manip_severity ms s permanent) permanent"
  by (simp add: manip_def manip_type_def manip_severity_def)

text \<open>The manipulators without an argument.\<close>

definition manip_flush :: "string \<Rightarrow> bool \<Rightarrow> log_state \<Rightarrow> log_state" where
  "manip_flush stamp openable s = log_flush stamp openable s"

definition manip_endl :: "string \<Rightarrow> bool \<Rightarrow> log_state \<Rightarrow> log_state" where
  "manip_endl stamp openable s = log_endl stamp openable s"

fun manip_radix :: "num_base \<Rightarrow> log_state \<Rightarrow> log_state" where
  "manip_radix Dec s = log_dec s"
| "manip_radix Hex s = log_hex s"
| "manip_radix Oct s = log_oct s"

definition manip_base :: "log_state \<Rightarrow> log_state" where
  "manip_base s = log_base s"

text \<open>\<open>ManipResult\<close>: a manipulator together with the argument it waits for.\<close>

record 't manip_result =
  mFunc :: "log_state \<Rightarrow> 't \<Rightarrow> log_state"
  mT :: 't

definition call_manip :: "'t manip_result \<Rightarrow> log_state \<Rightarrow> log_state" where
  "call_manip m s = mFunc m s (mT m)"

definition ent :: "string \<Rightarrow> string manip_result" where
  "ent ent_name = \<lparr>mFunc = (\<lambda>s t. manip_ent t s), mT = ent_name\<rparr>"

definition src :: "string \<Rightarrow> string manip_result" where
  "src source = \<lparr>mFunc = (\<lambda>s t. manip_src t s), mT = source\<rparr>"

section \<open>Insertion and the accessors\<close>

definition insert_level :: "(log_state \<Rightarrow> bool \<Rightarrow> log_state) \<Rightarrow> log_state \<Rightarrow> log_state" where
  "insert_level f s = f s False"

definition insert_plain :: "(log_state \<Rightarrow> log_state) \<Rightarrow> log_state \<Rightarrow> log_state" where
  "insert_plain f s = f s"

definition insert_result :: "'t manip_result \<Rightarrow> log_state \<Rightarrow> log_state" where
  "insert_result m s = call_manip m s"

definition getMessageType :: "log_sys \<Rightarrow> log_type" where
  "getMessageType sys = messageType (lssPerm sys)"

definition getSeverity :: "log_sys \<Rightarrow> log_severity" where
  "getSeverity sys = severity (lssPerm sys)"

definition getEntityName :: "log_state \<Rightarrow> string" where
  "getEntityName s =
     (if entityName (lssTemp (fst s)) \<noteq> [] then entityName (lssTemp (fst s))
      else entityName (lssPerm (snd s)))"

text \<open>The two accessors of the settings, each of which returns the other's.\<close>

definition getPermSettings :: "log_state \<Rightarrow> settings" where
  "getPermSettings s = lssTemp (fst s)"

definition getTempSettings :: "log_state \<Rightarrow> settings" where
  "getTempSettings s = lssPerm (snd s)"

definition setOutFilePath :: "string \<Rightarrow> log_sys \<Rightarrow> log_sys" where
  "setOutFilePath path sys = sys\<lparr>outFilePath := path\<rparr>"

definition setLog2consoleFlag :: "bool \<Rightarrow> log_sys \<Rightarrow> log_sys" where
  "setLog2consoleFlag b sys = sys\<lparr>log2consoleFlag := b\<rparr>"

definition setMaxBufferSize :: "u32 \<Rightarrow> log_sys \<Rightarrow> log_sys" where
  "setMaxBufferSize i sys = sys\<lparr>maxBufferSize := i\<rparr>"

section \<open>A statement\<close>

definition log_statement ::
  "string \<Rightarrow> bool \<Rightarrow> log_type \<Rightarrow> log_severity \<Rightarrow> string \<Rightarrow> string \<Rightarrow> log_state \<Rightarrow> log_state" where
  "log_statement stamp openable mt ms source v s =
     insert_plain (manip_endl stamp openable)
       (log_put v (insert_result (src source) (insert_level (manip mt ms) s)))"

lemmas statement_defs = log_statement_def insert_plain_def insert_result_def insert_level_def
  call_manip_def src_def manip_endl_def manip_src_def manip_def set_type_def set_severity_def
  set_source_def log_put_def log_endl_def

lemma do_write_settings:
  "lssTemp (fst (do_write stamp openable b s)) =
     (lssTemp (fst s))\<lparr>messageType := messageType (lssPerm (snd s)), severity := severity (lssPerm (snd s))\<rparr>"
  "all_lines (snd (do_write stamp openable b s)) = all_lines (snd (write_line stamp openable (fst s, (snd s)\<lparr>doFlush := b\<rparr>)))"
  by (auto simp: do_write_def write_line_def locked_write_def Let_def)

text \<open>
  A statement \<open>log << mt_ms << src(s) << text << endl\<close> writes the line, under the source it names
  (or the permanent one when that is empty), exactly when the type it names lies above the permanent
  type, or is that type and its severity is high enough; the permanent settings stay. The level holds
  for this one message, while the source named stays with the object for the messages to come.
\<close>

theorem log_statement_effect:
  "all_lines (snd (log_statement stamp openable mt ms source v s)) = all_lines (snd s) @
     (if getMessageType (snd s) < mt \<or> getMessageType (snd s) = mt \<and> getSeverity (snd s) \<le> ms
      then [stamp @ '' ['' @ (if source = [] then source_name (lssPerm (snd s)) else source) @ ''] : '' @
            mBuf (fst s) @ v] else []) \<and>
   lssPerm (snd (log_statement stamp openable mt ms source v s)) = lssPerm (snd s) \<and>
   getPermSettings (log_statement stamp openable mt ms source v s) =
     (getPermSettings s)\<lparr>messageType := getMessageType (snd s), severity := getSeverity (snd s),
                         source_name := source\<rparr>"
  by (cases "source = []")
    (simp_all add: statement_defs do_write_settings write_line_lines getSource_def getMessageType_def
      getSeverity_def getPermSettings_def)

end
