(* ===== verification/Kcsrt_Log.thy ===== *)
theory Kcsrt_Log
  imports Kcsrt Log_Manip
begin

text \<open>
  What the sending thread of examples/kcsrt writes to the log: the statements of
  \<open>kcsrt::sendingProcessor\<close> on its \<open>LogStream\<close> object, with the level and the text of each, for a run
  of the loop that ends because the destructor stops it. \<open>W n\<close> is the time stamp of the \<open>n\<close>-th
  statement and whether the log file can be opened then. Lines that other threads write between
  them are left out.
\<close>

section \<open>The statements\<close>

type_synonym log_moment = "string \<times> bool"

definition between_ports :: "kcsrt_app \<Rightarrow> string \<Rightarrow> log_state \<Rightarrow> log_state" where
  "between_ports app v s = log_put v (log_put (o_port app) (log_put ''->'' (log_put (i_port app) s)))"

definition end_line :: "log_moment \<Rightarrow> log_state \<Rightarrow> log_state" where
  "end_line w s = insert_plain (manip_endl (fst w) (snd w)) s"

definition flush_line :: "log_moment \<Rightarrow> log_state \<Rightarrow> log_state" where
  "flush_line w s = insert_plain (manip_flush (fst w) (snd w)) s"

definition report_start :: "log_moment \<Rightarrow> kcsrt_app \<Rightarrow> log_state \<Rightarrow> log_state" where
  "report_start w app s = flush_line w (between_ports app '' : START'' (insert_level (manip LT_INFO LS_HIGH) s))"

definition report_message ::
  "log_type \<Rightarrow> log_severity \<Rightarrow> string \<Rightarrow> log_moment \<Rightarrow> kcsrt_app \<Rightarrow> u32 \<Rightarrow> log_state \<Rightarrow> log_state" where
  "report_message mt ms v w app n s =
     end_line w (log_put_unsigned n (between_ports app v (insert_level (manip mt ms) s)))"

definition report_sending :: "log_moment \<Rightarrow> kcsrt_app \<Rightarrow> u32 \<Rightarrow> log_state \<Rightarrow> log_state" where
  "report_sending = report_message LT_DEBUG LS_NORMAL '' : Sending          : ''"

text \<open>What follows a message: sent, or failed in one of the two ways.\<close>

fun report_result :: "cl_error + unit \<Rightarrow> log_moment \<Rightarrow> kcsrt_app \<Rightarrow> u32 \<Rightarrow> log_state \<Rightarrow> log_state" where
  "report_result (Inr u) w app n s = report_message LT_DEBUG LS_NORMAL '' : Sent             : '' w app n s"
| "report_result (Inl (RetryableCommsFailure e)) w app n s =
     report_message LT_ERROR LS_NORMAL '' : Fail - Retryable : '' w app n s"
| "report_result (Inl (PerminantCommsFailure e)) w app n s =
     report_message LT_ERROR LS_NORMAL '' : Fail - Perminant : '' w app n s"
| "report_result (Inl e) w app n s = s"

fun report_rounds ::
  "(nat \<Rightarrow> log_moment) \<Rightarrow> kcsrt_app \<Rightarrow> nat \<Rightarrow> u32 \<Rightarrow> (cl_error + unit) list \<Rightarrow> log_state \<Rightarrow> log_state" where
  "report_rounds W app k n [] s = s"
| "report_rounds W app k n (r # rs) s =
     report_rounds W app (k + 2) (n + 1) rs
       (report_result r (W (k + 1)) app (n + 1) (report_sending (W k) app (n + 1) s))"

definition report_counts :: "log_moment \<Rightarrow> kcsrt_app \<Rightarrow> u32 \<Rightarrow> u32 \<Rightarrow> log_state \<Rightarrow> log_state" where
  "report_counts w app messages fails s =
     end_line w (log_put_unsigned fails (log_put '' : Fail: ''
       (log_put_unsigned messages (between_ports app '' : Sent: '' s))))"

definition report_end :: "log_moment \<Rightarrow> kcsrt_app \<Rightarrow> log_state \<Rightarrow> log_state" where
  "report_end w app s = flush_line w (between_ports app '' : END'' (insert_level (manip LT_INFO LS_HIGH) s))"

definition sender_name :: string where
  "sender_name = ''void kcsrt::sendingProcessor()''"

text \<open>The whole log of the thread, for the results \<open>rs\<close> of its messages and the counts it ends with.\<close>

definition sending_log ::
  "(nat \<Rightarrow> log_moment) \<Rightarrow> kcsrt_app \<Rightarrow> (cl_error + unit) list \<Rightarrow> ('d, 'q) sender \<Rightarrow> log_sys \<Rightarrow> log_state" where
  "sending_log W app rs s sys =
     (let k = 2 + 2 * length rs;
          l0 = report_start (W 1) app (new_log_source (fst (W 0)) (snd (W 0)) sender_name sys);
          l1 = report_rounds W app 2 0 rs l0;
          l2 = report_end (W (k + 1)) app (report_counts (W k) app (messageCount s) (failCount s) l1)
      in destroy_log (fst (W (k + 2))) (snd (W (k + 2))) l2)"

section \<open>Statements only add lines\<close>

text \<open>The object on permanent settings \<open>p\<close>, and between two statements.\<close>

definition in_use :: "settings \<Rightarrow> log_state \<Rightarrow> bool" where
  "in_use p s \<longleftrightarrow> lssPerm (snd s) = p \<and> num_base (fst s) = Dec \<and> getSource s = sender_name"

definition at_rest :: "settings \<Rightarrow> log_state \<Rightarrow> bool" where
  "at_rest p s \<longleftrightarrow> in_use p s \<and> mBuf (fst s) = [] \<and> messageType (lssTemp (fst s)) = messageType p \<and>
     severity (lssTemp (fst s)) = severity p"

definition adds_lines :: "log_state \<Rightarrow> log_state \<Rightarrow> bool" where
  "adds_lines s s' \<longleftrightarrow> (\<exists>ls. all_lines (snd s') = all_lines (snd s) @ ls)"

lemma adds_lines_refl [simp]: "adds_lines s s"
  by (simp add: adds_lines_def)

lemma adds_lines_trans: "adds_lines a b \<Longrightarrow> adds_lines b c \<Longrightarrow> adds_lines a c"
  by (auto simp: adds_lines_def)

lemma do_write_base [simp]: "num_base (fst (do_write stamp openable b s)) = num_base (fst s)"
  by (auto simp: do_write_def write_line_def locked_write_def Let_def)

lemma do_write_source: "getSource (do_write stamp openable b s) = getSource s"
  using do_write_settings(1) [of stamp openable b s] by (simp add: getSource_def)

lemma do_write_adds: "\<exists>ls. all_lines (snd (do_write stamp openable b s)) = all_lines (snd s) @ ls"
  by (simp add: do_write_settings(2) write_line_lines)

lemma put_frame [simp]:
  "snd (log_put v s) = snd s" "getSource (log_put v s) = getSource s"
  "num_base (fst (log_put v s)) = num_base (fst s)" "lssTemp (fst (log_put v s)) = lssTemp (fst s)"
  "mBuf (fst (log_put v s)) = mBuf (fst s) @ v"
  by (simp_all add: log_put_def getSource_def)

lemma put_unsigned_decimal:
  "num_base (fst s) = Dec \<Longrightarrow> log_put_unsigned (n :: u32) s = log_put (show_int (uint n)) s"
  by (simp add: log_put_unsigned_def log_put_integer_def show_integer_def)

lemma between_ports_frame [simp]:
  "snd (between_ports app v s) = snd s" "getSource (between_ports app v s) = getSource s"
  "num_base (fst (between_ports app v s)) = num_base (fst s)" "lssTemp (fst (between_ports app v s)) = lssTemp (fst s)"
  "mBuf (fst (between_ports app v s)) = mBuf (fst s) @ i_port app @ ''->'' @ o_port app @ v"
  by (simp_all add: between_ports_def)

lemma level_frame [simp]:
  "snd (insert_level (manip mt ms) s) = snd s" "getSource (insert_level (manip mt ms) s) = getSource s"
  "num_base (fst (insert_level (manip mt ms) s)) = num_base (fst s)"
  by (simp_all add: insert_level_def manip_def set_type_def set_severity_def getSource_def)

lemmas line_defs = end_line_def flush_line_def insert_plain_def manip_endl_def manip_flush_def log_endl_def log_flush_def

lemma line_ends:
  assumes "lssPerm (snd s) = p" "getSource s = sender_name" "num_base (fst s) = Dec"
  shows "at_rest p (end_line w s) \<and> adds_lines s (end_line w s)"
    and "at_rest p (flush_line w s) \<and> adds_lines s (flush_line w s)"
  using assms do_write_adds [of "fst w" "snd w" _ s]
  by (simp_all add: line_defs at_rest_def in_use_def adds_lines_def do_write_source)

lemma message_rest:
  assumes "in_use p s"
  shows "at_rest p (report_message mt ms v w app n s) \<and> adds_lines s (report_message mt ms v w app n s)"
    and "at_rest p (report_start w app s) \<and> adds_lines s (report_start w app s)"
    and "at_rest p (report_end w app s) \<and> adds_lines s (report_end w app s)"
proof -
  have rest: "lssPerm (snd s) = p" "getSource s = sender_name" "num_base (fst s) = Dec"
    using assms by (simp_all add: in_use_def)
  let ?t = "log_put (show_int (uint n)) (between_ports app v (insert_level (manip mt ms) s))"
  have "report_message mt ms v w app n s = end_line w ?t"
    using rest by (simp add: report_message_def put_unsigned_decimal)
  moreover have "adds_lines s ?t" by (simp add: adds_lines_def)
  ultimately show "at_rest p (report_message mt ms v w app n s) \<and> adds_lines s (report_message mt ms v w app n s)"
    using line_ends(1) [of ?t p w] rest adds_lines_trans by fastforce
  let ?u = "\<lambda>v. between_ports app v (insert_level (manip LT_INFO LS_HIGH) s)"
  have "adds_lines s (?u v)" for v by (simp add: adds_lines_def)
  moreover have "at_rest p (flush_line w (?u v)) \<and> adds_lines (?u v) (flush_line w (?u v))" for v
    using line_ends(2) [of "?u v" p w] rest by simp
  ultimately have "at_rest p (flush_line w (?u v)) \<and> adds_lines s (flush_line w (?u v))" for v
    using adds_lines_trans by blast
  then show "at_rest p (report_start w app s) \<and> adds_lines s (report_start w app s)"
    "at_rest p (report_end w app s) \<and> adds_lines s (report_end w app s)"
    by (simp_all add: report_start_def report_end_def)
qed

lemma rest_in_use: "at_rest p s \<Longrightarrow> in_use p s"
  by (simp add: at_rest_def)

lemma result_rest:
  assumes "at_rest p s"
  shows "at_rest p (report_result r w app n s) \<and> adds_lines s (report_result r w app n s)"
  using message_rest(1) [OF rest_in_use [OF assms]] assms
  by (cases "(r, w, app, n, s)" rule: report_result.cases) auto

lemma rounds_rest:
  "at_rest p s \<Longrightarrow> at_rest p (report_rounds W app k n rs s) \<and> adds_lines s (report_rounds W app k n rs s)"
proof (induction rs arbitrary: k n s)
  case (Cons r rs)
  let ?s1 = "report_sending (W k) app (n + 1) s"
  let ?s2 = "report_result r (W (k + 1)) app (n + 1) ?s1"
  have 1: "at_rest p ?s1" "adds_lines s ?s1" using message_rest(1) [OF rest_in_use [OF Cons.prems]] by (simp_all add: report_sending_def)
  have 2: "at_rest p ?s2" "adds_lines ?s1 ?s2" using result_rest [OF 1(1)] by simp_all
  from Cons.IH [OF 2(1)] adds_lines_trans [OF 1(2) 2(2)] show ?case by (auto intro: adds_lines_trans)
qed simp

text \<open>The line with the counts passes every level.\<close>

lemma counts_line:
  assumes "at_rest p s"
  shows "at_rest p (report_counts w app n f s)"
    and "all_lines (snd (report_counts w app n f s)) = all_lines (snd s) @
      [fst w @ '' ['' @ sender_name @ ''] : '' @ i_port app @ ''->'' @ o_port app @ '' : Sent: '' @
       show_int (uint n) @ '' : Fail: '' @ show_int (uint f)]"
proof -
  let ?t = "log_put (show_int (uint f)) (log_put '' : Fail: '' (log_put (show_int (uint n)) (between_ports app '' : Sent: '' s)))"
  have rest: "lssPerm (snd s) = p" "getSource s = sender_name" "num_base (fst s) = Dec" "mBuf (fst s) = []"
    "messageType (lssTemp (fst s)) = messageType p" "severity (lssTemp (fst s)) = severity p"
    using assms by (simp_all add: at_rest_def in_use_def)
  have eq: "report_counts w app n f s = end_line w ?t" using rest by (simp add: report_counts_def put_unsigned_decimal)
  then show "at_rest p (report_counts w app n f s)" using line_ends(1) [of ?t p w] rest by simp
  have "getSource (fst ?t, (snd ?t)\<lparr>doFlush := False\<rparr>) = getSource ?t" by (simp add: getSource_def)
  then show "all_lines (snd (report_counts w app n f s)) = all_lines (snd s) @
      [fst w @ '' ['' @ sender_name @ ''] : '' @ i_port app @ ''->'' @ o_port app @ '' : Sent: '' @
       show_int (uint n) @ '' : Fail: '' @ show_int (uint f)]"
    unfolding eq using rest by (simp add: line_defs do_write_settings(2) write_line_lines)
qed

lemma new_log_in_use:
  "in_use (lssPerm sys) (new_log_source stamp openable sender_name sys)"
  "\<exists>ls. all_lines (snd (new_log_source stamp openable sender_name sys)) = all_lines sys @ ls"
proof -
  note defs = new_log_source_def start_write_def locked_write_def manip_def set_type_def set_severity_def
    set_source_def take_perm_def getSource_def
  show "in_use (lssPerm sys) (new_log_source stamp openable sender_name sys)"
    by (simp add: in_use_def defs blank_stream_def sender_name_def)
  show "\<exists>ls. all_lines (snd (new_log_source stamp openable sender_name sys)) = all_lines sys @ ls"
    by (simp add: defs pool_line_lines)
qed

lemma destroy_adds: "mBuf (fst s) = [] \<Longrightarrow> adds_lines s (destroy_log stamp openable s)"
  by (simp add: adds_lines_def destroy_log_def end_write_def locked_write_def pool_line_lines Let_def)

text \<open>The local counters of the loop, which the log reports.\<close>

lemma sending_counters:
  fixes s :: "('d::ring_1, 'q) sender"
  assumes "sendingProcessor ops N cfg app s rs (Inr (), s')"
  shows "messageCount s' = messageCount s + of_nat (length rs) \<and>
    failCount s' = failCount s + of_nat (length (filter comms_failure rs)) \<and>
    value_at (sender_stats s') ''sent'' =
      value_at (sender_stats s) ''sent'' + of_nat (length rs) - of_nat (length (filter comms_failure rs))"
  using assms
proof (induction s rs "(Inr () :: cl_error + unit, s')" rule: sendingProcessor.induct)
  case (round s r s1 rs)
  then show ?case using send_round_effect [OF round(2)] by auto
qed auto

lemma sending_log_lines:
  "\<exists>before after. all_lines (snd (sending_log W app rs s sys)) = all_lines sys @ before @
     [fst (W (2 + 2 * length rs)) @ '' ['' @ sender_name @ ''] : '' @ i_port app @ ''->'' @ o_port app @ '' : Sent: '' @
      show_int (uint (messageCount s)) @ '' : Fail: '' @ show_int (uint (failCount s))] @ after"
proof -
  let ?k = "2 + 2 * length rs"
  let ?n = "new_log_source (fst (W 0)) (snd (W 0)) sender_name sys"
  let ?s0 = "report_start (W 1) app ?n"
  let ?s1 = "report_rounds W app 2 0 rs ?s0"
  let ?s2 = "report_counts (W ?k) app (messageCount s) (failCount s) ?s1"
  let ?s3 = "report_end (W (?k + 1)) app ?s2"
  obtain l0 where n: "all_lines (snd ?n) = all_lines sys @ l0" using new_log_in_use(2) by blast
  note 0 = message_rest(2) [OF new_log_in_use(1) [of sys "fst (W 0)" "snd (W 0)"], of "W 1" app]
  note 1 = rounds_rest [OF conjunct1 [OF 0], of W app 2 0 rs]
  note 2 = counts_line [OF conjunct1 [OF 1], of "W ?k" app "messageCount s" "failCount s"]
  note 3 = message_rest(3) [OF rest_in_use [OF 2(1)], of "W (?k + 1)" app]
  have "mBuf (fst ?s3) = []" using conjunct1 [OF 3] by (simp add: at_rest_def)
  note 4 = destroy_adds [OF this, of "fst (W (?k + 2))" "snd (W (?k + 2))"]
  obtain l1 where l1: "all_lines (snd ?s1) = all_lines (snd ?n) @ l1"
    using adds_lines_trans [OF conjunct2 [OF 0] conjunct2 [OF 1]] by (auto simp: adds_lines_def)
  obtain l2 where l2: "all_lines (snd (sending_log W app rs s sys)) = all_lines (snd ?s2) @ l2"
    using adds_lines_trans [OF conjunct2 [OF 3] 4] by (auto simp: adds_lines_def sending_log_def Let_def)
  from l2 [unfolded 2(2) l1 n] show ?thesis
    by (intro exI [of _ "l0 @ l1"] exI [of _ l2]) simp
qed

section \<open>Properties\<close>


text \<open>One message, on a connection that is refused.\<close>

lemma refused_run:
  "sendingProcessor ptree_ops demo_cl_env (fresh_config ptree_ops ''kcsrt'' ''1'') demo_app demo_sender
     [Inl (PerminantCommsFailure ''boost::asio::placeholders::error [refused]'')]
     (Inr (), snd (send_round (Inl (PerminantCommsFailure ''boost::asio::placeholders::error [refused]'')) demo_sender))"
proof -
  let ?e = "''boost::asio::placeholders::error [refused]''"
  let ?q = "sent_request ptree_ops demo_app (messageCount demo_sender + 1)"
  let ?c = "start_client ptree_ops demo_cl_env (fresh_config ptree_ops ''kcsrt'' ''1'') ?q (pt_new ptree_ops)"
  have "fst ?c = Inr ()" "phase (snd ?c) = Connecting" by code_simp+
  then have c: "?c = (Inr (), snd ?c)" "phase (snd ?c) = Connecting" by (simp_all add: prod_eq_iff)
  have "cl_steps ptree_ops demo_cl_env (Suc 0) (Running (snd ?c)) (ran (handle_connect demo_cl_env (Some ''refused'') (snd ?c)))"
    by (rule cl_steps.more [OF cl_steps.none cl_step.connected [OF c(2)]])
  then have "\<exists>n c'. cl_steps ptree_ops demo_cl_env n (Running (snd ?c)) (Threw (PerminantCommsFailure ?e) c')"
    by (auto simp: handle_connect_def)
  then have ends: "call_ends ptree_ops demo_cl_env (fresh_config ptree_ops ''kcsrt'' ''1'') ?q (Inl (PerminantCommsFailure ?e))"
    by (subst call_ends_def, subst c(1)) simp
  have "send_round (Inl (PerminantCommsFailure ?e)) demo_sender =
      (Inr (), snd (send_round (Inl (PerminantCommsFailure ?e)) demo_sender))"
    by (simp add: send_round_def Let_def)
  then show ?thesis by (rule sendingProcessor.round [OF ends _ sendingProcessor.stops])
qed


end
