(* ===== verification/Persisted_Queue.thy ===== *)
theory Persisted_Queue
  imports Streams Disk
begin

text \<open>
  Class template \<open>PersistedQueue<_qoT, _sT>\<close> (kisscpp/persisted_queue.hpp and .tpp): a FIFO
  queue whose first and last pages are in memory and whose full pages between them are files.

  \<^item> \<open>pq\<close> is the object. The pages are deques behind shared pointers, and whether
    \<open>firstPage\<close> and \<open>lastPage\<close> point to the same deque decides what every operation does, so
    pages live in a store \<open>pages\<close> indexed by addresses and the two pointers are addresses.
  \<^item> \<open>qenv\<close> holds what the code calls but does not contain: Boost's path and regular
    expression functions and the coder \<open>_sT\<close> (a template parameter; \<open>None\<close> when it throws).
  \<^item> \<open>disk\<close> is the file system. \<open>now\<close> is the value \<open>time(NULL)\<close> returns during the call.
  \<^item> A call is a function on \<open>'a pq \<times> disk\<close> into \<open>outcome\<close>: the state left behind is kept when
    it throws.
\<close>

section \<open>State\<close>

record 'a qenv =
  path_append :: "string \<Rightarrow> string \<Rightarrow> string"
  path_filename :: "string \<Rightarrow> string"
  dir_holds :: "string \<Rightarrow> string \<Rightarrow> bool"
  regex_match :: "string \<Rightarrow> string \<Rightarrow> bool"
  coder_encode :: "'a \<Rightarrow> string option"
  coder_decode :: "string \<Rightarrow> 'a option"

record 'a pq =
  shut_down :: bool
  lastSeqNum :: int
  seqNumCount :: u32
  queueName :: string
  workingDirectory :: string
  stateFilePath :: string
  maxItemsPerPage :: nat
  queueFileRegex :: string
  persistedFileNames :: "string list"
  pages :: "nat \<Rightarrow> 'a list"
  nextPage :: nat
  firstPage :: nat
  lastPage :: nat

text \<open>
  The exceptions. \<open>CoderThrew\<close> is whatever the coder throws, \<open>FilesystemError\<close> what
  \<open>boost::filesystem\<close> throws; \<open>NoReturn\<close> is no exception but a call that never ends.
\<close>

datatype qerror =
    CouldNotLoadQueueFile string
  | CouldNotWriteQueueFile string
  | QueueShutDown
  | CoderThrew
  | FilesystemError string
  | NoReturn

type_synonym 'a qstate = "'a pq \<times> disk"

definition first_items :: "'a pq \<Rightarrow> 'a list" where
  "first_items q = pages q (firstPage q)"

definition last_items :: "'a pq \<Rightarrow> 'a list" where
  "last_items q = pages q (lastPage q)"

definition set_page :: "nat \<Rightarrow> 'a list \<Rightarrow> 'a pq \<Rightarrow> 'a pq" where
  "set_page a xs q = q\<lparr>pages := (pages q)(a := xs)\<rparr>"

text \<open>\<open>new std::deque\<close>: a fresh address.\<close>

definition new_page :: "'a list \<Rightarrow> 'a pq \<Rightarrow> nat \<times> 'a pq" where
  "new_page xs q = (nextPage q, (set_page (nextPage q) xs q)\<lparr>nextPage := Suc (nextPage q)\<rparr>)"

section \<open>Page files\<close>

text \<open>The time in seconds followed by the counter, padded to four digits while it has fewer.\<close>

definition seq_text :: "int \<Rightarrow> u32 \<Rightarrow> string" where
  "seq_text t c =
     show_int t @ (if c < 1000 then ''0'' else []) @ (if c < 100 then ''0'' else []) @
     (if c < 10 then ''0'' else []) @ show_nat (unat c)"

definition seqNumber :: "int \<Rightarrow> 'a pq \<Rightarrow> string \<times> 'a pq" where
  "seqNumber now q =
     (let q' = (if lastSeqNum q = now then q\<lparr>seqNumCount := seqNumCount q + 1\<rparr>
                else q\<lparr>lastSeqNum := now, seqNumCount := 0\<rparr>)
      in (seq_text (lastSeqNum q') (seqNumCount q'), q'))"

definition page_path :: "'a qenv \<Rightarrow> 'a pq \<Rightarrow> string \<Rightarrow> string" where
  "page_path E q seq = path_append E (workingDirectory q) (queueName q @ ''_'' @ seq)"

text \<open>One line per object; the stream insertion of \<open>c_str()\<close> stops at a NUL character.\<close>

fun encode_page :: "'a qenv \<Rightarrow> 'a list \<Rightarrow> string option" where
  "encode_page E [] = Some []"
| "encode_page E (x # xs) =
     (case coder_encode E x of
        None \<Rightarrow> None
      | Some r \<Rightarrow>
          (case encode_page E xs of
             None \<Rightarrow> None
           | Some rest \<Rightarrow> Some (takeWhile (\<lambda>c. c \<noteq> nul) r @ newline # rest)))"

fun decode_records :: "'a qenv \<Rightarrow> string list \<Rightarrow> 'a list option" where
  "decode_records E [] = Some []"
| "decode_records E (r # rs) =
     (case coder_decode E r of
        None \<Rightarrow> None
      | Some x \<Rightarrow>
          (case decode_records E rs of None \<Rightarrow> None | Some xs \<Rightarrow> Some (x # xs)))"

text \<open>
  Opening creates or truncates the file and the name is listed before the objects are
  encoded, so a coder that throws leaves an empty, listed file.
\<close>

definition persistToFile ::
  "'a qenv \<Rightarrow> string \<Rightarrow> nat \<Rightarrow> 'a qstate \<Rightarrow> (qerror, unit, 'a qstate) outcome" where
  "persistToFile E seq p s =
     (let q = fst s; d = snd s; file = page_path E q seq
      in if \<not> disk_can_write d file then (Inl (CouldNotWriteQueueFile file), s)
         else
           let q' = (if seq \<noteq> ''0''
                     then q\<lparr>persistedFileNames := persistedFileNames q @ [file]\<rparr>
                     else q\<lparr>persistedFileNames := file # persistedFileNames q\<rparr>)
           in case encode_page E (pages q p) of
                None \<Rightarrow> (Inl CoderThrew, (q', disk_write file [] d))
              | Some text \<Rightarrow> (Inr (), (q', disk_write file text d)))"

text \<open>The page is read, decoded and then its file removed; the value is the page's address.\<close>

definition loadFromFile ::
  "'a qenv \<Rightarrow> string \<Rightarrow> 'a qstate \<Rightarrow> (qerror, nat, 'a qstate) outcome" where
  "loadFromFile E file s =
     (let q = fst s; d = snd s
      in case disk_read d file of
           None \<Rightarrow> (Inl (CouldNotLoadQueueFile file), s)
         | Some contents \<Rightarrow>
             (case read_lines (open_istream (Some contents)) of
                None \<Rightarrow> (Inl NoReturn, s)
              | Some records \<Rightarrow>
                  (case decode_records E records of
                     None \<Rightarrow> (Inl CoderThrew, s)
                   | Some xs \<Rightarrow>
                       if rm_ok d file
                       then (let (a, q') = new_page xs q in (Inr a, (q', disk_delete file d)))
                       else (Inl (FilesystemError file), s))))"

definition loadFrontFile :: "'a qenv \<Rightarrow> 'a qstate \<Rightarrow> (qerror, nat, 'a qstate) outcome" where
  "loadFrontFile E s =
     (let q = fst s
      in loadFromFile E (hd (persistedFileNames q))
           (q\<lparr>persistedFileNames := tl (persistedFileNames q)\<rparr>, snd s))"

definition loadBackFile :: "'a qenv \<Rightarrow> 'a qstate \<Rightarrow> (qerror, nat, 'a qstate) outcome" where
  "loadBackFile E s =
     (let q = fst s
      in loadFromFile E (last (persistedFileNames q))
           (q\<lparr>persistedFileNames := butlast (persistedFileNames q)\<rparr>, snd s))"

section \<open>Queue operations\<close>

definition push_back ::
  "'a qenv \<Rightarrow> int \<Rightarrow> 'a \<Rightarrow> 'a qstate \<Rightarrow> (qerror, unit, 'a qstate) outcome" where
  "push_back E now p s =
     (let q = fst s in
      if shut_down q then (Inl QueueShutDown, s)
      else and_then
        (if maxItemsPerPage q \<le> length (last_items q) then
           and_then
             (if lastPage q \<noteq> firstPage q
              then (let (seq, q1) = seqNumber now q
                    in persistToFile E seq (lastPage q1) (q1, snd s))
              else (Inr (), s))
             (\<lambda>_ s1. let (a, q2) = new_page [] (fst s1)
                      in (Inr (), (q2\<lparr>lastPage := a\<rparr>, snd s1)))
         else (Inr (), s))
        (\<lambda>_ s2. (Inr (),
           (set_page (lastPage (fst s2)) (last_items (fst s2) @ [p]) (fst s2), snd s2))))"

definition push_front :: "'a \<Rightarrow> 'a qstate \<Rightarrow> (qerror, unit, 'a qstate) outcome" where
  "push_front p s =
     (let q = fst s in
      if shut_down q then (Inl QueueShutDown, s)
      else (Inr (), (set_page (firstPage q) (p # first_items q) q, snd s)))"

text \<open>The block that \<open>pop_front\<close> and \<open>front\<close> begin with: refill an empty first page.\<close>

definition refill_first :: "'a qenv \<Rightarrow> 'a qstate \<Rightarrow> (qerror, unit, 'a qstate) outcome" where
  "refill_first E s =
     (let q = fst s in
      if first_items q = [] then
        if persistedFileNames q = [] then (Inr (), (q\<lparr>firstPage := lastPage q\<rparr>, snd s))
        else and_then (loadFrontFile E s)
               (\<lambda>a s1. (Inr (), ((fst s1)\<lparr>firstPage := a\<rparr>, snd s1)))
      else (Inr (), s))"

definition pop_front :: "'a qenv \<Rightarrow> 'a qstate \<Rightarrow> (qerror, 'a option, 'a qstate) outcome" where
  "pop_front E s =
     (if shut_down (fst s) then (Inl QueueShutDown, s)
      else and_then (refill_first E s)
        (\<lambda>_ s1. case first_items (fst s1) of
            [] \<Rightarrow> (Inr None, s1)
          | x # xs \<Rightarrow> (Inr (Some x), (set_page (firstPage (fst s1)) xs (fst s1), snd s1))))"

definition front :: "'a qenv \<Rightarrow> 'a qstate \<Rightarrow> (qerror, 'a option, 'a qstate) outcome" where
  "front E s =
     and_then (refill_first E s)
       (\<lambda>_ s1. case first_items (fst s1) of
           [] \<Rightarrow> (Inr None, s1)
         | x # xs \<Rightarrow> (Inr (Some x), s1))"

definition pq_empty :: "'a pq \<Rightarrow> bool" where
  "pq_empty q \<longleftrightarrow> first_items q = [] \<and> last_items q = [] \<and> persistedFileNames q = []"

definition pq_size :: "'a pq \<Rightarrow> nat" where
  "pq_size q =
     (if firstPage q = lastPage q
      then length (first_items q) + length (persistedFileNames q) * maxItemsPerPage q
      else length (first_items q) + length (last_items q) +
             length (persistedFileNames q) * maxItemsPerPage q)"

partial_function (option) clear ::
  "'a qenv \<Rightarrow> 'a qstate \<Rightarrow> (qerror, unit, 'a qstate) outcome option" where
  "clear E s =
     (if pq_empty (fst s) then Some (Inr (), s)
      else case fst (pop_front E s) of
             Inl e \<Rightarrow> Some (Inl e, snd (pop_front E s))
           | Inr x \<Rightarrow> clear E (snd (pop_front E s)))"

declare clear.simps [code]

section \<open>Shutting down\<close>

definition writeFirstAndLastPage ::
  "'a qenv \<Rightarrow> int \<Rightarrow> 'a qstate \<Rightarrow> (qerror, unit, 'a qstate) outcome" where
  "writeFirstAndLastPage E now s =
     and_then
       (if length (first_items (fst s)) > 0 then persistToFile E ''0'' (firstPage (fst s)) s
        else (Inr (), s))
       (\<lambda>_ s1. if lastPage (fst s1) \<noteq> firstPage (fst s1)
               then (let (seq, q1) = seqNumber now (fst s1)
                     in persistToFile E seq (lastPage q1) (q1, snd s1))
               else (Inr (), s1))"

text \<open>A state file that cannot be opened is not noticed; the names are dropped all the same.\<close>

definition writeStateFile :: "'a qstate \<Rightarrow> 'a qstate" where
  "writeStateFile s =
     (let q = fst s; d = snd s in
      if persistedFileNames q \<noteq> [] then
        (q\<lparr>persistedFileNames := []\<rparr>,
         if disk_can_write d (stateFilePath q)
         then disk_write (stateFilePath q) (unlines (persistedFileNames q)) d else d)
      else s)"

definition shutdown :: "'a qenv \<Rightarrow> int \<Rightarrow> 'a qstate \<Rightarrow> (qerror, unit, 'a qstate) outcome" where
  "shutdown E now s =
     and_then (writeFirstAndLastPage E now ((fst s)\<lparr>shut_down := True\<rparr>, snd s))
       (\<lambda>_ s1. (Inr (), writeStateFile s1))"

text \<open>The destructor shuts the queue down, whether or not it has been shut down before.\<close>

definition destroy_queue ::
  "'a qenv \<Rightarrow> int \<Rightarrow> 'a qstate \<Rightarrow> (qerror, unit, 'a qstate) outcome" where
  "destroy_queue E now s = shutdown E now s"

section \<open>Construction\<close>

definition stateFileExists :: "'a qstate \<Rightarrow> bool" where
  "stateFileExists s \<longleftrightarrow>
     disk_exists (snd s) (stateFilePath (fst s)) \<and>
     disk_is_regular (snd s) (stateFilePath (fst s))"

definition loadStateFile :: "'a qstate \<Rightarrow> (qerror, unit, 'a qstate) outcome" where
  "loadStateFile s =
     (let q = fst s; d = snd s in
      case read_lines (open_istream (disk_read d (stateFilePath q))) of
        None \<Rightarrow> (Inl NoReturn, s)
      | Some names \<Rightarrow>
          let q' = q\<lparr>persistedFileNames := persistedFileNames q @ names\<rparr>
          in if rm_ok d (stateFilePath q)
             then (Inr (), (q', disk_delete (stateFilePath q) d))
             else (Inl (FilesystemError (stateFilePath q)), (q', d)))"

definition dir_entries :: "'a qenv \<Rightarrow> string \<Rightarrow> disk \<Rightarrow> string list" where
  "dir_entries E dir d = filter (dir_holds E dir) (map fst (disk.entries d))"

definition loadOrphanedQueueFiles ::
  "'a qenv \<Rightarrow> 'a qstate \<Rightarrow> (qerror, unit, 'a qstate) outcome" where
  "loadOrphanedQueueFiles E s =
     (let q = fst s; d = snd s in
      if node_at d (workingDirectory q) \<noteq> Some Directory
      then (Inl (FilesystemError (workingDirectory q)), s)
      else
        let v = dir_entries E (workingDirectory q) d;
            found = filter (\<lambda>p. disk_is_regular d p \<and>
                       regex_match E (queueFileRegex q) (path_filename E p)) v
        in (Inr (),
            (if length v > 0
             then q\<lparr>persistedFileNames := sort (persistedFileNames q @ found)\<rparr> else q, d)))"

definition loadPersistedFileNames ::
  "'a qenv \<Rightarrow> 'a qstate \<Rightarrow> (qerror, unit, 'a qstate) outcome" where
  "loadPersistedFileNames E s =
     (if stateFileExists s then loadStateFile s else loadOrphanedQueueFiles E s)"

definition loadFirstAndLastPage ::
  "'a qenv \<Rightarrow> 'a qstate \<Rightarrow> (qerror, unit, 'a qstate) outcome" where
  "loadFirstAndLastPage E s =
     (let n = length (persistedFileNames (fst s)) in
      if n > 0 then
        if n = 1 then
          and_then (loadFrontFile E s)
            (\<lambda>a s1. (Inr (), ((fst s1)\<lparr>firstPage := a, lastPage := a\<rparr>, snd s1)))
        else
          and_then (loadFrontFile E s)
            (\<lambda>a s1. and_then (loadBackFile E ((fst s1)\<lparr>firstPage := a\<rparr>, snd s1))
              (\<lambda>b s2. (Inr (), ((fst s2)\<lparr>lastPage := b\<rparr>, snd s2))))
      else
        (let (a, q1) = new_page [] (fst s)
         in (Inr (), (q1\<lparr>firstPage := a, lastPage := a\<rparr>, snd s))))"

definition load_queue :: "'a qenv \<Rightarrow> 'a qstate \<Rightarrow> (qerror, unit, 'a qstate) outcome" where
  "load_queue E s = and_then (loadPersistedFileNames E s) (\<lambda>_ s1. loadFirstAndLastPage E s1)"

definition setWorkingDirectory :: "string \<Rightarrow> 'a pq \<Rightarrow> 'a pq" where
  "setWorkingDirectory wdir q = q\<lparr>workingDirectory := wdir\<rparr>"

definition makeStateFilePath :: "'a qenv \<Rightarrow> 'a pq \<Rightarrow> 'a pq" where
  "makeStateFilePath E q =
     q\<lparr>stateFilePath := path_append E (workingDirectory q) (queueName q @ ''_STATE'')\<rparr>"

declare makeStateFilePath_def [simp]

definition blank_queue :: "'a qenv \<Rightarrow> string \<Rightarrow> string \<Rightarrow> nat \<Rightarrow> 'a pq" where
  "blank_queue E name wdir maxItems =
     makeStateFilePath E
       \<lparr>shut_down = False, lastSeqNum = 0, seqNumCount = 0, queueName = name, workingDirectory = wdir,
        stateFilePath = [], maxItemsPerPage = maxItems, queueFileRegex = ''^'' @ name @ ''_[0-9]*'',
        persistedFileNames = [], pages = (\<lambda>_. []), nextPage = 0, firstPage = 0, lastPage = 0\<rparr>"

definition open_queue ::
  "'a qenv \<Rightarrow> string \<Rightarrow> string \<Rightarrow> nat \<Rightarrow> disk \<Rightarrow> (qerror, unit, 'a qstate) outcome" where
  "open_queue E name wdir maxItems d = load_queue E (blank_queue E name wdir maxItems, d)"

end
