(* ===== verification/Queue_Names.thy ===== *)
theory Queue_Names
  imports Persisted_Queue
begin

text \<open>
  Names of page files (\<open>seqNumber\<close> and the path built in \<open>persistToFile\<close>): a page's name
  determines the second and the count it was written with, so names are unique as long as the
  clock does not go back and fewer than ten thousand pages are written in a second. What the
  code relies on of Boost's path and regular expression functions is the locale \<open>queue_env\<close>.
\<close>

section \<open>Sequence numbers\<close>

definition count_text :: "u32 \<Rightarrow> string" where
  "count_text c =
     (if c < 1000 then ''0'' else []) @ (if c < 100 then ''0'' else []) @
     (if c < 10 then ''0'' else []) @ show_nat (unat c)"

lemma seq_text_count: "seq_text t c = show_int t @ count_text c"
  by (simp add: seq_text_def count_text_def)

lemma u32_less_numeral:
  "c < 1000 \<longleftrightarrow> unat (c :: u32) < 1000" "c < 100 \<longleftrightarrow> unat c < 100" "c < 10 \<longleftrightarrow> unat c < 10"
  by (simp_all add: word_less_nat_alt)

lemma length_show_nat4:
  "n < 10 \<Longrightarrow> length (show_nat n) = 1"
  "10 \<le> n \<Longrightarrow> n < 100 \<Longrightarrow> length (show_nat n) = 2"
  "100 \<le> n \<Longrightarrow> n < 1000 \<Longrightarrow> length (show_nat n) = 3"
  "1000 \<le> n \<Longrightarrow> n < 10000 \<Longrightarrow> length (show_nat n) = 4"
proof -
  show one: "n < 10 \<Longrightarrow> length (show_nat n) = 1" for n by (simp add: show_nat_single)
  show two: "10 \<le> n \<Longrightarrow> n < 100 \<Longrightarrow> length (show_nat n) = 2" for n
    using one [of "n div 10"] by (simp add: show_nat_snoc)
  show three: "100 \<le> n \<Longrightarrow> n < 1000 \<Longrightarrow> length (show_nat n) = 3" for n
    using two [of "n div 10"] by (simp add: show_nat_snoc)
  show "1000 \<le> n \<Longrightarrow> n < 10000 \<Longrightarrow> length (show_nat n) = 4" for n
    using three [of "n div 10"] by (simp add: show_nat_snoc)
qed

lemma length_count_text: "unat c < 10000 \<Longrightarrow> length (count_text c) = 4"
  using length_show_nat4 [of "unat c"]
  by (cases "unat c < 10"; cases "unat c < 100"; cases "unat c < 1000")
    (simp_all add: count_text_def u32_less_numeral)

lemma count_text_value: "digits_value (count_text c) = unat c"
  by (simp add: count_text_def)

lemma count_text_digits: "x \<in> set (count_text c) \<Longrightarrow> decimal_digit x"
  by (auto simp: count_text_def decimal_digit_def [of "CHR ''0''"] split: if_splits
      dest: show_nat_digits)

lemma seq_text_eq:
  assumes "unat c < 10000" "unat c' < 10000"
  shows "seq_text t c = seq_text t' c' \<longleftrightarrow> t = t' \<and> c = c'"
proof
  assume "seq_text t c = seq_text t' c'"
  then have "show_int t = show_int t'" "count_text c = count_text c'"
    using assms by (simp_all add: seq_text_count length_count_text append_eq_append_conv)
  then show "t = t' \<and> c = c'"
    by (metis count_text_value show_int_eq word_unat_eq_iff)
qed simp

lemma seq_text_not_zero: "unat c < 10000 \<Longrightarrow> seq_text t c \<noteq> ''0''"
  using length_count_text [of c] by (auto simp: seq_text_count append_eq_Cons_conv)

lemma seq_text_chars: "x \<in> set (seq_text t c) \<Longrightarrow> decimal_digit x \<or> x = CHR ''-''"
  by (auto simp: seq_text_count dest: show_int_chars count_text_digits)

section \<open>What the code relies on of Boost\<close>

definition file_name_ok :: "string \<Rightarrow> bool" where
  "file_name_ok n \<longleftrightarrow> n \<noteq> [] \<and> CHR ''/'' \<notin> set n"

text \<open>Characters with no special meaning in a regular expression.\<close>

definition literal_name :: "string \<Rightarrow> bool" where
  "literal_name n \<longleftrightarrow>
     n \<noteq> [] \<and> set n \<subseteq> set ''ABCDEFGHIJKLMNOPQRSTUVWXYZabcdefghijklmnopqrstuvwxyz0123456789_-''"

locale queue_env =
  fixes E :: "'a qenv"
  assumes filename_append: "file_name_ok n \<Longrightarrow> path_filename E (path_append E d n) = n"
    and append_held: "file_name_ok n \<Longrightarrow> dir_holds E d (path_append E d n)"
    and append_lines: "newline \<notin> set d \<Longrightarrow> newline \<notin> set n \<Longrightarrow> newline \<notin> set (path_append E d n)"
    and append_order: "file_name_ok m \<Longrightarrow> file_name_ok n \<Longrightarrow>
      path_append E d m \<le> path_append E d n \<longleftrightarrow> m \<le> n"
    and queue_regex: "literal_name n \<Longrightarrow> regex_match E (''^'' @ n @ ''_[0-9]*'') f \<longleftrightarrow>
      (\<exists>ds. f = n @ ''_'' @ ds \<and> list_all decimal_digit ds)"
begin

lemma append_inj:
  "file_name_ok m \<Longrightarrow> file_name_ok n \<Longrightarrow> path_append E d m = path_append E d n \<longleftrightarrow> m = n"
  by (metis filename_append)

end

text \<open>POSIX paths and the one pattern the code builds: an instance that evaluates.\<close>

definition posix_filename :: "string \<Rightarrow> string" where
  "posix_filename p = rev (takeWhile (\<lambda>c. c \<noteq> CHR ''/'') (rev p))"

definition posix_holds :: "string \<Rightarrow> string \<Rightarrow> bool" where
  "posix_holds d p \<longleftrightarrow> p = d @ ''/'' @ posix_filename p \<and> posix_filename p \<noteq> []"

definition posix_regex :: "string \<Rightarrow> string \<Rightarrow> bool" where
  "posix_regex pat f =
     (let n = drop 1 (take (length pat - 7) pat)
      in take (length n + 1) f = n @ ''_'' \<and> list_all decimal_digit (drop (length n + 1) f))"

definition posix_env :: "('a \<Rightarrow> string option) \<Rightarrow> (string \<Rightarrow> 'a option) \<Rightarrow> 'a qenv" where
  "posix_env enc dec =
     \<lparr>path_append = (\<lambda>d n. d @ ''/'' @ n), path_filename = posix_filename,
      dir_holds = posix_holds, regex_match = posix_regex,
      coder_encode = enc, coder_decode = dec\<rparr>"

lemma posix_filename_append: "CHR ''/'' \<notin> set n \<Longrightarrow> posix_filename (d @ CHR ''/'' # n) = n"
  by (simp add: posix_filename_def takeWhile_append takeWhile_notin)

lemma posix_regex_iff:
  "posix_regex (''^'' @ n @ ''_[0-9]*'') f \<longleftrightarrow>
     (\<exists>ds. f = n @ ''_'' @ ds \<and> list_all decimal_digit ds)"
proof -
  have "drop 1 (take (length (''^'' @ n @ ''_[0-9]*'') - 7) (''^'' @ n @ ''_[0-9]*'')) = n"
    by simp
  then show ?thesis
    unfolding posix_regex_def
    by (auto simp: Let_def) (metis append_take_drop_id append.assoc append_Cons append_Nil)
qed

lemma append_le_append: "(d @ m :: string) \<le> d @ n \<longleftrightarrow> m \<le> n"
  by (induction d) simp_all

interpretation posix: queue_env "posix_env enc dec" for enc dec
  by unfold_locales
    (auto simp: posix_env_def file_name_ok_def posix_filename_append posix_holds_def append_le_append
      posix_regex_iff [simplified])

end
