(* ===== verification/Queue_Contract.thy ===== *)
theory Queue_Contract
  imports Queue_Names
begin

text \<open>
  What the persisted queue promises: it is one list, \<open>contents\<close>, whatever part of it is in
  the first page, in page files or in the last page. The invariant \<open>pq_inv\<close> relates the two
  page pointers, the listed names and the disk; \<open>ready\<close> says that the clock still leaves
  fresh names for a number of further pushes.
\<close>

section \<open>Abstraction and invariant\<close>

definition file_page :: "'a qenv \<Rightarrow> disk \<Rightarrow> string \<Rightarrow> 'a list option" where
  "file_page E d p =
     (case disk_read d p of None \<Rightarrow> None | Some c \<Rightarrow> decode_records E (complete_lines c))"

definition file_items :: "'a qenv \<Rightarrow> disk \<Rightarrow> string \<Rightarrow> 'a list" where
  "file_items E d p = (case file_page E d p of None \<Rightarrow> [] | Some xs \<Rightarrow> xs)"

definition contents :: "'a qenv \<Rightarrow> 'a qstate \<Rightarrow> 'a list" where
  "contents E s =
     (let q = fst s
      in first_items q @ concat (map (file_items E (snd s)) (persistedFileNames q)) @
         (if firstPage q = lastPage q then [] else last_items q))"

text \<open>An object that its coder reads back from the line it wrote.\<close>

definition storable :: "'a qenv \<Rightarrow> 'a \<Rightarrow> bool" where
  "storable E x \<longleftrightarrow>
     (case coder_encode E x of
        None \<Rightarrow> False
      | Some r \<Rightarrow> newline \<notin> set r \<and> nul \<notin> set r \<and> coder_decode E r = Some x)"

definition disk_accessible :: "disk \<Rightarrow> bool" where
  "disk_accessible d \<longleftrightarrow> (\<forall>p. rd_ok d p \<and> rm_ok d p)"

definition good_file :: "'a qenv \<Rightarrow> disk \<Rightarrow> nat \<Rightarrow> string \<Rightarrow> bool" where
  "good_file E d n p \<longleftrightarrow>
     (case file_page E d p of
        None \<Rightarrow> False
      | Some xs \<Rightarrow> length xs = n \<and> (\<forall>x\<in>set xs. storable E x))"

definition pq_inv :: "'a qenv \<Rightarrow> 'a qstate \<Rightarrow> bool" where
  "pq_inv E s \<longleftrightarrow>
     (let q = fst s; d = snd s in
      0 < maxItemsPerPage q \<and> file_name_ok (queueName q) \<and>
      stateFilePath q = path_append E (workingDirectory q) (queueName q @ ''_STATE'') \<and>
      disk_accessible d \<and>
      distinct (persistedFileNames q) \<and>
      (\<forall>p\<in>set (persistedFileNames q). good_file E d (maxItemsPerPage q) p) \<and>
      (firstPage q = lastPage q \<longrightarrow> persistedFileNames q = []) \<and>
      (firstPage q \<noteq> lastPage q \<longrightarrow>
         last_items q \<noteq> [] \<and> length (last_items q) \<le> maxItemsPerPage q) \<and>
      (\<forall>x\<in>set (first_items q) \<union> set (last_items q). storable E x) \<and>
      firstPage q < nextPage q \<and> lastPage q < nextPage q)"

definition stamped :: "'a qenv \<Rightarrow> int \<Rightarrow> 'a pq \<Rightarrow> bool" where
  "stamped E now q \<longleftrightarrow>
     (\<forall>p\<in>set (persistedFileNames q). \<exists>t c.
        unat c < 10000 \<and> p = page_path E q (seq_text t c) \<and>
        (t < now \<or> t = lastSeqNum q \<and> c \<le> seqNumCount q))"

definition ready :: "'a qenv \<Rightarrow> nat \<Rightarrow> int \<Rightarrow> 'a qstate \<Rightarrow> bool" where
  "ready E n now s \<longleftrightarrow>
     stamped E now (fst s) \<and> lastSeqNum (fst s) \<le> now \<and> n < 10000 \<and>
     (lastSeqNum (fst s) = now \<longrightarrow> unat (seqNumCount (fst s)) + n < 10000)"

section \<open>Projections\<close>

lemma set_page_simps [simp, state_simps]:
  "shut_down (set_page a xs q) = shut_down q"
  "lastSeqNum (set_page a xs q) = lastSeqNum q"
  "seqNumCount (set_page a xs q) = seqNumCount q"
  "queueName (set_page a xs q) = queueName q"
  "workingDirectory (set_page a xs q) = workingDirectory q"
  "stateFilePath (set_page a xs q) = stateFilePath q"
  "maxItemsPerPage (set_page a xs q) = maxItemsPerPage q"
  "persistedFileNames (set_page a xs q) = persistedFileNames q"
  "nextPage (set_page a xs q) = nextPage q"
  "firstPage (set_page a xs q) = firstPage q"
  "lastPage (set_page a xs q) = lastPage q"
  "pages (set_page a xs q) = (pages q)(a := xs)"
  by (simp_all add: set_page_def)

lemma page_path_cong [simp, state_simps]:
  "page_path E (set_page a xs q) = page_path E q"
  "page_path E (q\<lparr>persistedFileNames := ps\<rparr>) = page_path E q"
  "page_path E (q\<lparr>firstPage := a\<rparr>) = page_path E q"
  "page_path E (q\<lparr>lastPage := a\<rparr>) = page_path E q"
  "page_path E (q\<lparr>nextPage := a\<rparr>) = page_path E q"
  "page_path E (q\<lparr>shut_down := b\<rparr>) = page_path E q"
  "page_path E (q\<lparr>lastSeqNum := t\<rparr>) = page_path E q"
  "page_path E (q\<lparr>seqNumCount := c\<rparr>) = page_path E q"
  by (simp_all add: page_path_def fun_eq_iff)

lemma seqNumber_state:
  "snd (seqNumber now q) = q\<lparr>lastSeqNum := now,
     seqNumCount := (if lastSeqNum q = now then seqNumCount q + 1 else 0)\<rparr>"
  by (cases q) (simp add: seqNumber_def Let_def)

lemma seqNumber_text:
  "fst (seqNumber now q) =
     seq_text now (if lastSeqNum q = now then seqNumCount q + 1 else 0)"
  by (simp add: seqNumber_def Let_def)

section \<open>Page files hold what was persisted\<close>

lemma encode_decode_page:
  "\<forall>x\<in>set xs. storable E x \<Longrightarrow>
   \<exists>t. encode_page E xs = Some t \<and> decode_records E (complete_lines t) = Some xs"
proof (induction xs)
  case (Cons x xs)
  then obtain t where t: "encode_page E xs = Some t" "decode_records E (complete_lines t) = Some xs"
    by auto
  from Cons.prems obtain r where r: "coder_encode E x = Some r" "newline \<notin> set r" "nul \<notin> set r"
    "coder_decode E r = Some x"
    by (auto simp: storable_def split: option.splits)
  with t show ?case by (simp add: takeWhile_notin complete_lines_Cons)
qed simp

lemma file_page_write:
  "rd_ok d p \<Longrightarrow> file_page E (disk_write p c d) p = decode_records E (complete_lines c)"
  by (simp add: file_page_def disk_read_write)

lemma file_page_other [simp]:
  "p \<noteq> r \<Longrightarrow> file_page E (disk_write r c d) p = file_page E d p"
  "p \<noteq> r \<Longrightarrow> file_page E (disk_delete r d) p = file_page E d p"
  by (simp_all add: file_page_def disk_read_write_other disk_read_delete_other)

lemma file_items_other [simp]:
  "p \<noteq> r \<Longrightarrow> file_items E (disk_write r c d) p = file_items E d p"
  "p \<noteq> r \<Longrightarrow> file_items E (disk_delete r d) p = file_items E d p"
  by (simp_all add: file_items_def)

lemma good_file_other [simp]:
  "p \<noteq> r \<Longrightarrow> good_file E (disk_write r c d) n p = good_file E d n p"
  "p \<noteq> r \<Longrightarrow> good_file E (disk_delete r d) n p = good_file E d n p"
  by (simp_all add: good_file_def)

lemma map_file_items_other [simp]:
  "r \<notin> set ps \<Longrightarrow> map (file_items E (disk_write r c d)) ps = map (file_items E d) ps"
  "r \<notin> set ps \<Longrightarrow> map (file_items E (disk_delete r d)) ps = map (file_items E d) ps"
  by (auto intro!: map_cong file_items_other)

lemma accessible_disk [simp]:
  "disk_accessible (disk_write p c d) = disk_accessible d"
  "disk_accessible (disk_delete p d) = disk_accessible d"
  by (simp_all add: disk_accessible_def)

lemma good_file_items:
  "good_file E d n p \<Longrightarrow> file_page E d p = Some (file_items E d p)"
  "good_file E d n p \<Longrightarrow> length (file_items E d p) = n"
  "good_file E d n p \<Longrightarrow> x \<in> set (file_items E d p) \<Longrightarrow> storable E x"
  by (auto simp: good_file_def file_items_def split: option.splits)

lemma persistToFile_ok:
  assumes "\<forall>x\<in>set (pages q p). storable E x"
    and "disk_can_write d (page_path E q seq)" "disk_accessible d"
  obtains t where
    "persistToFile E seq p (q, d) =
       (Inr (), (if seq \<noteq> ''0''
                 then q\<lparr>persistedFileNames := persistedFileNames q @ [page_path E q seq]\<rparr>
                 else q\<lparr>persistedFileNames := page_path E q seq # persistedFileNames q\<rparr>,
                 disk_write (page_path E q seq) t d))"
    "file_page E (disk_write (page_path E q seq) t d) (page_path E q seq) = Some (pages q p)"
proof -
  obtain t where t: "encode_page E (pages q p) = Some t"
    "decode_records E (complete_lines t) = Some (pages q p)"
    using encode_decode_page [OF assms(1)] by blast
  show thesis
    by (rule that [of t])
      (use t assms in \<open>simp_all add: persistToFile_def Let_def file_page_write disk_accessible_def\<close>)
qed

lemma persistToFile_refused:
  "\<not> disk_can_write d (page_path E q seq) \<Longrightarrow>
   persistToFile E seq p (q, d) = (Inl (CouldNotWriteQueueFile (page_path E q seq)), (q, d))"
  by (simp add: persistToFile_def Let_def)

lemma loadFromFile_ok:
  assumes "good_file E d n p" "disk_accessible d"
  shows "loadFromFile E p (q, d) =
    (Inr (nextPage q), (set_page (nextPage q) (file_items E d p) q)\<lparr>nextPage := Suc (nextPage q)\<rparr>,
     disk_delete p d)"
  using assms good_file_items(1) [OF assms(1)]
  by (auto simp: loadFromFile_def file_page_def read_lines_open new_page_def disk_accessible_def
      split: option.splits)

end
