(* ===== verification/Queue_Ops.thy ===== *)
theory Queue_Ops
  imports Queue_Contract
begin

text \<open>
  Every operation of the persisted queue against its contract: what it does to \<open>contents\<close>,
  that it keeps \<open>pq_inv\<close> and \<open>ready\<close>, and what it leaves when it throws.
\<close>

lemmas page_defs = first_items_def last_items_def

text \<open>The part of the state names depend on; the listed names can only get fewer.\<close>

definition names_frame :: "'a pq \<Rightarrow> 'a pq \<Rightarrow> bool" where
  "names_frame q q' \<longleftrightarrow>
     lastSeqNum q' = lastSeqNum q \<and> seqNumCount q' = seqNumCount q \<and>
     queueName q' = queueName q \<and> workingDirectory q' = workingDirectory q \<and>
     set (persistedFileNames q') \<subseteq> set (persistedFileNames q)"

lemma page_path_same:
  "queueName q' = queueName q \<Longrightarrow> workingDirectory q' = workingDirectory q \<Longrightarrow>
   page_path E q' seq = page_path E q seq"
  by (simp add: page_path_def)

lemma ready_frame: "ready E n now (q, d) \<Longrightarrow> names_frame q q' \<Longrightarrow> ready E n now (q', d')"
  unfolding ready_def stamped_def names_frame_def
  by (auto simp: page_path_same [of q' q] dest!: subsetD)

lemma ready_later: "ready E n now s \<Longrightarrow> now \<le> now' \<Longrightarrow> ready E n now' s"
  unfolding ready_def stamped_def by force

lemma ready_fewer: "ready E (Suc n) now s \<Longrightarrow> ready E n now s"
  unfolding ready_def by auto

section \<open>Refilling the first page\<close>

lemma concat_map_cong: "\<forall>x\<in>set xs. f x = g x \<Longrightarrow> concat (map f xs) = concat (map g xs)"
  by (simp cong: map_cong)

lemma contents_Nil_iff:
  assumes "pq_inv E (q, d)"
  shows "contents E (q, d) = [] \<longleftrightarrow> first_items q = [] \<and> last_items q = [] \<and> persistedFileNames q = []"
proof -
  have "file_items E d p \<noteq> []" if "p \<in> set (persistedFileNames q)" for p
    using assms that good_file_items(2) by (fastforce simp: pq_inv_def Let_def)
  then have "concat (map (file_items E d) (persistedFileNames q)) = [] \<longleftrightarrow> persistedFileNames q = []"
    by (cases "persistedFileNames q") auto
  with assms show ?thesis
    by (auto simp: contents_def pq_inv_def Let_def page_defs)
qed

lemma refill_first_ok:
  assumes inv: "pq_inv E (q, d)"
  obtains q' d' where "refill_first E (q, d) = (Inr (), (q', d'))"
    "pq_inv E (q', d')" "contents E (q', d') = contents E (q, d)" "names_frame q q'"
    "shut_down q' = shut_down q" "first_items q' = [] \<longleftrightarrow> contents E (q, d) = []"
proof (cases "first_items q = []")
  case False
  show thesis
    by (rule that [of q d])
      (use False inv in \<open>auto simp: refill_first_def names_frame_def contents_Nil_iff\<close>)
next
  case True
  show thesis
  proof (cases "persistedFileNames q")
    case Nil
    show thesis
      by (rule that [of "q\<lparr>firstPage := lastPage q\<rparr>" d])
        (use True Nil inv in \<open>auto simp: refill_first_def names_frame_def contents_def
          pq_inv_def page_defs Let_def\<close>)
  next
    case (Cons p ps)
    let ?n = "nextPage q" and ?xs = "file_items E d p"
    let ?q = "(set_page ?n ?xs (q\<lparr>persistedFileNames := ps\<rparr>))\<lparr>nextPage := Suc ?n, firstPage := ?n\<rparr>"
    from inv Cons have good: "good_file E d (maxItemsPerPage q) p" "p \<notin> set ps" "disk_accessible d"
      and ne: "lastPage q \<noteq> ?n" "firstPage q \<noteq> lastPage q"
      and others: "\<forall>r\<in>set ps. r \<noteq> p \<and> good_file E d (maxItemsPerPage q) r"
      by (auto simp: pq_inv_def Let_def)
    have "?xs \<noteq> []" "\<forall>x\<in>set ?xs. storable E x"
      using good_file_items [OF good(1)] inv by (auto simp: pq_inv_def Let_def)
    note xs = this
    show thesis
    proof (rule that [of ?q "disk_delete p d"])
      show "refill_first E (q, d) = (Inr (), (?q, disk_delete p d))"
        using True Cons good by (simp add: refill_first_def loadFrontFile_def loadFromFile_ok)
      show "pq_inv E (?q, disk_delete p d)"
        using inv Cons good others xs ne by (auto simp: pq_inv_def Let_def page_defs)
      show "contents E (?q, disk_delete p d) = contents E (q, d)"
        using True Cons good ne by (simp add: contents_def Let_def page_defs)
      show "names_frame q ?q" using Cons by (auto simp: names_frame_def)
      show "shut_down ?q = shut_down q" by simp
      show "first_items ?q = [] \<longleftrightarrow> contents E (q, d) = []"
        using xs Cons by (simp add: contents_Nil_iff [OF inv] page_defs)
    qed
  qed
qed

section \<open>Taking from the front\<close>

lemma contents_first:
  "first_items q = x # xs \<Longrightarrow> contents E (q, d) = x # contents E (set_page (firstPage q) xs q, d)"
  by (auto simp: contents_def Let_def page_defs)

lemma pq_inv_shrink_first:
  "pq_inv E (q, d) \<Longrightarrow> first_items q = x # xs \<Longrightarrow> pq_inv E (set_page (firstPage q) xs q, d)"
  by (auto simp: pq_inv_def Let_def page_defs)

lemma names_frame_trans: "names_frame q q' \<Longrightarrow> names_frame q' q'' \<Longrightarrow> names_frame q q''"
  by (auto simp: names_frame_def)

lemma pop_front_ok:
  assumes inv: "pq_inv E (q, d)" and open_q: "\<not> shut_down q"
  obtains q' d' where
    "pop_front E (q, d) =
       (Inr (case contents E (q, d) of [] \<Rightarrow> None | x # xs \<Rightarrow> Some x), (q', d'))"
    "contents E (q', d') = tl (contents E (q, d))"
    "pq_inv E (q', d')" "names_frame q q'" "\<not> shut_down q'"
proof -
  obtain q1 d1 where r: "refill_first E (q, d) = (Inr (), (q1, d1))"
    "pq_inv E (q1, d1)" "contents E (q1, d1) = contents E (q, d)" "names_frame q q1"
    "shut_down q1 = shut_down q" "first_items q1 = [] \<longleftrightarrow> contents E (q, d) = []"
    using refill_first_ok [OF inv] by metis
  show thesis
  proof (cases "first_items q1")
    case Nil
    show thesis
      by (rule that [of q1 d1]) (use r Nil open_q in \<open>simp_all add: pop_front_def\<close>)
  next
    case (Cons x xs)
    let ?q = "set_page (firstPage q1) xs q1"
    have c: "contents E (q, d) = x # contents E (?q, d1)"
      using contents_first [OF Cons] r(3) by simp
    show thesis
      by (rule that [of ?q d1])
        (use r Cons open_q pq_inv_shrink_first [OF r(2) Cons] in
          \<open>simp_all add: c pop_front_def names_frame_def\<close>)
  qed
qed

lemma pop_front_shut: "shut_down q \<Longrightarrow> pop_front E (q, d) = (Inl QueueShutDown, (q, d))"
  by (simp add: pop_front_def)

lemma front_ok:
  assumes inv: "pq_inv E (q, d)"
  obtains q' d' where
    "front E (q, d) = (Inr (case contents E (q, d) of [] \<Rightarrow> None | x # xs \<Rightarrow> Some x), (q', d'))"
    "contents E (q', d') = contents E (q, d)" "pq_inv E (q', d')" "names_frame q q'"
    "shut_down q' = shut_down q"
proof -
  obtain q1 d1 where r: "refill_first E (q, d) = (Inr (), (q1, d1))"
    "pq_inv E (q1, d1)" "contents E (q1, d1) = contents E (q, d)" "names_frame q q1"
    "shut_down q1 = shut_down q" "first_items q1 = [] \<longleftrightarrow> contents E (q, d) = []"
    using refill_first_ok [OF inv] by metis
  show thesis
    by (rule that [of q1 d1])
      (use r contents_first [of q1 _ _ E d1] in \<open>auto simp: front_def split: list.split\<close>)
qed

section \<open>Adding at the back\<close>

definition next_count :: "int \<Rightarrow> 'a pq \<Rightarrow> u32" where
  "next_count now q = (if lastSeqNum q = now then seqNumCount q + 1 else 0)"

definition tick :: "int \<Rightarrow> 'a pq \<Rightarrow> 'a pq" where
  "tick now q = q\<lparr>lastSeqNum := now, seqNumCount := next_count now q\<rparr>"

lemma seqNumber_eq: "seqNumber now q = (seq_text now (next_count now q), tick now q)"
  using seqNumber_state [of now q] seqNumber_text [of now q]
  by (cases "seqNumber now q") (simp add: next_count_def tick_def)

lemma tick_simps [simp, state_simps]:
  "shut_down (tick now q) = shut_down q" "queueName (tick now q) = queueName q"
  "workingDirectory (tick now q) = workingDirectory q"
  "stateFilePath (tick now q) = stateFilePath q"
  "maxItemsPerPage (tick now q) = maxItemsPerPage q"
  "persistedFileNames (tick now q) = persistedFileNames q" "pages (tick now q) = pages q"
  "nextPage (tick now q) = nextPage q" "firstPage (tick now q) = firstPage q"
  "lastPage (tick now q) = lastPage q" "lastSeqNum (tick now q) = now"
  "seqNumCount (tick now q) = next_count now q" "page_path E (tick now q) = page_path E q"
  by (simp_all add: tick_def)

lemma next_count_less:
  assumes "ready E (Suc n) now (q, d)"
  shows "unat (next_count now q) + n < 10000"
    and "lastSeqNum q = now \<Longrightarrow> unat (next_count now q) = Suc (unat (seqNumCount q))"
proof -
  show s: "lastSeqNum q = now \<Longrightarrow> unat (next_count now q) = Suc (unat (seqNumCount q))"
    using assms by (auto simp: next_count_def ready_def unat_word_ariths)
  show "unat (next_count now q) + n < 10000"
    using assms s by (cases "lastSeqNum q = now") (auto simp: next_count_def ready_def)
qed

lemma seq_file_name: "file_name_ok m \<Longrightarrow> file_name_ok (m @ CHR ''_'' # seq_text t c)"
  by (auto simp: file_name_ok_def decimal_digit_def dest: seq_text_chars)

context queue_env
begin

lemma page_path_eq:
  "file_name_ok (queueName q) \<Longrightarrow> unat c < 10000 \<Longrightarrow> unat c' < 10000 \<Longrightarrow>
   page_path E q (seq_text t c) = page_path E q (seq_text t' c') \<longleftrightarrow> t = t' \<and> c = c'"
  by (simp add: page_path_def append_inj seq_file_name seq_text_eq)

lemma fresh_name:
  assumes "pq_inv E (q, d)" "ready E (Suc n) now (q, d)"
  shows "page_path E q (seq_text now (next_count now q)) \<notin> set (persistedFileNames q)"
proof
  assume "page_path E q (seq_text now (next_count now q)) \<in> set (persistedFileNames q)"
  then obtain t c where tc: "unat c < 10000"
    "page_path E q (seq_text now (next_count now q)) = page_path E q (seq_text t c)"
    "t < now \<or> t = lastSeqNum q \<and> c \<le> seqNumCount q"
    using assms(2) by (auto simp: ready_def stamped_def)
  moreover have "file_name_ok (queueName q)" using assms(1) by (simp add: pq_inv_def Let_def)
  ultimately have "t = now" "c = next_count now q"
    using next_count_less(1) [OF assms(2)] page_path_eq by fastforce+
  with tc(3) next_count_less(2) [OF assms(2)] show False
    by (auto simp: word_le_nat_alt)
qed

lemma ready_tick:
  assumes "ready E (Suc n) now (q, d)"
  shows "ready E n now
    ((tick now q)\<lparr>persistedFileNames := persistedFileNames q @
       [page_path E q (seq_text now (next_count now q))]\<rparr>, d')"
    and "ready E n now (tick now q, d')"
proof -
  have old: "t < now \<or> t = now \<and> c \<le> next_count now q"
    if "t < now \<or> t = lastSeqNum q \<and> c \<le> seqNumCount q" for t c
    using that assms next_count_less(2) [OF assms]
    by (auto simp: ready_def word_le_nat_alt le_less)
  have new: "unat (next_count now q) < 10000" using next_count_less(1) [OF assms] by simp
  have "stamped E now ((tick now q)\<lparr>persistedFileNames := persistedFileNames q @
       [page_path E q (seq_text now (next_count now q))]\<rparr>)" "stamped E now (tick now q)"
    using assms old new unfolding ready_def stamped_def by fastforce+
  then show "ready E n now
    ((tick now q)\<lparr>persistedFileNames := persistedFileNames q @
       [page_path E q (seq_text now (next_count now q))]\<rparr>, d')"
    "ready E n now (tick now q, d')"
    using assms next_count_less(1) [OF assms] by (auto simp: ready_def)
qed

end

text \<open>The new last page that holds only the pushed object.\<close>

definition add_page :: "'a \<Rightarrow> 'a pq \<Rightarrow> 'a pq" where
  "add_page x q =
     (set_page (nextPage q) [x] q)\<lparr>nextPage := Suc (nextPage q), lastPage := nextPage q\<rparr>"

lemma add_page_simps [simp, state_simps]:
  "shut_down (add_page x q) = shut_down q" "lastSeqNum (add_page x q) = lastSeqNum q"
  "seqNumCount (add_page x q) = seqNumCount q" "queueName (add_page x q) = queueName q"
  "workingDirectory (add_page x q) = workingDirectory q"
  "maxItemsPerPage (add_page x q) = maxItemsPerPage q"
  "persistedFileNames (add_page x q) = persistedFileNames q"
  "stateFilePath (add_page x q) = stateFilePath q"
  "nextPage (add_page x q) = Suc (nextPage q)" "firstPage (add_page x q) = firstPage q"
  "lastPage (add_page x q) = nextPage q" "pages (add_page x q) = (pages q)(nextPage q := [x])"
  by (simp_all add: add_page_def)

lemma names_frame_add_page: "names_frame q (add_page x q)"
  by (simp add: names_frame_def)

lemma new_page_push:
  "set_page (nextPage q) [x] ((set_page (nextPage q) [] q)\<lparr>nextPage := n, lastPage := a\<rparr>) =
   (set_page (nextPage q) [x] q)\<lparr>nextPage := n, lastPage := a\<rparr>"
  by (cases q) (simp add: set_page_def)

lemma push_back_shut: "shut_down q \<Longrightarrow> push_back E now x (q, d) = (Inl QueueShutDown, (q, d))"
  by (simp add: push_back_def)

lemma push_back_room:
  "\<not> shut_down q \<Longrightarrow> length (last_items q) < maxItemsPerPage q \<Longrightarrow>
   push_back E now x (q, d) = (Inr (), (set_page (lastPage q) (last_items q @ [x]) q, d))"
  by (simp add: push_back_def)

lemma push_back_alias:
  "\<not> shut_down q \<Longrightarrow> maxItemsPerPage q \<le> length (last_items q) \<Longrightarrow> firstPage q = lastPage q \<Longrightarrow>
   push_back E now x (q, d) = (Inr (), (add_page x q, d))"
  by (simp add: push_back_def new_page_def add_page_def last_items_def new_page_push Let_def)

lemma push_back_spill:
  assumes "\<not> shut_down q" "maxItemsPerPage q \<le> length (last_items q)" "firstPage q \<noteq> lastPage q"
  shows "push_back E now x (q, d) =
    (case persistToFile E (seq_text now (next_count now q)) (lastPage q) (tick now q, d) of
       (Inl e, s1) \<Rightarrow> (Inl e, s1)
     | (Inr u, (q1, d1)) \<Rightarrow> (Inr (), (add_page x q1, d1)))"
proof -
  let ?r = "persistToFile E (seq_text now (next_count now q)) (lastPage q) (tick now q, d)"
  obtain v q1 d1 where r: "?r = (v, (q1, d1))" by (metis prod.exhaust)
  show ?thesis
    using assms r by (cases v) (auto simp: push_back_def seqNumber_eq new_page_def add_page_def
        last_items_def new_page_push Let_def)
qed

lemma pq_inv_room:
  "pq_inv E (q, d) \<Longrightarrow> storable E x \<Longrightarrow> length (last_items q) < maxItemsPerPage q \<Longrightarrow>
   pq_inv E (set_page (lastPage q) (last_items q @ [x]) q, d)"
  by (auto simp: pq_inv_def Let_def page_defs)

lemma contents_room:
  "pq_inv E (q, d) \<Longrightarrow>
   contents E (set_page (lastPage q) (last_items q @ [x]) q, d) = contents E (q, d) @ [x]"
  by (auto simp: contents_def pq_inv_def Let_def page_defs)

lemma pq_inv_alias:
  "pq_inv E (q, d) \<Longrightarrow> storable E x \<Longrightarrow> firstPage q = lastPage q \<Longrightarrow> pq_inv E (add_page x q, d)"
  by (auto simp: pq_inv_def Let_def page_defs)

lemma contents_alias:
  "pq_inv E (q, d) \<Longrightarrow> firstPage q = lastPage q \<Longrightarrow>
   contents E (add_page x q, d) = contents E (q, d) @ [x]"
  by (auto simp: contents_def pq_inv_def Let_def page_defs)

context queue_env
begin

lemma push_back_spill_refused:
  assumes "\<not> shut_down q" "maxItemsPerPage q \<le> length (last_items q)" "firstPage q \<noteq> lastPage q"
    and "\<not> disk_can_write d (page_path E q (seq_text now (next_count now q)))"
  shows "push_back E now x (q, d) =
      (Inl (CouldNotWriteQueueFile (page_path E q (seq_text now (next_count now q)))),
       (tick now q, d))"
    and "contents E (tick now q, d) = contents E (q, d)"
    and "pq_inv E (q, d) \<Longrightarrow> pq_inv E (tick now q, d)"
  using assms(4) push_back_spill [OF assms(1-3), of E now x d]
  by (simp_all add: persistToFile_refused contents_def pq_inv_def page_defs Let_def)

lemma push_back_spill_written:
  assumes inv: "pq_inv E (q, d)" and rdy: "ready E (Suc n) now (q, d)"
    and open_q: "\<not> shut_down q" and x: "storable E x"
    and full: "maxItemsPerPage q \<le> length (last_items q)" "firstPage q \<noteq> lastPage q"
    and wr: "disk_can_write d (page_path E q (seq_text now (next_count now q)))"
  obtains q' d' where "push_back E now x (q, d) = (Inr (), (q', d'))"
    "contents E (q', d') = contents E (q, d) @ [x]"
    "pq_inv E (q', d')" "ready E n now (q', d')" "\<not> shut_down q'"
proof -
  let ?fn = "page_path E q (seq_text now (next_count now q))"
  let ?q = "(tick now q)\<lparr>persistedFileNames := persistedFileNames q @ [?fn]\<rparr>"
  have len: "length (last_items q) = maxItemsPerPage q" "last_items q \<noteq> []"
    and st: "\<forall>y\<in>set (pages (tick now q) (lastPage q)). storable E y" "disk_accessible d"
    using inv full by (auto simp: pq_inv_def Let_def page_defs)
  have fresh: "?fn \<notin> set (persistedFileNames q)" by (rule fresh_name [OF inv rdy])
  have "seq_text now (next_count now q) \<noteq> ''0''"
    using next_count_less(1) [OF rdy] by (simp add: seq_text_not_zero)
  with persistToFile_ok [OF st(1), of d "seq_text now (next_count now q)"] wr st(2)
  obtain t where p: "persistToFile E (seq_text now (next_count now q)) (lastPage q)
      (tick now q, d) = (Inr (), (?q, disk_write ?fn t d))"
    and f: "file_page E (disk_write ?fn t d) ?fn = Some (last_items q)"
    by (auto simp: last_items_def)
  let ?d = "disk_write ?fn t d"
  have others: "r \<noteq> ?fn \<and> good_file E d (maxItemsPerPage q) r"
    if "r \<in> set (persistedFileNames q)" for r
    using that fresh inv by (auto simp: pq_inv_def Let_def)
  have good: "good_file E ?d (maxItemsPerPage q) ?fn"
    using f len inv by (auto simp: good_file_def pq_inv_def Let_def)
  show thesis
  proof (rule that [of "add_page x ?q" ?d])
    show "push_back E now x (q, d) = (Inr (), (add_page x ?q, ?d))"
      using push_back_spill [OF open_q full, of E now x d] p by simp
    show "contents E (add_page x ?q, ?d) = contents E (q, d) @ [x]"
      using inv full f fresh others
      by (auto simp: contents_def pq_inv_def Let_def page_defs file_items_def [of E ?d ?fn]
          intro!: concat_map_cong)
    show "pq_inv E (add_page x ?q, ?d)"
      using inv full x fresh good others by (auto simp: pq_inv_def Let_def page_defs)
    show "ready E n now (add_page x ?q, ?d)"
      by (rule ready_frame [OF ready_tick(1) [OF rdy] names_frame_add_page])
    show "\<not> shut_down (add_page x ?q)" using open_q by simp
  qed
qed

lemma push_back_cases:
  assumes inv: "pq_inv E (q, d)" and rdy: "ready E (Suc n) now (q, d)"
    and open_q: "\<not> shut_down q" and x: "storable E x"
  obtains (pushed) q' d' where "push_back E now x (q, d) = (Inr (), (q', d'))"
      "contents E (q', d') = contents E (q, d) @ [x]"
      "pq_inv E (q', d')" "ready E n now (q', d')" "\<not> shut_down q'"
  | (refused) fn where "push_back E now x (q, d) =
        (Inl (CouldNotWriteQueueFile fn), (tick now q, d))"
      "\<not> disk_can_write d fn" "contents E (tick now q, d) = contents E (q, d)"
      "pq_inv E (tick now q, d)" "ready E n now (tick now q, d)"
proof -
  consider "length (last_items q) < maxItemsPerPage q"
    | "maxItemsPerPage q \<le> length (last_items q)" "firstPage q = lastPage q"
    | "maxItemsPerPage q \<le> length (last_items q)" "firstPage q \<noteq> lastPage q" by linarith
  then show thesis
  proof cases
    case 1
    show thesis
      by (rule pushed [OF push_back_room [OF open_q 1] contents_room [OF inv]
            pq_inv_room [OF inv x 1] ready_frame [OF ready_fewer [OF rdy]]])
        (use open_q in \<open>simp_all add: names_frame_def\<close>)
  next
    case 2
    show thesis
      by (rule pushed [OF push_back_alias [OF open_q 2] contents_alias [OF inv 2(2)]
            pq_inv_alias [OF inv x 2(2)]
            ready_frame [OF ready_fewer [OF rdy] names_frame_add_page]])
        (use open_q in simp)
  next
    case 3
    show thesis
    proof (cases "disk_can_write d (page_path E q (seq_text now (next_count now q)))")
      case True
      show thesis
        by (rule push_back_spill_written [OF inv rdy open_q x 3 True]) (rule pushed)
    next
      case False
      note r = push_back_spill_refused [OF open_q 3 False]
      show thesis
        by (rule refused [OF r(1) False r(2) r(3) [OF inv] ready_tick(2) [OF rdy]])
    qed
  qed
qed

end

section \<open>Adding at the front\<close>

lemma push_front_ok:
  assumes "\<not> shut_down q"
  shows "push_front x (q, d) = (Inr (), (set_page (firstPage q) (x # first_items q) q, d))"
    and "contents E (set_page (firstPage q) (x # first_items q) q, d) = x # contents E (q, d)"
    and "pq_inv E (q, d) \<Longrightarrow> storable E x \<Longrightarrow>
      pq_inv E (set_page (firstPage q) (x # first_items q) q, d)"
  using assms by (auto simp: push_front_def contents_def pq_inv_def Let_def page_defs)

section \<open>Size and emptiness\<close>

lemma pq_empty_iff: "pq_inv E (q, d) \<Longrightarrow> pq_empty q \<longleftrightarrow> contents E (q, d) = []"
  by (simp add: contents_Nil_iff pq_empty_def conj_ac)

lemma length_concat_const: "\<forall>x\<in>set xs. length (f x) = n \<Longrightarrow> length (concat (map f xs)) = length xs * n"
  by (induction xs) auto

lemma pq_size_contents:
  assumes "pq_inv E (q, d)"
  shows "pq_size q = length (contents E (q, d))"
proof -
  have "\<forall>p\<in>set (persistedFileNames q). length (file_items E d p) = maxItemsPerPage q"
    using assms good_file_items(2) by (force simp: pq_inv_def Let_def)
  then have "length (concat (map (file_items E d) (persistedFileNames q))) =
    length (persistedFileNames q) * maxItemsPerPage q"
    by (rule length_concat_const)
  then show ?thesis by (simp add: pq_size_def contents_def)
qed

section \<open>Clearing\<close>

lemma clear_ok:
  assumes "pq_inv E (q, d)" "\<not> shut_down q"
  obtains q' d' where "clear E (q, d) = Some (Inr (), (q', d'))" "contents E (q', d') = []"
    "pq_inv E (q', d')" "names_frame q q'"
proof -
  have "\<exists>q' d'. clear E (q, d) = Some (Inr (), (q', d')) \<and> contents E (q', d') = [] \<and>
      pq_inv E (q', d') \<and> names_frame q q'"
    using assms
  proof (induction "length (contents E (q, d))" arbitrary: q d)
    case 0
    then have "pq_empty q" by (simp add: pq_empty_iff)
    then have "clear E (q, d) = Some (Inr (), (q, d))" by (subst clear.simps) simp
    with 0 show ?case by (auto simp: names_frame_def)
  next
    case (Suc n)
    obtain q1 d1 where p: "pop_front E (q, d) =
        (Inr (case contents E (q, d) of [] \<Rightarrow> None | x # xs \<Rightarrow> Some x), (q1, d1))"
      "contents E (q1, d1) = tl (contents E (q, d))" "pq_inv E (q1, d1)" "names_frame q q1"
      "\<not> shut_down q1"
      using pop_front_ok [OF Suc.prems] by metis
    have "n = length (contents E (q1, d1))" using Suc.hyps(2) p(2) by simp
    from Suc.hyps(1) [OF this p(3,5)] obtain q' d' where c:
      "clear E (q1, d1) = Some (Inr (), (q', d'))" "contents E (q', d') = []"
      "pq_inv E (q', d')" "names_frame q1 q'"
      by blast
    have "\<not> pq_empty q" using Suc.hyps(2) Suc.prems(1) by (auto simp: pq_empty_iff)
    then have "clear E (q, d) = clear E (q1, d1)"
      using p(1) by (subst clear.simps) simp
    with c names_frame_trans [OF p(4)] show ?case by auto
  qed
  with that show thesis by blast
qed

lemma clear_open:
  assumes "pq_inv E (q, d)" "\<not> shut_down q" "clear E (q, d) = Some (Inr (), (q', d'))"
  shows "\<not> shut_down q'"
  using assms
proof (induction "length (contents E (q, d))" arbitrary: q d)
  case 0
  then show ?case by (subst (asm) clear.simps) (simp add: pq_empty_iff)
next
  case (Suc n)
  obtain q1 d1 where p: "pop_front E (q, d) =
      (Inr (case contents E (q, d) of [] \<Rightarrow> None | x # xs \<Rightarrow> Some x), (q1, d1))"
    "contents E (q1, d1) = tl (contents E (q, d))" "pq_inv E (q1, d1)" "names_frame q q1"
    "\<not> shut_down q1"
    using pop_front_ok [OF Suc.prems(1,2)] by metis
  have "\<not> pq_empty q" using Suc.hyps(2) Suc.prems(1) by (auto simp: pq_empty_iff)
  then have "clear E (q1, d1) = Some (Inr (), (q', d'))"
    using Suc.prems(3) p(1) by (subst (asm) clear.simps) simp
  moreover have "n = length (contents E (q1, d1))" using Suc.hyps(2) p(2) by simp
  ultimately show ?case using Suc.hyps(1) p(3,5) by blast
qed

end
