(* ===== verification/Queue_Recovery.thy ===== *)
theory Queue_Recovery
  imports Queue_Ops
begin

text \<open>
  What survives the process: shutting a queue down and constructing it again from the same
  directory gives the same contents, and page files without a state file are picked up in
  name order. Also what a second shutdown does.
\<close>

section \<open>Loading the first and the last page\<close>

text \<open>A list of page files that can be loaded as a queue.\<close>

definition saved :: "'a qenv \<Rightarrow> disk \<Rightarrow> nat \<Rightarrow> string list \<Rightarrow> bool" where
  "saved E d n ps \<longleftrightarrow>
     disk_accessible d \<and> distinct ps \<and>
     (\<forall>p\<in>set ps. good_file E d (length (file_items E d p)) p) \<and>
     (2 \<le> length ps \<longrightarrow>
        (\<forall>p\<in>set (butlast (tl ps)). length (file_items E d p) = n) \<and>
        file_items E d (last ps) \<noteq> [] \<and> length (file_items E d (last ps)) \<le> n)"

lemma loadFrontFile_ok:
  assumes "persistedFileNames q = p # ps" "good_file E d n p" "disk_accessible d"
  shows "loadFrontFile E (q, d) =
    (Inr (nextPage q), (set_page (nextPage q) (file_items E d p)
       (q\<lparr>persistedFileNames := ps\<rparr>))\<lparr>nextPage := Suc (nextPage q)\<rparr>, disk_delete p d)"
  using assms by (simp add: loadFrontFile_def loadFromFile_ok)

lemma loadBackFile_ok:
  assumes "persistedFileNames q = ps @ [p]" "good_file E d n p" "disk_accessible d"
  shows "loadBackFile E (q, d) =
    (Inr (nextPage q), (set_page (nextPage q) (file_items E d p)
       (q\<lparr>persistedFileNames := ps\<rparr>))\<lparr>nextPage := Suc (nextPage q)\<rparr>, disk_delete p d)"
  using assms by (simp add: loadBackFile_def loadFromFile_ok)

definition queue_fields_ok :: "'a qenv \<Rightarrow> 'a pq \<Rightarrow> bool" where
  "queue_fields_ok E q \<longleftrightarrow>
     0 < maxItemsPerPage q \<and> file_name_ok (queueName q) \<and>
     stateFilePath q = path_append E (workingDirectory q) (queueName q @ ''_STATE'')"

text \<open>The fields that no loading step writes.\<close>

definition same_settings :: "'a pq \<Rightarrow> 'a pq \<Rightarrow> bool" where
  "same_settings q q' \<longleftrightarrow>
     shut_down q' = shut_down q \<and> lastSeqNum q' = lastSeqNum q \<and>
     seqNumCount q' = seqNumCount q \<and> queueName q' = queueName q \<and>
     workingDirectory q' = workingDirectory q \<and> stateFilePath q' = stateFilePath q \<and>
     maxItemsPerPage q' = maxItemsPerPage q"

lemma load_none:
  assumes "persistedFileNames q = []" "queue_fields_ok E q" "disk_accessible d"
  obtains q' where "loadFirstAndLastPage E (q, d) = (Inr (), (q', d))" "pq_inv E (q', d)"
    "contents E (q', d) = []" "persistedFileNames q' = []" "same_settings q q'"
  by (rule that [of "(set_page (nextPage q) [] q)\<lparr>nextPage := Suc (nextPage q),
      firstPage := nextPage q, lastPage := nextPage q\<rparr>"])
    (use assms in \<open>simp_all add: loadFirstAndLastPage_def new_page_def pq_inv_def contents_def
      queue_fields_ok_def page_defs same_settings_def\<close>)

lemma load_one:
  assumes "persistedFileNames q = [p]" "saved E d (maxItemsPerPage q) [p]" "queue_fields_ok E q"
  obtains q' where "loadFirstAndLastPage E (q, d) = (Inr (), (q', disk_delete p d))"
    "pq_inv E (q', disk_delete p d)" "contents E (q', disk_delete p d) = file_items E d p"
    "persistedFileNames q' = []" "same_settings q q'"
proof -
  let ?n = "nextPage q"
  let ?q = "(set_page ?n (file_items E d p) (q\<lparr>persistedFileNames := []\<rparr>))
    \<lparr>nextPage := Suc ?n, firstPage := ?n, lastPage := ?n\<rparr>"
  have good: "good_file E d (length (file_items E d p)) p" "disk_accessible d"
    using assms(2) by (simp_all add: saved_def)
  show thesis
    by (rule that [of ?q])
      (use assms good good_file_items(3) [OF good(1)] in
        \<open>simp_all add: loadFirstAndLastPage_def loadFrontFile_ok [OF assms(1) good] pq_inv_def
          contents_def queue_fields_ok_def page_defs same_settings_def\<close>)
qed

lemma load_many:
  assumes names: "persistedFileNames q = p # ps @ [r]"
    and saved: "saved E d (maxItemsPerPage q) (p # ps @ [r])" and ok: "queue_fields_ok E q"
  obtains q' d' where "loadFirstAndLastPage E (q, d) = (Inr (), (q', d'))" "pq_inv E (q', d')"
    "contents E (q', d') = concat (map (file_items E d) (p # ps @ [r]))"
    "persistedFileNames q' = ps" "same_settings q q'"
proof -
  let ?n = "nextPage q" and ?xs = "file_items E d p" and ?zs = "file_items E d r"
  let ?d = "disk_delete r (disk_delete p d)"
  let ?q1 = "(set_page ?n ?xs (q\<lparr>persistedFileNames := ps @ [r]\<rparr>))\<lparr>nextPage := Suc ?n\<rparr>"
  let ?q2 = "(set_page (Suc ?n) ?zs (?q1\<lparr>firstPage := ?n, persistedFileNames := ps\<rparr>))
    \<lparr>nextPage := Suc (Suc ?n)\<rparr>"
  let ?q = "?q2\<lparr>lastPage := Suc ?n\<rparr>"
  have good: "good_file E d (length ?xs) p" "good_file E d (length ?zs) r" "disk_accessible d"
    and ne: "p \<noteq> r" "p \<notin> set ps" "r \<notin> set ps" "distinct ps"
    and mid: "\<forall>a\<in>set ps. a \<noteq> p \<and> a \<noteq> r \<and> good_file E d (maxItemsPerPage q) a"
    and zs: "?zs \<noteq> []" "length ?zs \<le> maxItemsPerPage q"
    using saved by (auto simp: saved_def)
  have st: "\<forall>x\<in>set ?xs \<union> set ?zs. storable E x"
    using good_file_items(3) [OF good(1)] good_file_items(3) [OF good(2)] by auto
  show thesis
  proof (rule that [of ?q ?d])
    have "loadFrontFile E (q, d) = (Inr ?n, (?q1, disk_delete p d))"
      by (rule loadFrontFile_ok [OF _ good(1,3)]) (simp add: names)
    moreover have "loadBackFile E (?q1\<lparr>firstPage := ?n\<rparr>, disk_delete p d) =
        (Inr (Suc ?n), (?q2, ?d))"
      using loadBackFile_ok [of "?q1\<lparr>firstPage := ?n\<rparr>" ps r E "disk_delete p d" "length ?zs"]
        good ne by simp
    ultimately show "loadFirstAndLastPage E (q, d) = (Inr (), (?q, ?d))"
      by (simp add: loadFirstAndLastPage_def names)
    show "pq_inv E (?q, ?d)"
      using ok good ne mid zs st by (auto simp: pq_inv_def queue_fields_ok_def page_defs Let_def)
    show "contents E (?q, ?d) = concat (map (file_items E d) (p # ps @ [r]))"
      using ne by (simp add: contents_def page_defs Let_def)
    show "persistedFileNames ?q = ps" by simp
    show "same_settings q ?q" by (simp add: same_settings_def)
  qed
qed

text \<open>The three cases together: nothing listed, one page, or a first and a last one.\<close>

lemma load_pages_ok:
  assumes saved: "saved E d (maxItemsPerPage q) (persistedFileNames q)"
    and ok: "queue_fields_ok E q"
  obtains q' d' where "loadFirstAndLastPage E (q, d) = (Inr (), (q', d'))" "pq_inv E (q', d')"
    "contents E (q', d') = concat (map (file_items E d) (persistedFileNames q))"
    "set (persistedFileNames q') \<subseteq> set (butlast (tl (persistedFileNames q)))"
    "same_settings q q'"
proof -
  consider "persistedFileNames q = []" | p where "persistedFileNames q = [p]"
    | p ps r where "persistedFileNames q = p # ps @ [r]"
    by (metis list.exhaust rev_exhaust)
  then show thesis
  proof cases
    case 1
    with saved ok load_none [of q E d] that show thesis by (fastforce simp: saved_def)
  next
    case (2 p)
    with saved ok load_one [of q p E d] that show thesis by fastforce
  next
    case (3 p ps r)
    with saved ok load_many [of q p ps r E d] that show thesis
      by (metis butlast_snoc list.sel(3) order_refl)
  qed
qed

section \<open>Writing the pages at shutdown\<close>

definition unless :: "bool \<Rightarrow> 'b \<Rightarrow> 'b list" where
  "unless b x = (if b then [] else [x])"

lemma unless_simps [simp]:
  "unless True x = []" "unless False x = [x]" "map f (unless b x) = unless b (f x)"
  "unless b x = [] \<longleftrightarrow> b" "y \<in> set (unless b x) \<longleftrightarrow> \<not> b \<and> y = x" "distinct (unless b x)"
  by (simp_all add: unless_def)

definition front_names :: "'a qenv \<Rightarrow> 'a pq \<Rightarrow> string list" where
  "front_names E q = unless (first_items q = []) (page_path E q ''0'')"

definition back_names :: "'a qenv \<Rightarrow> int \<Rightarrow> 'a pq \<Rightarrow> string list" where
  "back_names E now q =
     unless (lastPage q = firstPage q) (page_path E q (seq_text now (next_count now q)))"

text \<open>The names a shutdown writes to the state file.\<close>

definition saved_names :: "'a qenv \<Rightarrow> int \<Rightarrow> 'a pq \<Rightarrow> string list" where
  "saved_names E now q = front_names E q @ persistedFileNames q @ back_names E now q"

lemma write_front_ok:
  assumes "\<forall>x\<in>set (first_items q). storable E x" "disk_can_write d (page_path E q ''0'')"
    "disk_accessible d"
  obtains d1 where
    "(if length (first_items q) > 0 then persistToFile E ''0'' (firstPage q) (q, d)
      else (Inr (), (q, d))) =
     (Inr (), (q\<lparr>persistedFileNames := front_names E q @ persistedFileNames q\<rparr>, d1))"
    "map (file_page E d1) (front_names E q) = unless (first_items q = []) (Some (first_items q))"
    "\<forall>r. r \<notin> set (front_names E q) \<longrightarrow> file_page E d1 r = file_page E d r"
    "disk_can_write d1 = disk_can_write d" "disk_accessible d1"
proof (cases "first_items q = []")
  case True
  show thesis
    by (rule that [of d]) (use True assms in \<open>simp_all add: front_names_def\<close>)
next
  case False
  obtain t where t: "persistToFile E ''0'' (firstPage q) (q, d) =
      (Inr (), (q\<lparr>persistedFileNames := page_path E q ''0'' # persistedFileNames q\<rparr>,
        disk_write (page_path E q ''0'') t d))"
    "file_page E (disk_write (page_path E q ''0'') t d) (page_path E q ''0'') = Some (first_items q)"
    using persistToFile_ok [of q "firstPage q" E d "''0''"] assms by (auto simp: first_items_def)
  show thesis
    by (rule that [of "disk_write (page_path E q ''0'') t d"])
      (use False t assms in \<open>auto simp: front_names_def fun_eq_iff\<close>)
qed

lemma write_back_ok:
  assumes "\<forall>x\<in>set (last_items q). storable E x"
    "disk_can_write d (page_path E q (seq_text now (next_count now q)))"
    "disk_accessible d" "unat (next_count now q) < 10000"
  obtains q1 d1 where
    "(if lastPage q \<noteq> firstPage q
      then (let (seq, q1) = seqNumber now q in persistToFile E seq (lastPage q1) (q1, d))
      else (Inr (), (q, d))) = (Inr (), (q1, d1))"
    "persistedFileNames q1 = persistedFileNames q @ back_names E now q"
    "stateFilePath q1 = stateFilePath q" "shut_down q1 = shut_down q"
    "map (file_page E d1) (back_names E now q) =
       unless (lastPage q = firstPage q) (Some (last_items q))"
    "\<forall>r. r \<notin> set (back_names E now q) \<longrightarrow> file_page E d1 r = file_page E d r"
    "disk_can_write d1 = disk_can_write d" "disk_accessible d1"
proof (cases "lastPage q = firstPage q")
  case True
  show thesis
    by (rule that [of q d]) (use True assms in \<open>simp_all add: back_names_def\<close>)
next
  case False
  let ?seq = "seq_text now (next_count now q)"
  have "?seq \<noteq> ''0''" using assms(4) by (simp add: seq_text_not_zero)
  then obtain t where t: "persistToFile E ?seq (lastPage q) (tick now q, d) =
      (Inr (), ((tick now q)\<lparr>persistedFileNames := persistedFileNames q @ [page_path E q ?seq]\<rparr>,
        disk_write (page_path E q ?seq) t d))"
    "file_page E (disk_write (page_path E q ?seq) t d) (page_path E q ?seq) = Some (last_items q)"
    using persistToFile_ok [of "tick now q" "lastPage q" E d ?seq] assms
    by (auto simp: last_items_def)
  show thesis
    by (rule that [of "(tick now q)\<lparr>persistedFileNames := persistedFileNames q @ [page_path E q ?seq]\<rparr>"
          "disk_write (page_path E q ?seq) t d"])
      (use False t assms in \<open>auto simp: back_names_def seqNumber_eq fun_eq_iff\<close>)
qed

context queue_env
begin

lemma zero_not_seq:
  "file_name_ok (queueName q) \<Longrightarrow> unat c < 10000 \<Longrightarrow>
   page_path E q ''0'' \<noteq> page_path E q (seq_text t c)"
  using seq_text_not_zero [of c t]
    append_inj [of "queueName q @ ''_0''" "queueName q @ CHR ''_'' # seq_text t c"]
  by (auto simp: page_path_def seq_file_name) (simp add: file_name_ok_def)

lemma state_not_page:
  assumes "file_name_ok (queueName q)" "\<forall>x\<in>set seq. decimal_digit x \<or> x = CHR ''-''"
  shows "path_append E (workingDirectory q) (queueName q @ ''_STATE'') \<noteq> page_path E q seq"
proof
  assume eq: "path_append E (workingDirectory q) (queueName q @ ''_STATE'') = page_path E q seq"
  have "file_name_ok (queueName q @ ''_STATE'')" "file_name_ok (queueName q @ ''_'' @ seq)"
    using assms by (auto simp: file_name_ok_def decimal_digit_def)
  then have "''STATE'' = seq" using eq by (simp add: page_path_def append_inj)
  then have "decimal_digit CHR ''S''" using assms(2) by auto
  then show False by (simp add: decimal_digit_def)
qed

lemma saved_names_distinct:
  assumes inv: "pq_inv E (q, d)" and rdy: "ready E (Suc n) now (q, d)"
  shows "distinct (saved_names E now q)"
    and "stateFilePath q \<notin> set (saved_names E now q)"
proof -
  have ok: "file_name_ok (queueName q)" "distinct (persistedFileNames q)"
    and state: "stateFilePath q = path_append E (workingDirectory q) (queueName q @ ''_STATE'')"
    using inv by (simp_all add: pq_inv_def Let_def)
  have names: "\<exists>t c. unat c < 10000 \<and> p = page_path E q (seq_text t c)"
    if "p \<in> set (persistedFileNames q)" for p
    using rdy that by (simp add: ready_def stamped_def) blast
  have cnt: "unat (next_count now q) < 10000" using next_count_less(1) [OF rdy] by simp
  have "page_path E q ''0'' \<notin> set (persistedFileNames q)"
    using names zero_not_seq [OF ok(1)] by metis
  then show "distinct (saved_names E now q)"
    using ok fresh_name [OF inv rdy] zero_not_seq [OF ok(1) cnt]
    by (auto simp: saved_names_def front_names_def back_names_def)
  have "stateFilePath q \<noteq> page_path E q (seq_text t c)" for t c
    unfolding state by (rule state_not_page [OF ok(1)]) (simp add: seq_text_chars)
  moreover have "stateFilePath q \<noteq> page_path E q ''0''"
    unfolding state by (rule state_not_page [OF ok(1)]) (simp add: decimal_digit_def)
  ultimately show "stateFilePath q \<notin> set (saved_names E now q)"
    using names [of "stateFilePath q"]
    by (auto simp: saved_names_def front_names_def back_names_def)
qed

text \<open>What the three groups of files hold after the pages have been written.\<close>

lemma writeFirstAndLastPage_ok:
  assumes inv: "pq_inv E (q, d)" and rdy: "ready E (Suc n) now (q, d)"
    and wr: "disk_can_write d (page_path E q ''0'')"
      "disk_can_write d (page_path E q (seq_text now (next_count now q)))"
  obtains q1 d1 where "writeFirstAndLastPage E now (q, d) = (Inr (), (q1, d1))"
    "persistedFileNames q1 = saved_names E now q"
    "stateFilePath q1 = stateFilePath q" "shut_down q1 = shut_down q"
    "disk_can_write d1 = disk_can_write d" "disk_accessible d1"
    "map (file_page E d1) (saved_names E now q) =
       unless (first_items q = []) (Some (first_items q)) @
       map (file_page E d) (persistedFileNames q) @
       unless (lastPage q = firstPage q) (Some (last_items q))"
proof -
  have st: "\<forall>x\<in>set (first_items q). storable E x" "\<forall>x\<in>set (last_items q). storable E x"
    "disk_accessible d" "file_name_ok (queueName q)"
    using inv by (auto simp: pq_inv_def Let_def)
  have cnt: "unat (next_count now q) < 10000" using next_count_less(1) [OF rdy] by simp
  let ?q = "q\<lparr>persistedFileNames := front_names E q @ persistedFileNames q\<rparr>"
  have same: "first_items ?q = first_items q" "last_items ?q = last_items q"
    "next_count now ?q = next_count now q" "back_names E now ?q = back_names E now q"
    by (simp_all add: page_defs next_count_def back_names_def)
  obtain d1 where a: "(if length (first_items q) > 0 then persistToFile E ''0'' (firstPage q) (q, d)
      else (Inr (), (q, d))) = (Inr (), (?q, d1))"
    "map (file_page E d1) (front_names E q) = unless (first_items q = []) (Some (first_items q))"
    "\<forall>r. r \<notin> set (front_names E q) \<longrightarrow> file_page E d1 r = file_page E d r"
    "disk_can_write d1 = disk_can_write d" "disk_accessible d1"
    by (rule write_front_ok [OF st(1) wr(1) st(3)])
  have pre: "\<forall>x\<in>set (last_items ?q). storable E x"
    "disk_can_write d1 (page_path E ?q (seq_text now (next_count now ?q)))"
    "unat (next_count now ?q) < 10000"
    using st(2) wr(2) a(4) cnt by (simp_all add: same)
  obtain q2 d2 where b: "(if lastPage ?q \<noteq> firstPage ?q
      then (let (seq, q1) = seqNumber now ?q in persistToFile E seq (lastPage q1) (q1, d1))
      else (Inr (), (?q, d1))) = (Inr (), (q2, d2))"
    "persistedFileNames q2 = persistedFileNames ?q @ back_names E now ?q"
    "stateFilePath q2 = stateFilePath ?q" "shut_down q2 = shut_down ?q"
    "map (file_page E d2) (back_names E now ?q) =
       unless (lastPage ?q = firstPage ?q) (Some (last_items ?q))"
    "\<forall>r. r \<notin> set (back_names E now ?q) \<longrightarrow> file_page E d2 r = file_page E d1 r"
    "disk_can_write d2 = disk_can_write d1" "disk_accessible d2"
    by (rule write_back_ok [OF pre(1,2) a(5) pre(3)])
  note b = b(1) b(2-6) [unfolded same] b(7-8)
  have dist: "distinct (front_names E q @ persistedFileNames q @ back_names E now q)"
    using saved_names_distinct(1) [OF inv rdy] by (simp add: saved_names_def)
  have "map (file_page E d2) (front_names E q) = map (file_page E d1) (front_names E q)"
    "map (file_page E d2) (persistedFileNames q) = map (file_page E d) (persistedFileNames q)"
    using dist a(3) b(6) by (auto intro!: map_cong simp: disjoint_iff)
  moreover have "writeFirstAndLastPage E now (q, d) = (Inr (), (q2, d2))"
    by (simp only: writeFirstAndLastPage_def fst_conv snd_conv a(1) and_then_simps b(1))
  ultimately show thesis
    using that [of q2 d2] a b by (simp add: saved_names_def)
qed

lemma map_file_page_items:
  "map (file_page E d) ps = map Some xss \<Longrightarrow> map (file_items E d) ps = xss"
  by (induction ps arbitrary: xss) (auto simp: file_items_def)

lemma shutdown_ok:
  assumes inv: "pq_inv E (q, d)" and rdy: "ready E (Suc n) now (q, d)"
    and ne: "contents E (q, d) \<noteq> []"
    and wr: "disk_can_write d (page_path E q ''0'')" "disk_can_write d (stateFilePath q)"
      "disk_can_write d (page_path E q (seq_text now (next_count now q)))"
  obtains q1 d1 where "shutdown E now (q, d) = (Inr (), (q1, d1))" "shut_down q1"
    "disk_read d1 (stateFilePath q) = Some (unlines (saved_names E now q))"
    "disk_is_regular d1 (stateFilePath q)" "disk_accessible d1"
    "map (file_items E (disk_delete (stateFilePath q) d1)) (saved_names E now q) =
       unless (first_items q = []) (first_items q) @
       map (file_items E d) (persistedFileNames q) @
       unless (lastPage q = firstPage q) (last_items q)"
    "\<forall>p\<in>set (saved_names E now q).
       file_page E (disk_delete (stateFilePath q) d1) p \<noteq> None"
proof -
  let ?q = "q\<lparr>shut_down := True\<rparr>"
  have inv': "pq_inv E (?q, d)" and rdy': "ready E (Suc n) now (?q, d)"
    using inv rdy by (auto simp: pq_inv_def page_defs Let_def ready_def stamped_def)
  have same: "saved_names E now ?q = saved_names E now q" "first_items ?q = first_items q"
    "last_items ?q = last_items q" "next_count now ?q = next_count now q"
    by (simp_all add: saved_names_def front_names_def back_names_def page_defs next_count_def)
  obtain q1 d1 where w: "writeFirstAndLastPage E now (?q, d) = (Inr (), (q1, d1))"
    "persistedFileNames q1 = saved_names E now q"
    "stateFilePath q1 = stateFilePath q" "shut_down q1"
    "disk_can_write d1 = disk_can_write d" "disk_accessible d1"
    "map (file_page E d1) (saved_names E now q) =
       unless (first_items q = []) (Some (first_items q)) @
       map (file_page E d) (persistedFileNames q) @
       unless (lastPage q = firstPage q) (Some (last_items q))"
    using writeFirstAndLastPage_ok [OF inv' rdy'] wr same by auto
  have nonempty: "saved_names E now q \<noteq> []"
    using ne contents_Nil_iff [OF inv] by (auto simp: saved_names_def front_names_def back_names_def
        page_defs)
  let ?xss = "unless (first_items q = []) (first_items q) @
       map (file_items E d) (persistedFileNames q) @
       unless (lastPage q = firstPage q) (last_items q)"
  have "map (file_page E d) (persistedFileNames q) =
      map Some (map (file_items E d) (persistedFileNames q))"
    using inv by (auto simp: pq_inv_def Let_def good_file_items(1))
  with w(7) have pages: "map (file_page E d1) (saved_names E now q) = map Some ?xss" by simp
  let ?d = "disk_write (stateFilePath q) (unlines (saved_names E now q)) d1"
  have other: "file_page E (disk_delete (stateFilePath q) ?d) p = file_page E d1 p"
    if "p \<in> set (saved_names E now q)" for p
  proof -
    have "p \<noteq> stateFilePath q" using that saved_names_distinct(2) [OF inv rdy] by auto
    then show ?thesis by simp
  qed
  then have same_pages: "map (file_page E (disk_delete (stateFilePath q) ?d)) (saved_names E now q) =
      map Some ?xss"
    using pages by (metis (no_types, lifting) map_cong)
  show thesis
  proof (rule that [of "q1\<lparr>persistedFileNames := []\<rparr>" ?d])
    show "shutdown E now (q, d) = (Inr (), (q1\<lparr>persistedFileNames := []\<rparr>, ?d))"
      using w nonempty wr by (simp add: shutdown_def writeStateFile_def Let_def)
    show "map (file_items E (disk_delete (stateFilePath q) ?d)) (saved_names E now q) = ?xss"
      by (rule map_file_page_items [OF same_pages])
    show "\<forall>p\<in>set (saved_names E now q). file_page E (disk_delete (stateFilePath q) ?d) p \<noteq> None"
    proof
      fix p assume "p \<in> set (saved_names E now q)"
      then have "file_page E (disk_delete (stateFilePath q) ?d) p \<in> set (map Some ?xss)"
        unfolding same_pages [symmetric] by simp
      then show "file_page E (disk_delete (stateFilePath q) ?d) p \<noteq> None" by auto
    qed
  qed (use w in \<open>simp_all add: disk_accessible_def disk_read_def disk_is_regular_def\<close>)
qed

text \<open>The saved files form a loadable queue with the contents the queue had.\<close>

lemma saved_names_shape:
  assumes "firstPage q = lastPage q \<longrightarrow> persistedFileNames q = []"
  shows "set (butlast (tl (saved_names E now q))) \<subseteq> set (persistedFileNames q)"
    and "2 \<le> length (saved_names E now q) \<Longrightarrow> lastPage q \<noteq> firstPage q"
  using assms
  by (cases "persistedFileNames q"; auto simp: saved_names_def front_names_def back_names_def
      unless_def butlast_append split: if_splits)+

lemma saved_groups:
  assumes "map f (saved_names E now q) =
    unless (first_items q = []) x @ map g (persistedFileNames q) @ unless (lastPage q = firstPage q) z"
  shows "\<forall>p\<in>set (persistedFileNames q). f p = g p"
    and "lastPage q \<noteq> firstPage q \<Longrightarrow> f (last (saved_names E now q)) = z"
  using assms by (auto simp: saved_names_def front_names_def back_names_def unless_def
      split: if_splits)

lemma saved_ok:
  assumes inv: "pq_inv E (q, d)" and rdy: "ready E (Suc n) now (q, d)"
    and acc: "disk_accessible d'"
    and items: "map (file_items E d') (saved_names E now q) =
       unless (first_items q = []) (first_items q) @ map (file_items E d) (persistedFileNames q) @
       unless (lastPage q = firstPage q) (last_items q)"
    and pages: "\<forall>p\<in>set (saved_names E now q). file_page E d' p \<noteq> None"
  shows "saved E d' (maxItemsPerPage q) (saved_names E now q)"
    and "concat (map (file_items E d') (saved_names E now q)) = contents E (q, d)"
proof -
  have shape: "firstPage q = lastPage q \<longrightarrow> persistedFileNames q = []"
    and lens: "\<forall>p\<in>set (persistedFileNames q). length (file_items E d p) = maxItemsPerPage q"
    and lst: "lastPage q \<noteq> firstPage q \<Longrightarrow>
      last_items q \<noteq> [] \<and> length (last_items q) \<le> maxItemsPerPage q"
    and st: "\<forall>x\<in>set (contents E (q, d)). storable E x"
    using inv good_file_items(2,3)
    by (fastforce simp: pq_inv_def Let_def contents_def split: if_splits)+
  show c: "concat (map (file_items E d') (saved_names E now q)) = contents E (q, d)"
    by (simp add: items) (auto simp: contents_def unless_def)
  have "good_file E d' (length (file_items E d' p)) p" if p: "p \<in> set (saved_names E now q)" for p
  proof -
    obtain xs where xs: "file_page E d' p = Some xs" using pages p by blast
    then have "set xs \<subseteq> set (concat (map (file_items E d') (saved_names E now q)))"
      using p by (force simp: file_items_def)
    with st c xs show ?thesis by (auto simp: good_file_def file_items_def)
  qed
  moreover have "\<forall>p\<in>set (butlast (tl (saved_names E now q))).
      length (file_items E d' p) = maxItemsPerPage q"
    using saved_names_shape(1) [OF shape] saved_groups(1) [OF items] lens by fastforce
  ultimately show "saved E d' (maxItemsPerPage q) (saved_names E now q)"
    using acc saved_names_distinct(1) [OF inv rdy] saved_names_shape(2) [OF shape]
      saved_groups(2) [OF items] lst
    by (auto simp: saved_def)
qed

lemma page_path_lines:
  "newline \<notin> set (workingDirectory q) \<Longrightarrow> newline \<notin> set (queueName q) \<Longrightarrow>
   newline \<notin> set seq \<Longrightarrow> newline \<notin> set (page_path E q seq)"
  by (simp add: page_path_def append_lines)

lemma saved_names_lines:
  assumes "newline \<notin> set (workingDirectory q)" "newline \<notin> set (queueName q)"
    and "ready E n now (q, d)"
  shows "\<forall>p\<in>set (saved_names E now q). newline \<notin> set p"
proof -
  have "newline \<notin> set (seq_text t c)" for t c
    using seq_text_chars [of newline t c] by (auto simp: decimal_digit_def)
  then have "newline \<notin> set (page_path E q (seq_text t c))" for t c
    using assms page_path_lines by blast
  with assms page_path_lines [of q "''0''"] show ?thesis
    by (auto simp: saved_names_def front_names_def back_names_def ready_def stamped_def)
qed

lemma loadStateFile_ok:
  assumes "disk_read d (stateFilePath q) = Some (unlines ps)" "\<forall>p\<in>set ps. newline \<notin> set p"
    "disk_accessible d"
  shows "loadStateFile (q, d) =
    (Inr (), (q\<lparr>persistedFileNames := persistedFileNames q @ ps\<rparr>, disk_delete (stateFilePath q) d))"
  using assms by (simp add: loadStateFile_def read_lines_open complete_lines_unlines
      disk_accessible_def Let_def)

theorem shutdown_reopen:
  assumes inv: "pq_inv E (q, d)" and rdy: "ready E (Suc n) now (q, d)"
    and ne: "contents E (q, d) \<noteq> []"
    and wr: "disk_can_write d (page_path E q ''0'')" "disk_can_write d (stateFilePath q)"
      "disk_can_write d (page_path E q (seq_text now (next_count now q)))"
    and lines: "newline \<notin> set (workingDirectory q)" "newline \<notin> set (queueName q)"
  obtains q1 d1 q2 d2 where "shutdown E now (q, d) = (Inr (), (q1, d1))"
    "open_queue E (queueName q) (workingDirectory q) (maxItemsPerPage q) d1 = (Inr (), (q2, d2))"
    "contents E (q2, d2) = contents E (q, d)" "pq_inv E (q2, d2)" "\<not> shut_down q2"
    "\<And>now' m. now < now' \<Longrightarrow> 0 \<le> now' \<Longrightarrow> m < 10000 \<Longrightarrow> ready E m now' (q2, d2)"
proof -
  let ?L = "saved_names E now q" and ?M = "maxItemsPerPage q"
  let ?b = "blank_queue E (queueName q) (workingDirectory q) ?M"
  let ?l = "?b\<lparr>persistedFileNames := ?L\<rparr>"
  obtain q1 d1 where s: "shutdown E now (q, d) = (Inr (), (q1, d1))" "shut_down q1"
    "disk_read d1 (stateFilePath q) = Some (unlines ?L)"
    "disk_is_regular d1 (stateFilePath q)" "disk_accessible d1"
    "map (file_items E (disk_delete (stateFilePath q) d1)) ?L =
       unless (first_items q = []) (first_items q) @
       map (file_items E d) (persistedFileNames q) @
       unless (lastPage q = firstPage q) (last_items q)"
    "\<forall>p\<in>set ?L. file_page E (disk_delete (stateFilePath q) d1) p \<noteq> None"
    by (rule shutdown_ok [OF inv rdy ne wr])
  let ?d = "disk_delete (stateFilePath q) d1"
  have acc: "disk_accessible ?d" using s(5) by simp
  have state: "stateFilePath ?b = stateFilePath q" and fields: "queue_fields_ok E ?l"
    using inv by (simp_all add: blank_queue_def pq_inv_def queue_fields_ok_def Let_def)
  have "stateFileExists (?b, d1)"
    using s(4) by (auto simp: stateFileExists_def state disk_exists_def disk_is_regular_def
        split: option.splits)
  then have names: "loadPersistedFileNames E (?b, d1) = (Inr (), (?l, ?d))"
    using loadStateFile_ok [of d1 ?b ?L] s(3,5) saved_names_lines [OF lines rdy]
    by (simp add: loadPersistedFileNames_def state) (simp add: blank_queue_def)
  have M: "maxItemsPerPage ?l = ?M" "persistedFileNames ?l = ?L" by (simp_all add: blank_queue_def)
  obtain q2 d2 where l: "loadFirstAndLastPage E (?l, ?d) = (Inr (), (q2, d2))" "pq_inv E (q2, d2)"
    "contents E (q2, d2) = concat (map (file_items E ?d) ?L)"
    "set (persistedFileNames q2) \<subseteq> set (butlast (tl ?L))" "same_settings ?l q2"
    using load_pages_ok [of E ?d ?l] saved_ok(1) [OF inv rdy acc s(6,7)] fields M by metis
  have names2: "set (persistedFileNames q2) \<subseteq> set (persistedFileNames q)"
    using l(4) saved_names_shape(1) [of q] inv by (fastforce simp: pq_inv_def Let_def)
  have path: "page_path E q2 = page_path E q"
    using l(5) by (simp add: same_settings_def blank_queue_def page_path_def fun_eq_iff)
  show thesis
  proof (rule that [of q1 d1 q2 d2])
    show "open_queue E (queueName q) (workingDirectory q) ?M d1 = (Inr (), (q2, d2))"
      by (simp add: open_queue_def load_queue_def names l(1))
    show "contents E (q2, d2) = contents E (q, d)"
      using l(3) saved_ok(2) [OF inv rdy acc s(6,7)] by simp
    show "\<not> shut_down q2" using l(5) by (simp add: same_settings_def blank_queue_def)
  next
    fix now' m assume now': "now < now'" "(0::int) \<le> now'" "(m::nat) < 10000"
    have "stamped E now' q2"
      using names2 rdy now'(1) path by (fastforce simp: ready_def stamped_def)
    then show "ready E m now' (q2, d2)"
      using l(5) now' by (simp add: ready_def same_settings_def blank_queue_def)
  qed (use s l in simp_all)
qed

end

end
