(* ===== verification/Queue_Frame.thy ===== *)
theory Queue_Frame
  imports Queue_Recovery
begin

text \<open>
  What a queue leaves alone. Several queues share a working directory (the levels of the
  priority queue do), so each operation is confined to the files named after its own queue,
  and a queue with another name keeps its contents, its invariant and its readiness.
\<close>

definition page_seq :: "string \<Rightarrow> bool" where
  "page_seq s \<longleftrightarrow> (\<forall>x\<in>set s. decimal_digit x \<or> x = CHR ''-'')"

definition own_file :: "'a qenv \<Rightarrow> 'a pq \<Rightarrow> string \<Rightarrow> bool" where
  "own_file E q p \<longleftrightarrow> (\<exists>s. page_seq s \<and> p = page_path E q s)"

definition lists_own :: "'a qenv \<Rightarrow> 'a pq \<Rightarrow> bool" where
  "lists_own E q \<longleftrightarrow> (\<forall>p\<in>set (persistedFileNames q). own_file E q p)"

text \<open>Two disks that differ at most in the files of one queue.\<close>

definition only_own :: "'a qenv \<Rightarrow> 'a pq \<Rightarrow> disk \<Rightarrow> disk \<Rightarrow> bool" where
  "only_own E q d d' \<longleftrightarrow>
     (\<forall>p. \<not> own_file E q p \<longrightarrow> node_at d' p = node_at d p) \<and>
     rd_ok d' = rd_ok d \<and> wr_ok d' = wr_ok d \<and> rm_ok d' = rm_ok d"

lemma page_seq_text [simp]: "page_seq (seq_text t c)" "page_seq ''0''"
  by (auto simp: page_seq_def decimal_digit_def dest: seq_text_chars)

lemma own_file_page_path [simp]: "page_seq s \<Longrightarrow> own_file E q (page_path E q s)"
  by (auto simp: own_file_def)

lemma only_own_refl [simp]: "only_own E q d d"
  by (simp add: only_own_def)

lemma only_own_disk [simp]:
  "own_file E q p \<Longrightarrow> only_own E q d (disk_write p c d)"
  "own_file E q p \<Longrightarrow> only_own E q d (disk_delete p d)"
  by (auto simp: only_own_def)

definition same_home :: "'a pq \<Rightarrow> 'a pq \<Rightarrow> bool" where
  "same_home q q' \<longleftrightarrow>
     queueName q' = queueName q \<and> workingDirectory q' = workingDirectory q"

lemma own_file_home: "same_home q q' \<Longrightarrow> own_file E q' = own_file E q"
  by (simp add: own_file_def page_path_def same_home_def fun_eq_iff)

lemma lists_own_frame:
  "lists_own E q \<Longrightarrow> same_home q q' \<Longrightarrow>
   (\<forall>p\<in>set (persistedFileNames q'). p \<in> set (persistedFileNames q) \<or> own_file E q p) \<Longrightarrow>
   lists_own E q'"
  by (auto simp: lists_own_def own_file_home)

lemma refill_first_frame:
  assumes "refill_first E (q, d) = (r, (q', d'))" "lists_own E q"
  shows "only_own E q d d'" "lists_own E q'" "same_home q q'"
proof -
  have "only_own E q d d' \<and> set (persistedFileNames q') \<subseteq> set (persistedFileNames q) \<and> same_home q q'"
    using assms
    by (cases "persistedFileNames q")
      (auto simp: refill_first_def loadFrontFile_def loadFromFile_def new_page_def and_then_def
        lists_own_def same_home_def Let_def split: if_splits option.splits sum.splits)
  then show "only_own E q d d'" "lists_own E q'" "same_home q q'"
    using lists_own_frame [OF assms(2)] by auto
qed

lemma pop_front_frame:
  assumes "pop_front E (q, d) = (r, (q', d'))" "lists_own E q"
  shows "only_own E q d d'" "lists_own E q'" "same_home q q'"
proof -
  obtain v q1 d1 where f: "refill_first E (q, d) = (v, (q1, d1))" by (metis prod.exhaust)
  note g = refill_first_frame [OF f assms(2)]
  have "d' = d \<and> q' = q \<or> d' = d1 \<and> (q' = q1 \<or> (\<exists>xs. q' = set_page (firstPage q1) xs q1))"
    using assms(1) f
    by (cases v) (auto simp: pop_front_def split: if_splits list.splits)
  then show "only_own E q d d'" "lists_own E q'" "same_home q q'"
    using g assms(2) lists_own_frame [OF g(2)] by (auto simp: same_home_def)
qed

lemma push_back_frame:
  assumes p: "push_back E now x (q, d) = (r, (q', d'))" and own: "lists_own E q"
  shows "only_own E q d d'" "lists_own E q'" "same_home q q'"
proof -
  have "only_own E q d d' \<and> same_home q q' \<and>
      (\<forall>p\<in>set (persistedFileNames q'). p \<in> set (persistedFileNames q) \<or> own_file E q p)"
  proof (cases "\<not> shut_down q \<and> maxItemsPerPage q \<le> length (last_items q) \<and> firstPage q \<noteq> lastPage q")
    case True
    let ?fn = "page_path E q (seq_text now (next_count now q))"
    obtain v q1 d1 where w: "persistToFile E (seq_text now (next_count now q)) (lastPage q)
        (tick now q, d) = (v, (q1, d1))" by (metis prod.exhaust)
    then have "only_own E q d d1 \<and> same_home q q1 \<and>
        set (persistedFileNames q1) \<subseteq> set (persistedFileNames q) \<union> {?fn}"
      by (auto simp: persistToFile_def Let_def same_home_def split: if_splits option.splits)
    moreover have "d' = d1 \<and> (q' = q1 \<or> q' = add_page x q1)"
      using p True w push_back_spill [of q E now x d] by (cases v) auto
    ultimately show ?thesis by (auto simp: same_home_def)
  next
    case False
    consider "shut_down q" | "\<not> shut_down q" "length (last_items q) < maxItemsPerPage q"
      | "\<not> shut_down q" "maxItemsPerPage q \<le> length (last_items q)" "firstPage q = lastPage q"
      using False by linarith
    then show ?thesis
    proof cases
      case 1
      with p show ?thesis by (simp add: push_back_shut same_home_def)
    next
      case 2
      with p show ?thesis by (auto simp: push_back_room same_home_def)
    next
      case 3
      with p show ?thesis by (auto simp: push_back_alias same_home_def)
    qed
  qed
  then show "only_own E q d d'" "lists_own E q'" "same_home q q'"
    using lists_own_frame [OF own] by auto
qed

section \<open>Queues with different names\<close>

lemma disk_read_same:
  "node_at d' p = node_at d p \<Longrightarrow> rd_ok d' = rd_ok d \<Longrightarrow> disk_read d' p = disk_read d p"
  by (simp add: disk_read_def split: option.split node.split)

context queue_env
begin

lemma other_queue_file:
  assumes "own_file E q p" "own_file E r p" "workingDirectory q = workingDirectory r"
    "file_name_ok (queueName q)" "file_name_ok (queueName r)"
  shows "queueName q = queueName r"
proof -
  from assms obtain s t where st: "page_seq s" "page_seq t" "page_path E q s = page_path E r t"
    by (auto simp: own_file_def)
  have ok: "file_name_ok (queueName q @ ''_'' @ s)" "file_name_ok (queueName r @ ''_'' @ t)"
    using st assms(4,5) by (auto simp: file_name_ok_def page_seq_def decimal_digit_def)
  then have eq: "queueName q @ ''_'' @ s = queueName r @ ''_'' @ t"
    using st(3) assms(3) by (simp add: page_path_def append_inj)
  have "CHR ''_'' \<notin> set s" "CHR ''_'' \<notin> set t"
    using st by (auto simp: page_seq_def decimal_digit_def)
  then show ?thesis using split_at_last [of "CHR ''_''" s t "queueName q" "queueName r"] eq by simp
qed

lemma other_queue_keeps:
  assumes own: "only_own E q d d'" "lists_own E r"
    and home: "workingDirectory q = workingDirectory r" "queueName q \<noteq> queueName r"
    and ok: "file_name_ok (queueName q)" "file_name_ok (queueName r)"
  shows "contents E (r, d') = contents E (r, d)" "pq_inv E (r, d') = pq_inv E (r, d)"
    "ready E n now (r, d') = ready E n now (r, d)"
proof -
  have same: "disk_read d' p = disk_read d p" if "p \<in> set (persistedFileNames r)" for p
  proof -
    have "own_file E r p" using that own(2) by (simp add: lists_own_def)
    then have "\<not> own_file E q p" using other_queue_file [of q p r] home ok by blast
    then show ?thesis using own(1) by (intro disk_read_same) (simp_all add: only_own_def)
  qed
  then have page: "file_page E d' p = file_page E d p" if "p \<in> set (persistedFileNames r)" for p
    using that by (simp add: file_page_def)
  have "map (file_items E d') (persistedFileNames r) = map (file_items E d) (persistedFileNames r)"
    by (rule map_cong [OF refl]) (simp add: file_items_def page)
  then show "contents E (r, d') = contents E (r, d)"
    by (simp only: contents_def fst_conv snd_conv Let_def)
  have "disk_accessible d' = disk_accessible d"
    using own(1) by (simp add: disk_accessible_def only_own_def)
  moreover have "(\<forall>p\<in>set (persistedFileNames r). good_file E d' n p) =
      (\<forall>p\<in>set (persistedFileNames r). good_file E d n p)" for n
    using page by (simp add: good_file_def)
  ultimately show "pq_inv E (r, d') = pq_inv E (r, d)"
    by (simp only: pq_inv_def fst_conv snd_conv Let_def)
  show "ready E n now (r, d') = ready E n now (r, d)" by (simp add: ready_def)
qed

end

lemma ready_lists_own: "ready E n now (q, d) \<Longrightarrow> lists_own E q"
  by (force simp: ready_def stamped_def lists_own_def own_file_def)

end
