(* ===== verification/Fifo_Queue.thy ===== *)
theory Fifo_Queue
  imports Queue_Frame
begin

text \<open>
  The contract the queue classes built on \<open>PersistedQueue\<close> use, as the locale
  \<open>fifo_queue\<close>: a state is one list, \<open>push\<close> appends or throws and changes nothing, \<open>pop\<close>
  takes the head. \<open>ok n now s\<close> says that the state is good for \<open>n\<close> more pushes from the
  clock value \<open>now\<close> on. The persisted queue is its instance.
\<close>

datatype 'a qop = Enq 'a | Deq

text \<open>
  A run of timed operations: what was accepted by the pushes, what the pops returned, and
  the state at the end.
\<close>

fun run_ops ::
  "(int \<Rightarrow> 'a \<Rightarrow> 's \<Rightarrow> ('e, unit, 's) outcome) \<Rightarrow> ('s \<Rightarrow> ('e, 'a option, 's) outcome) \<Rightarrow>
   (int \<times> 'a qop) list \<Rightarrow> 's \<Rightarrow> 'a list \<times> 'a list \<times> 's" where
  "run_ops push pop [] s = ([], [], s)"
| "run_ops push pop ((t, Enq x) # ops) s =
     (case push t x s of
        (Inl e, s1) \<Rightarrow> run_ops push pop ops s1
      | (Inr u, s1) \<Rightarrow>
          (let (ins, outs, s2) = run_ops push pop ops s1 in (x # ins, outs, s2)))"
| "run_ops push pop ((t, Deq) # ops) s =
     (case pop s of
        (Inr (Some x), s1) \<Rightarrow>
          (let (ins, outs, s2) = run_ops push pop ops s1 in (ins, x # outs, s2))
      | (r, s1) \<Rightarrow> run_ops push pop ops s1)"

fun pushes_of :: "(int \<times> 'a qop) list \<Rightarrow> 'a list" where
  "pushes_of [] = []"
| "pushes_of ((t, Enq x) # ops) = x # pushes_of ops"
| "pushes_of ((t, Deq) # ops) = pushes_of ops"

definition head_option :: "'a list \<Rightarrow> 'a option" where
  "head_option xs = (case xs of [] \<Rightarrow> None | x # ys \<Rightarrow> Some x)"

lemma head_option_simps [simp]: "head_option [] = None" "head_option (x # xs) = Some x"
  by (simp_all add: head_option_def)

definition clock_from :: "int \<Rightarrow> int list \<Rightarrow> bool" where
  "clock_from now ts \<longleftrightarrow> sorted (now # ts)"

lemma clock_from_Cons [simp]: "clock_from now (t # ts) \<longleftrightarrow> now \<le> t \<and> clock_from t ts"
  by (auto simp: clock_from_def)

locale fifo_queue =
  fixes items :: "'s \<Rightarrow> 'a list"
    and ok :: "nat \<Rightarrow> int \<Rightarrow> 's \<Rightarrow> bool"
    and fit :: "'a \<Rightarrow> bool"
    and push :: "int \<Rightarrow> 'a \<Rightarrow> 's \<Rightarrow> ('e, unit, 's) outcome"
    and pop :: "'s \<Rightarrow> ('e, 'a option, 's) outcome"
  assumes push_ok: "ok (Suc n) now s \<Longrightarrow> fit x \<Longrightarrow> ok n now (snd (push now x s))"
    and push_items: "ok (Suc n) now s \<Longrightarrow> fit x \<Longrightarrow>
      items (snd (push now x s)) = items s @ (case fst (push now x s) of Inl e \<Rightarrow> [] | Inr u \<Rightarrow> [x])"
    and pop_value: "ok n now s \<Longrightarrow> fst (pop s) = Inr (head_option (items s))"
    and pop_items: "ok n now s \<Longrightarrow> items (snd (pop s)) = tl (items s)"
    and pop_ok: "ok n now s \<Longrightarrow> ok n now (snd (pop s))"
    and later: "ok n now s \<Longrightarrow> now \<le> now' \<Longrightarrow> ok n now' s"
    and fewer: "ok (Suc n) now s \<Longrightarrow> ok n now s"
begin

lemma fewer_le: "ok n now s \<Longrightarrow> m \<le> n \<Longrightarrow> ok m now s"
  by (induction n) (auto simp: le_Suc_eq dest: fewer)

text \<open>
  First in, first out, over any run: what came out followed by what is still inside is what
  was inside followed by what was accepted.
\<close>

theorem history:
  "ok n now s \<Longrightarrow> length (pushes_of ops) \<le> n \<Longrightarrow> clock_from now (map fst ops) \<Longrightarrow>
   \<forall>x\<in>set (pushes_of ops). fit x \<Longrightarrow> run_ops push pop ops s = (ins, outs, s') \<Longrightarrow>
   outs @ items s' = items s @ ins"
proof (induction ops arbitrary: n now s ins outs s')
  case (Cons o1 ops)
  obtain t o2 where o1: "o1 = (t, o2)" by fastforce
  show ?case
  proof (cases o2)
    case (Enq x)
    from Cons.prems o1 Enq obtain m where m: "n = Suc m" "length (pushes_of ops) \<le> m" "now \<le> t"
      "fit x" "clock_from t (map fst ops)" "\<forall>x\<in>set (pushes_of ops). fit x"
      by (cases n) auto
    have okt: "ok (Suc m) t s" using later Cons.prems(1) m by blast
    note laws = push_ok [OF okt m(4)] push_items [OF okt m(4)]
    obtain r s1 where p: "push t x s = (r, s1)" by fastforce
    obtain ins1 outs1 s2 where s2: "run_ops push pop ops s1 = (ins1, outs1, s2)"
      using prod_cases3 by blast
    with laws p have "outs1 @ items s2 = items s1 @ ins1"
      using Cons.IH [OF _ m(2,5,6) s2] by simp
    with laws p s2 Cons.prems(5) o1 Enq show ?thesis by (cases r) auto
  next
    case Deq
    with Cons.prems o1 have m: "length (pushes_of ops) \<le> n" "now \<le> t"
      "clock_from t (map fst ops)" "\<forall>x\<in>set (pushes_of ops). fit x" by auto
    have okt: "ok n t s" using later Cons.prems(1) m(2) by blast
    note laws = pop_ok [OF okt] pop_items [OF okt] pop_value [OF okt]
    obtain r s1 where p: "pop s = (r, s1)" by fastforce
    obtain ins1 outs1 s2 where s2: "run_ops push pop ops s1 = (ins1, outs1, s2)"
      using prod_cases3 by blast
    with laws p have "outs1 @ items s2 = items s1 @ ins1"
      using Cons.IH [OF _ m(1,3,4) s2] by simp
    with laws p s2 Cons.prems(5) o1 Deq show ?thesis by (cases "items s") auto
  qed
qed simp

end

section \<open>The persisted queue is one\<close>

definition queue_ok :: "'a qenv \<Rightarrow> nat \<Rightarrow> int \<Rightarrow> 'a qstate \<Rightarrow> bool" where
  "queue_ok E n now s \<longleftrightarrow> queue_env E \<and> pq_inv E s \<and> ready E n now s \<and> \<not> shut_down (fst s)"

lemma queue_ok_push:
  assumes "queue_ok E (Suc n) now s" "storable E x"
  shows "queue_ok E n now (snd (push_back E now x s))"
    and "contents E (snd (push_back E now x s)) = contents E s @
      (case fst (push_back E now x s) of Inl e \<Rightarrow> [] | Inr u \<Rightarrow> [x])"
proof -
  obtain q d where s: "s = (q, d)" by (cases s)
  have a: "queue_env E" "pq_inv E (q, d)" "ready E (Suc n) now (q, d)" "\<not> shut_down q"
    using assms(1) by (simp_all add: queue_ok_def s)
  have "queue_ok E n now (snd (push_back E now x s)) \<and>
      contents E (snd (push_back E now x s)) = contents E s @
      (case fst (push_back E now x s) of Inl e \<Rightarrow> [] | Inr u \<Rightarrow> [x])"
    by (rule queue_env.push_back_cases [OF a assms(2)])
      (use a in \<open>simp_all add: queue_ok_def s\<close>)
  then show "queue_ok E n now (snd (push_back E now x s))"
    "contents E (snd (push_back E now x s)) = contents E s @
      (case fst (push_back E now x s) of Inl e \<Rightarrow> [] | Inr u \<Rightarrow> [x])" by auto
qed

lemma queue_ok_pop:
  assumes "queue_ok E n now s"
  shows "queue_ok E n now (snd (pop_front E s))"
    and "fst (pop_front E s) = Inr (head_option (contents E s))"
    and "contents E (snd (pop_front E s)) = tl (contents E s)"
proof -
  obtain q d where s: "s = (q, d)" by (cases s)
  have a: "queue_env E" "pq_inv E (q, d)" "ready E n now (q, d)" "\<not> shut_down q"
    using assms by (simp_all add: queue_ok_def s)
  obtain q' d' where p: "pop_front E (q, d) = (Inr (head_option (contents E (q, d))), (q', d'))"
    "contents E (q', d') = tl (contents E (q, d))" "pq_inv E (q', d')" "names_frame q q'"
    "\<not> shut_down q'"
    using pop_front_ok [OF a(2,4)] unfolding head_option_def by metis
  show "queue_ok E n now (snd (pop_front E s))"
    "fst (pop_front E s) = Inr (head_option (contents E s))"
    "contents E (snd (pop_front E s)) = tl (contents E s)"
    using p a ready_frame [OF a(3) p(4)] by (simp_all add: queue_ok_def s)
qed

interpretation pqueue:
  fifo_queue "contents E" "queue_ok E" "storable E" "push_back E" "pop_front E" for E
proof unfold_locales
  show "queue_ok E n now s \<Longrightarrow> now \<le> now' \<Longrightarrow> queue_ok E n now' s" for n now s now'
    by (auto simp: queue_ok_def intro: ready_later)
  show "queue_ok E (Suc n) now s \<Longrightarrow> queue_ok E n now s" for n now s
    by (auto simp: queue_ok_def intro: ready_fewer)
qed (rule queue_ok_push queue_ok_pop; assumption)+

end
