(* ===== verification/Queue_Orphans.thy ===== *)
theory Queue_Orphans
  imports Queue_Recovery
begin

text \<open>
  Page files found in the working directory when there is no state file, as after a crash:
  they are taken in the order of their names, which is the order they were written in as long
  as their times have equally many digits.
\<close>

section \<open>Order of the names\<close>

lemma digit_less:
  assumes "decimal_digit x" "decimal_digit y"
  shows "x < y \<longleftrightarrow> (of_char x :: nat) - 48 < of_char y - 48"
    and "(of_char x :: nat) - 48 = of_char y - 48 \<longleftrightarrow> x = y"
    and "(of_char x :: nat) - 48 < 10"
proof -
  have *: "\<forall>x\<in>set ''0123456789''. \<forall>y\<in>set ''0123456789''.
    (x < y \<longleftrightarrow> (of_char x :: nat) - 48 < of_char y - 48) \<and>
    ((of_char x :: nat) - 48 = of_char y - 48 \<longleftrightarrow> x = y) \<and> (of_char x :: nat) - 48 < 10"
    by code_simp
  have d: "x \<in> set ''0123456789''" "y \<in> set ''0123456789''"
    using assms by (simp_all only: decimal_digit_def)
  note at = * [rule_format, OF d]
  show "x < y \<longleftrightarrow> (of_char x :: nat) - 48 < of_char y - 48" using at by blast
  show "(of_char x :: nat) - 48 = of_char y - 48 \<longleftrightarrow> x = y" using at by blast
  show "(of_char x :: nat) - 48 < 10" using at by blast
qed

lemma snoc_less:
  "length a = length b \<Longrightarrow> (a @ [x :: char] < b @ [y]) \<longleftrightarrow> a < b \<or> a = b \<and> x < y"
  by (induction a b rule: list_induct2) auto

lemma ten_times:
  assumes "(x :: nat) < 10" "y < 10"
  shows "10 * a + x = 10 * b + y \<longleftrightarrow> a = b \<and> x = y"
    and "10 * a + x < 10 * b + y \<longleftrightarrow> a < b \<or> a = b \<and> x < y"
  using assms by arith+

lemma digits_order:
  assumes "length s = length r" "list_all decimal_digit s" "list_all decimal_digit r"
  shows "s < r \<longleftrightarrow> digits_value s < digits_value r"
    and "digits_value s = digits_value r \<longleftrightarrow> s = r"
proof -
  have "(s < r \<longleftrightarrow> digits_value s < digits_value r) \<and> (digits_value s = digits_value r \<longleftrightarrow> s = r)"
    using assms
  proof (induction s arbitrary: r rule: rev_induct)
    case (snoc x s)
    then obtain r1 y where r: "r = r1 @ [y]" by (cases r rule: rev_exhaust) auto
    with snoc have IH: "s < r1 \<longleftrightarrow> digits_value s < digits_value r1"
      "digits_value s = digits_value r1 \<longleftrightarrow> s = r1"
      and len: "length s = length r1" and d: "decimal_digit x" "decimal_digit y" by auto
    note ten_times [OF digit_less(3) [OF d] digit_less(3) [OF d(2,1)]]
    then show ?case
      using IH digit_less [OF d] by (auto simp: r snoc_less [OF len])
  qed (simp add: digits_value_def)
  then show "s < r \<longleftrightarrow> digits_value s < digits_value r" "digits_value s = digits_value r \<longleftrightarrow> s = r"
    by auto
qed

lemma digits_value_append:
  "digits_value (a @ b) = digits_value a * 10 ^ length b + digits_value b"
proof (induction b rule: rev_induct)
  case (snoc x b)
  then show ?case by (simp flip: append_assoc)
qed (simp add: digits_value_def)

lemma seq_text_value:
  "0 \<le> t \<Longrightarrow> unat c < 10000 \<Longrightarrow> digits_value (seq_text t c) = nat t * 10000 + unat c"
  by (simp add: seq_text_count digits_value_append length_count_text count_text_value show_int_def)

lemma seq_text_order:
  assumes "0 \<le> t" "0 \<le> t'" "length (show_int t) = length (show_int t')"
    "unat c < 10000" "unat c' < 10000"
  shows "seq_text t c < seq_text t' c' \<longleftrightarrow> t < t' \<or> t = t' \<and> c < c'"
proof -
  have "list_all decimal_digit (seq_text t c)" "list_all decimal_digit (seq_text t' c')"
    using assms
    by (auto simp: list_all_iff seq_text_count show_int_def dest: show_nat_digits count_text_digits)
  moreover have "length (seq_text t c) = length (seq_text t' c')"
    using assms by (simp add: seq_text_count length_count_text)
  ultimately have "seq_text t c < seq_text t' c' \<longleftrightarrow>
      nat t * 10000 + unat c < nat t' * 10000 + unat c'"
    using digits_order(1) assms by (simp add: seq_text_value)
  also have "\<dots> \<longleftrightarrow> nat t < nat t' \<or> nat t = nat t' \<and> unat c < unat c'"
    using assms(4,5) by linarith
  finally show ?thesis using assms(1,2) by (auto simp: word_less_nat_alt)
qed

section \<open>Picking the files up\<close>

definition stamp_less :: "int \<times> u32 \<Rightarrow> int \<times> u32 \<Rightarrow> bool" where
  "stamp_less a b \<longleftrightarrow> fst a < fst b \<or> fst a = fst b \<and> snd a < snd b"

text \<open>The file of the page stamped with a time and a count, as \<open>persistToFile\<close> names it.\<close>

definition stamp_path :: "'a qenv \<Rightarrow> string \<Rightarrow> string \<Rightarrow> int \<times> u32 \<Rightarrow> string" where
  "stamp_path E wdir name st = path_append E wdir (name @ ''_'' @ seq_text (fst st) (snd st))"

text \<open>Stamps in the order of writing, their times of one length.\<close>

definition stamps_ok :: "nat \<Rightarrow> (int \<times> u32) list \<Rightarrow> bool" where
  "stamps_ok k sts \<longleftrightarrow> sorted_wrt stamp_less sts \<and>
     (\<forall>st\<in>set sts. 0 \<le> fst st \<and> length (show_int (fst st)) = k \<and> unat (snd st) < 10000)"

text \<open>The regular files of the directory that the queue's regular expression matches.\<close>

definition orphans :: "'a qenv \<Rightarrow> string \<Rightarrow> string \<Rightarrow> disk \<Rightarrow> string list" where
  "orphans E wdir name d =
     filter (\<lambda>p. disk_is_regular d p \<and> regex_match E (''^'' @ name @ ''_[0-9]*'') (path_filename E p))
       (dir_entries E wdir d)"

lemma literal_file_name: "literal_name n \<Longrightarrow> file_name_ok n"
  by (auto simp: literal_name_def file_name_ok_def)

context queue_env
begin

lemma stamp_path_less:
  assumes "literal_name name" "stamps_ok k sts" "a \<in> set sts" "b \<in> set sts" "stamp_less a b"
  shows "stamp_path E wdir name a < stamp_path E wdir name b"
proof -
  have lt: "seq_text (fst a) (snd a) < seq_text (fst b) (snd b)"
    using assms by (subst seq_text_order) (auto simp: stamps_ok_def stamp_less_def)
  have ok: "file_name_ok (name @ ''_'' @ seq_text t c)" for t c
    using seq_file_name [OF literal_file_name [OF assms(1)]] by simp
  have "\<not> name @ ''_'' @ seq_text (fst b) (snd b) \<le> name @ ''_'' @ seq_text (fst a) (snd a)"
    using lt append_le_append [of "name @ ''_''"] by (simp add: not_le)
  then show ?thesis
    unfolding stamp_path_def less_le_not_le using append_order ok linear by blast
qed

lemma orphans_sorted:
  assumes lit: "literal_name name" and sts: "stamps_ok k sts"
    and dist: "distinct (map fst (disk.entries d))"
    and found: "set (orphans E wdir name d) = stamp_path E wdir name ` set sts"
  shows "sort (orphans E wdir name d) = map (stamp_path E wdir name) sts"
proof -
  have "sorted_wrt (\<lambda>a b. stamp_path E wdir name a < stamp_path E wdir name b) sts"
    by (rule sorted_wrt_mono_rel [of _ stamp_less])
      (use sts stamp_path_less [OF lit sts] in \<open>auto simp: stamps_ok_def\<close>)
  then have "sorted_wrt (<) (map (stamp_path E wdir name) sts)" by (simp add: sorted_wrt_map)
  moreover have "distinct (orphans E wdir name d)"
    using dist by (simp add: orphans_def dir_entries_def)
  ultimately show ?thesis
    using found by (intro sorted_distinct_set_unique) (auto simp: strict_sorted_iff)
qed

theorem orphan_recovery:
  assumes lit: "literal_name name" and M: "0 < M" and sts: "stamps_ok k sts"
    and dir: "node_at d wdir = Some Directory" and dist: "distinct (map fst (disk.entries d))"
    and no_state: "\<not> disk_is_regular d (path_append E wdir (name @ ''_STATE''))"
    and found: "set (orphans E wdir name d) = stamp_path E wdir name ` set sts"
    and saved: "saved E d M (map (stamp_path E wdir name) sts)"
  obtains q' d' where "open_queue E name wdir M d = (Inr (), (q', d'))" "pq_inv E (q', d')"
    "contents E (q', d') = concat (map (file_items E d) (map (stamp_path E wdir name) sts))"
    "\<not> shut_down q'"
    "\<forall>now m. (\<forall>st\<in>set sts. fst st < now) \<longrightarrow> 0 < now \<longrightarrow> m < 10000 \<longrightarrow> ready E m now (q', d')"
proof -
  let ?b = "blank_queue E name wdir M" and ?L = "map (stamp_path E wdir name) sts"
  let ?l = "?b\<lparr>persistedFileNames := ?L\<rparr>"
  have "\<not> stateFileExists (?b, d)"
    using no_state by (simp add: stateFileExists_def blank_queue_def)
  moreover have "loadOrphanedQueueFiles E (?b, d) = (Inr (), (?l, d))"
  proof (cases "dir_entries E wdir d = []")
    case True
    then have "?L = []" using orphans_sorted [OF lit sts dist found] by (simp add: orphans_def)
    with True dir show ?thesis by (simp add: loadOrphanedQueueFiles_def blank_queue_def)
  next
    case False
    have "sort (filter (\<lambda>p. disk_is_regular d p \<and>
        regex_match E (''^'' @ name @ ''_[0-9]*'') (path_filename E p)) (dir_entries E wdir d)) = ?L"
      using orphans_sorted [OF lit sts dist found] by (simp only: orphans_def)
    with False dir show ?thesis by (simp add: loadOrphanedQueueFiles_def blank_queue_def)
  qed
  ultimately have names: "loadPersistedFileNames E (?b, d) = (Inr (), (?l, d))"
    by (simp add: loadPersistedFileNames_def)
  have "saved E d (maxItemsPerPage ?l) (persistedFileNames ?l)" "queue_fields_ok E ?l"
    using saved M literal_file_name [OF lit] by (simp_all add: queue_fields_ok_def blank_queue_def)
  then obtain q' d' where l: "loadFirstAndLastPage E (?l, d) = (Inr (), (q', d'))" "pq_inv E (q', d')"
    "contents E (q', d') = concat (map (file_items E d) (persistedFileNames ?l))"
    "set (persistedFileNames q') \<subseteq> set (butlast (tl (persistedFileNames ?l)))" "same_settings ?l q'"
    using load_pages_ok [of E d ?l] by metis
  have "set (butlast (tl ps)) \<subseteq> set ps" for ps :: "string list"
    by (cases ps) (auto dest: in_set_butlastD)
  then have listed: "set (persistedFileNames q') \<subseteq> stamp_path E wdir name ` set sts"
    using l(4) by fastforce
  have path: "page_path E q' seq = path_append E wdir (name @ ''_'' @ seq)" for seq
    using l(5) by (simp add: same_settings_def blank_queue_def page_path_def)
  show thesis
  proof (rule that [of q' d'])
    show "open_queue E name wdir M d = (Inr (), (q', d'))"
      by (simp add: open_queue_def load_queue_def names l(1))
    show "\<not> shut_down q'" using l(5) by (simp add: same_settings_def blank_queue_def)
    show "\<forall>now m. (\<forall>st\<in>set sts. fst st < now) \<longrightarrow> 0 < now \<longrightarrow> m < 10000 \<longrightarrow> ready E m now (q', d')"
    proof (intro allI impI)
      fix now m assume *: "\<forall>st\<in>set sts. fst st < now" "0 < (now :: int)" "m < (10000 :: nat)"
      have "\<exists>t c. unat c < 10000 \<and> p = page_path E q' (seq_text t c) \<and> t < now"
        if p: "p \<in> set (persistedFileNames q')" for p
      proof -
        obtain st where st: "st \<in> set sts" "p = stamp_path E wdir name st" using listed p by blast
        then have "unat (snd st) < 10000" "fst st < now" "p = page_path E q' (seq_text (fst st) (snd st))"
          using sts *(1) by (auto simp: stamps_ok_def stamp_path_def path)
        then show ?thesis by blast
      qed
      then have "stamped E now q'" unfolding stamped_def by blast
      then show "ready E m now (q', d')"
        using l(5) * by (simp add: ready_def same_settings_def blank_queue_def)
    qed
  qed (use l in simp_all)
qed

end

end
