(* ===== verification/Queue_Fresh.thy ===== *)
theory Queue_Fresh
  imports Fifo_Queue Queue_Orphans
begin

text \<open>
  A queue constructed where none of its files is, and one destroyed while it is empty: neither
  touches the disk.
\<close>

definition fresh_queue :: "'a qenv \<Rightarrow> string \<Rightarrow> string \<Rightarrow> nat \<Rightarrow> 'a pq" where
  "fresh_queue E name wdir M =
     (set_page 0 [] (blank_queue E name wdir M))\<lparr>nextPage := Suc 0, firstPage := 0, lastPage := 0\<rparr>"

lemma open_fresh:
  assumes "node_at d wdir = Some Directory" "orphans E wdir name d = []"
    "\<not> disk_is_regular d (path_append E wdir (name @ ''_STATE''))"
  shows "open_queue E name wdir M d = (Inr (), (fresh_queue E name wdir M, d))"
proof -
  let ?b = "blank_queue E name wdir M"
  have "\<not> stateFileExists (?b, d)"
    using assms(3) by (simp add: stateFileExists_def blank_queue_def)
  moreover have "loadOrphanedQueueFiles E (?b, d) = (Inr (), (?b, d))"
    using assms(1,2) by (simp add: loadOrphanedQueueFiles_def blank_queue_def orphans_def Let_def)
  ultimately show ?thesis
    by (simp add: open_queue_def load_queue_def loadPersistedFileNames_def loadFirstAndLastPage_def
        new_page_def fresh_queue_def) (simp add: blank_queue_def set_page_def)
qed

lemma fresh_queue_ok:
  assumes "queue_env E" "file_name_ok name" "0 < M" "disk_accessible d" "0 < now" "n < 10000"
  shows "queue_ok E n now (fresh_queue E name wdir M, d)"
    and "contents E (fresh_queue E name wdir M, d) = []"
  using assms
  by (simp_all add: queue_ok_def pq_inv_def ready_def stamped_def fresh_queue_def blank_queue_def
      contents_def page_defs set_page_def)

lemma destroy_empty:
  assumes "pq_inv E (q, d)" "contents E (q, d) = []"
  shows "destroy_queue E now (q, d) = (Inr (), (q\<lparr>shut_down := True\<rparr>, d))"
proof -
  have e: "first_items q = []" "last_items q = []" "persistedFileNames q = []"
    using assms by (simp_all add: contents_Nil_iff)
  then have "firstPage q = lastPage q" using assms(1) by (auto simp: pq_inv_def Let_def)
  with e show ?thesis
    by (simp add: destroy_queue_def shutdown_def writeFirstAndLastPage_def writeStateFile_def first_items_def)
qed

end
