(* ===== verification/Monitor.thy ===== *)
theory Monitor
  imports Prelude
begin

text \<open>
  Threads that call the member functions of one object. The classes of the library that are meant
  for several threads hold a mutex and lock it with a \<open>boost::lock_guard\<close> for the whole of most
  calls; the others run without it. The theory is generic in the calls: \<open>run now c s\<close> is the call
  \<open>c\<close> on the state \<open>s\<close>, \<open>locked c\<close> says whether it holds the mutex, and \<open>now\<close> is what it reads from
  the clock, which \<open>later\<close> orders.

  A thread asks for a call, enters it (for a locked call only when the mutex is free, which it
  takes), works on the object as it found it, and leaves, at which point its result is in
  place and the mutex free again. A call that does not lock can enter while another one is at work.
\<close>

section \<open>The steps\<close>

datatype ('c, 's) phase = Outside | Wants 'c | Inside 'c 's

record ('n, 'c, 'r, 's) monitor =
  objectMutex :: "nat option"
  shared :: 's
  threads :: "nat \<Rightarrow> ('c, 's) phase"
  clock :: 'n
  log :: "('n \<times> 'c \<times> 'r) list"

definition leave ::
  "('n \<Rightarrow> 'c \<Rightarrow> 's \<Rightarrow> 'r \<times> 's) \<Rightarrow> 'n \<Rightarrow> nat \<Rightarrow> 'c \<Rightarrow> 's \<Rightarrow> ('n, 'c, 'r, 's) monitor \<Rightarrow> ('n, 'c, 'r, 's) monitor" where
  "leave run now t c s \<sigma> =
     (let (r, s') = run now c s
      in \<sigma>\<lparr>shared := s', threads := (threads \<sigma>)(t := Outside), clock := now,
           log := log \<sigma> @ [(now, c, r)]\<rparr>)"

inductive mstep ::
  "('n \<Rightarrow> 'n \<Rightarrow> bool) \<Rightarrow> ('n \<Rightarrow> 'c \<Rightarrow> 's \<Rightarrow> 'r \<times> 's) \<Rightarrow> ('c \<Rightarrow> bool) \<Rightarrow>
   ('n, 'c, 'r, 's) monitor \<Rightarrow> ('n, 'c, 'r, 's) monitor \<Rightarrow> bool" for later run locked where
  ask: "threads \<sigma> t = Outside \<Longrightarrow> mstep later run locked \<sigma> (\<sigma>\<lparr>threads := (threads \<sigma>)(t := Wants c)\<rparr>)"
| lock: "threads \<sigma> t = Wants c \<Longrightarrow> locked c \<Longrightarrow> objectMutex \<sigma> = None \<Longrightarrow>
    mstep later run locked \<sigma> (\<sigma>\<lparr>objectMutex := Some t, threads := (threads \<sigma>)(t := Inside c (shared \<sigma>))\<rparr>)"
| enter: "threads \<sigma> t = Wants c \<Longrightarrow> \<not> locked c \<Longrightarrow>
    mstep later run locked \<sigma> (\<sigma>\<lparr>threads := (threads \<sigma>)(t := Inside c (shared \<sigma>))\<rparr>)"
| unlock: "threads \<sigma> t = Inside c s \<Longrightarrow> locked c \<Longrightarrow> later (clock \<sigma>) now \<Longrightarrow>
    mstep later run locked \<sigma> ((leave run now t c s \<sigma>)\<lparr>objectMutex := None\<rparr>)"
| exit: "threads \<sigma> t = Inside c s \<Longrightarrow> \<not> locked c \<Longrightarrow> later (clock \<sigma>) now \<Longrightarrow>
    mstep later run locked \<sigma> (leave run now t c s \<sigma>)"

definition idle :: "'n \<Rightarrow> 's \<Rightarrow> ('n, 'c, 'r, 's) monitor" where
  "idle now s = \<lparr>objectMutex = None, shared = s, threads = (\<lambda>_. Outside), clock = now, log = []\<rparr>"

text \<open>The calls of the log made one after the other by a single thread.\<close>

fun replay ::
  "('n \<Rightarrow> 'c \<Rightarrow> 's \<Rightarrow> 'r \<times> 's) \<Rightarrow> ('n \<times> 'c \<times> 'r) list \<Rightarrow> 's \<Rightarrow> 'r list \<times> 's" where
  "replay run [] s = ([], s)"
| "replay run ((now, c, r) # hs) s =
     (let (r1, s1) = run now c s; (rs, s2) = replay run hs s1 in (r1 # rs, s2))"

definition log_calls :: "('n \<times> 'c \<times> 'r) list \<Rightarrow> 'c list" where
  "log_calls hs = map (fst \<circ> snd) hs"

lemma log_calls_simps [simp]:
  "log_calls [] = []" "log_calls ((now, c, r) # hs) = c # log_calls hs" "log_calls (hs @ ks) = log_calls hs @ log_calls ks"
  by (simp_all add: log_calls_def)

text \<open>Times that follow one another.\<close>

fun chain :: "('n \<Rightarrow> 'n \<Rightarrow> bool) \<Rightarrow> 'n \<Rightarrow> 'n list \<Rightarrow> bool" where
  "chain later now [] = True"
| "chain later now (t # ts) = (later now t \<and> chain later t ts)"

lemma chain_snoc: "chain later now (ts @ [t]) \<longleftrightarrow> chain later now ts \<and> later (last (now # ts)) t"
  by (induction ts arbitrary: now) auto

lemma replay_snoc:
  "replay run (hs @ [(now, c, r)]) s =
     (let (rs, s1) = replay run hs s; (r1, s2) = run now c s1 in (rs @ [r1], s2))"
  by (induction run hs s rule: replay.induct) (auto simp: Let_def split: prod.splits)

section \<open>The mutex makes the calls atomic\<close>

definition mutex_inv :: "('c \<Rightarrow> bool) \<Rightarrow> ('n, 'c, 'r, 's) monitor \<Rightarrow> bool" where
  "mutex_inv locked \<sigma> \<longleftrightarrow> (\<forall>t c s. threads \<sigma> t = Inside c s \<longrightarrow> locked c \<longrightarrow> objectMutex \<sigma> = Some t)"

definition all_locked :: "('c \<Rightarrow> bool) \<Rightarrow> ('n, 'c, 'r, 's) monitor \<Rightarrow> bool" where
  "all_locked locked \<sigma> \<longleftrightarrow> list_all locked (log_calls (log \<sigma>))"

definition atomic_inv ::
  "('n \<Rightarrow> 'c \<Rightarrow> 's \<Rightarrow> 'r \<times> 's) \<Rightarrow> ('c \<Rightarrow> bool) \<Rightarrow> 's \<Rightarrow> ('n, 'c, 'r, 's) monitor \<Rightarrow> bool" where
  "atomic_inv run locked s0 \<sigma> \<longleftrightarrow>
     all_locked locked \<sigma> \<longrightarrow>
       (\<forall>t c s. threads \<sigma> t = Inside c s \<longrightarrow> locked c \<longrightarrow> s = shared \<sigma>) \<and>
       replay run (log \<sigma>) s0 = (map (snd \<circ> snd) (log \<sigma>), shared \<sigma>)"

lemma leave_simps [simp, state_simps]:
  "threads (leave run now t c s \<sigma>) = (threads \<sigma>)(t := Outside)"
  "shared (leave run now t c s \<sigma>) = snd (run now c s)"
  "clock (leave run now t c s \<sigma>) = now"
  "log (leave run now t c s \<sigma>) = log \<sigma> @ [(now, c, fst (run now c s))]"
  "objectMutex (leave run now t c s \<sigma>) = objectMutex \<sigma>"
  by (simp_all add: leave_def split: prod.split)

lemma mutex_excludes:
  "mutex_inv locked \<sigma> \<Longrightarrow> threads \<sigma> t = Inside c s \<Longrightarrow> locked c \<Longrightarrow>
   threads \<sigma> t' = Inside c' s' \<Longrightarrow> locked c' \<Longrightarrow> t' = t"
  unfolding mutex_inv_def by (metis option.inject)

lemma mutex_inv_step:
  assumes "mstep later run locked \<sigma> \<sigma>'" "mutex_inv locked \<sigma>"
  shows "mutex_inv locked \<sigma>'"
  using assms
proof (induction rule: mstep.induct)
  case (unlock \<sigma> t c s now)
  show ?case
  proof (unfold mutex_inv_def, intro allI impI)
    fix t' c' s'
    assume a: "threads ((leave run now t c s \<sigma>)\<lparr>objectMutex := None\<rparr>) t' = Inside c' s'" "locked c'"
    then have "t' \<noteq> t" "threads \<sigma> t' = Inside c' s'" by (simp_all split: if_splits)
    with mutex_excludes [OF unlock(4,1,2)] a(2)
    show "objectMutex ((leave run now t c s \<sigma>)\<lparr>objectMutex := None\<rparr>) = Some t'" by blast
  qed
qed (auto simp: mutex_inv_def simp del: split_paired_All)

lemma mutex_inv_reachable:
  "(mstep later run locked)\<^sup>*\<^sup>* (idle now s0) \<sigma> \<Longrightarrow> mutex_inv locked \<sigma>"
proof (induction rule: rtranclp_induct)
  case base
  show ?case by (simp add: mutex_inv_def idle_def)
qed (rule mutex_inv_step)

lemma atomic_inv_step:
  assumes "mstep later run locked \<sigma> \<sigma>'" "mutex_inv locked \<sigma>" "atomic_inv run locked s0 \<sigma>"
  shows "atomic_inv run locked s0 \<sigma>'"
  using assms
proof (induction rule: mstep.induct)
  case (unlock \<sigma> t c s now)
  show ?case
  proof (cases "all_locked locked \<sigma>")
    case False
    then show ?thesis by (simp add: atomic_inv_def all_locked_def)
  next
    case True
    with unlock have "s = shared \<sigma>" "replay run (log \<sigma>) s0 = (map (snd \<circ> snd) (log \<sigma>), shared \<sigma>)"
      by (simp_all add: atomic_inv_def del: split_paired_All)
    then show ?thesis
      using mutex_excludes [OF unlock(4,1,2)]
      by (simp add: atomic_inv_def replay_snoc del: split_paired_All split: prod.split) blast
  qed
qed (simp_all add: atomic_inv_def all_locked_def del: split_paired_All)

lemma atomic_inv_reachable:
  assumes "(mstep later run locked)\<^sup>*\<^sup>* (idle now s0) \<sigma>"
  shows "atomic_inv run locked s0 \<sigma>"
  using assms
proof (induction rule: rtranclp_induct)
  case base
  show ?case by (simp add: atomic_inv_def idle_def)
next
  case (step \<sigma> \<sigma>')
  from atomic_inv_step [OF step(2) mutex_inv_reachable [OF step(1)] step(3)] show ?case .
qed

text \<open>The log's times never go back.\<close>

lemma clock_reachable:
  assumes "(mstep later run locked)\<^sup>*\<^sup>* (idle now s0) \<sigma>"
  shows "chain later now (map fst (log \<sigma>)) \<and> last (now # map fst (log \<sigma>)) = clock \<sigma>"
  using assms
proof (induction rule: rtranclp_induct)
  case base
  show ?case by (simp add: idle_def)
next
  case (step \<sigma> \<sigma>')
  from step(2,3) show ?case
    by (induction rule: mstep.induct) (simp_all add: chain_snoc)
qed

lemma all_locked_member: "all_locked locked \<sigma> \<longleftrightarrow> (\<forall>c\<in>set (log_calls (log \<sigma>)). locked c)"
  by (simp add: all_locked_def list_all_iff)

text \<open>A thread that finds the mutex free can complete a locked call.\<close>

lemma locked_call_reachable:
  assumes "(mstep later run locked)\<^sup>*\<^sup>* \<sigma>0 \<sigma>" "threads \<sigma> t = Outside" "objectMutex \<sigma> = None" "locked c"
    "later (clock \<sigma>) now"
  obtains \<sigma>' where "(mstep later run locked)\<^sup>*\<^sup>* \<sigma>0 \<sigma>'" "shared \<sigma>' = snd (run now c (shared \<sigma>))"
    "log \<sigma>' = log \<sigma> @ [(now, c, fst (run now c (shared \<sigma>)))]"
    "threads \<sigma>' = threads \<sigma>" "objectMutex \<sigma>' = None" "clock \<sigma>' = now"
proof -
  let ?a = "\<sigma>\<lparr>threads := (threads \<sigma>)(t := Wants c)\<rparr>"
  let ?b = "?a\<lparr>objectMutex := Some t, threads := (threads ?a)(t := Inside c (shared ?a))\<rparr>"
  have "(mstep later run locked)\<^sup>*\<^sup>* \<sigma>0 ?a"
    by (rule rtranclp.rtrancl_into_rtrancl [OF assms(1)]) (rule mstep.ask [OF assms(2)])
  then have "(mstep later run locked)\<^sup>*\<^sup>* \<sigma>0 ?b"
    by (rule rtranclp.rtrancl_into_rtrancl) (rule mstep.lock; use assms in simp)
  then have "(mstep later run locked)\<^sup>*\<^sup>* \<sigma>0 ((leave run now t c (shared \<sigma>) ?b)\<lparr>objectMutex := None\<rparr>)"
    by (rule rtranclp.rtrancl_into_rtrancl) (rule mstep.unlock; use assms in simp)
  then show thesis
    by (rule that) (use assms in \<open>simp_all add: fun_upd_idem\<close>)
qed

section \<open>Objects that are containers\<close>

text \<open>What the calls of a log together brought in, or gave out.\<close>

definition log_total :: "('c \<Rightarrow> 'r \<Rightarrow> 'a multiset) \<Rightarrow> ('n \<times> 'c \<times> 'r) list \<Rightarrow> 'a multiset" where
  "log_total f hs = sum_list (map (\<lambda>(now, c, r). f c r) hs)"

lemma log_total_simps [simp]:
  "log_total f [] = {#}" "log_total f ((now, c, r) # hs) = f c r + log_total f hs"
  by (simp_all add: log_total_def)

text \<open>
  The contract of a container that several threads use: a locked call, at a time not before that of
  the last one, keeps the container in good order, and what it held and what the call brought in
  is what the call gave out and what it holds then. \<open>cost\<close> is how many of the names that the good
  order still allows for the call may use up.
\<close>

locale shared_container =
  fixes later :: "'n \<Rightarrow> 'n \<Rightarrow> bool"
    and run :: "'n \<Rightarrow> 'c \<Rightarrow> 's \<Rightarrow> 'r \<times> 's"
    and locked :: "'c \<Rightarrow> bool"
    and good :: "nat \<Rightarrow> 'n \<Rightarrow> 's \<Rightarrow> bool"
    and held :: "'s \<Rightarrow> 'a multiset"
    and brought :: "'c \<Rightarrow> 'r \<Rightarrow> 'a multiset"
    and given :: "'c \<Rightarrow> 'r \<Rightarrow> 'a multiset"
    and cost :: "'c \<Rightarrow> nat"
    and allowed :: "'c \<Rightarrow> bool"
  assumes call_good: "locked c \<Longrightarrow> allowed c \<Longrightarrow> good (cost c + n) m s \<Longrightarrow> later m now \<Longrightarrow> good n now (snd (run now c s))"
    and call_held: "locked c \<Longrightarrow> allowed c \<Longrightarrow> good (cost c + n) m s \<Longrightarrow> later m now \<Longrightarrow>
      held s + brought c (fst (run now c s)) = given c (fst (run now c s)) + held (snd (run now c s))"
begin

lemma replay_held:
  "good n now s \<Longrightarrow> sum_list (map cost (log_calls hs)) \<le> n \<Longrightarrow> \<forall>c\<in>set (log_calls hs). locked c \<and> allowed c \<Longrightarrow>
   chain later now (map fst hs) \<Longrightarrow> replay run hs s = (map (snd \<circ> snd) hs, s') \<Longrightarrow>
   held s + log_total brought hs = log_total given hs + held s'"
proof (induction hs arbitrary: n now s)
  case (Cons h hs)
  obtain t c r where h: "h = (t, c, r)" by (metis prod_cases3)
  have "cost c \<le> n" using Cons.prems(2) h by simp
  then obtain m where m: "n = cost c + m" by (metis le_Suc_ex)
  have le: "sum_list (map cost (log_calls hs)) \<le> m" using Cons.prems(2) h m by simp
  obtain s1 where c: "run t c s = (r, s1)" and rest: "replay run hs s1 = (map (snd \<circ> snd) hs, s')"
    using Cons.prems(5) h by (auto simp: Let_def split: prod.splits)
  have lc: "locked c" "allowed c" "later now t" using Cons.prems(3,4) h by simp_all
  note good = Cons.prems(1) [unfolded m]
  have tail: "\<forall>c\<in>set (log_calls hs). locked c \<and> allowed c" "chain later t (map fst hs)"
    using Cons.prems(3,4) h by simp_all
  have "good m t s1" using call_good [OF lc(1,2) good lc(3)] c by simp
  from Cons.IH [OF this le tail rest]
  have rest: "held s1 + log_total brought hs = log_total given hs + held s'" .
  have now: "held s + brought c r = given c r + held s1" using call_held [OF lc(1,2) good lc(3)] c by simp
  have "held s + log_total brought (h # hs) = (held s + brought c r) + log_total brought hs"
    by (simp add: h add.assoc)
  also have "\<dots> = given c r + (held s1 + log_total brought hs)" by (simp only: now add.assoc)
  also have "\<dots> = log_total given (h # hs) + held s'" by (simp only: rest h log_total_simps add.assoc)
  finally show ?case .
qed simp

lemma threads_held:
  assumes "(mstep later run locked)\<^sup>*\<^sup>* (idle now s0) \<sigma>" "all_locked locked \<sigma>" "good n now s0"
    "sum_list (map cost (log_calls (log \<sigma>))) \<le> n" "\<forall>c\<in>set (log_calls (log \<sigma>)). allowed c"
  shows "held s0 + log_total brought (log \<sigma>) = log_total given (log \<sigma>) + held (shared \<sigma>)"
proof (rule replay_held [OF assms(3,4)])
  show "\<forall>c\<in>set (log_calls (log \<sigma>)). locked c \<and> allowed c" using assms(2,5) by (simp add: all_locked_member)
  show "chain later now (map fst (log \<sigma>))" using clock_reachable [OF assms(1)] by simp
  show "replay run (log \<sigma>) s0 = (map (snd \<circ> snd) (log \<sigma>), shared \<sigma>)"
    using atomic_inv_reachable [OF assms(1)] assms(2) by (simp add: atomic_inv_def)
qed

end

end
