(* ===== verification/Safe_Queue.thy ===== *)
theory Safe_Queue
  imports Fifo_Queue Monitor
begin

text \<open>
  Class template \<open>ThreadsafePersistedQueue\<close> (kisscpp/threadsafe_persisted_queue.hpp): every
  operation but \<open>shutdown\<close> takes \<open>objectMutex\<close> and delegates to the persisted queue.

  The operations are delegations on the persisted queue's state. Their concurrent use is the
  step relation of Monitor on these calls; only \<open>shutdown\<close> does not lock.
\<close>

section \<open>Operations\<close>

definition tpq_open ::
  "'a qenv \<Rightarrow> string \<Rightarrow> string \<Rightarrow> nat \<Rightarrow> disk \<Rightarrow> (qerror, unit, 'a qstate) outcome" where
  "tpq_open E name wdir maxItems d = open_queue E name wdir maxItems d"

definition tpq_push ::
  "'a qenv \<Rightarrow> int \<Rightarrow> 'a \<Rightarrow> 'a qstate \<Rightarrow> (qerror, unit, 'a qstate) outcome" where
  "tpq_push E now p s = push_back E now p s"

definition tpq_shutdown :: "'a qenv \<Rightarrow> int \<Rightarrow> 'a qstate \<Rightarrow> (qerror, unit, 'a qstate) outcome" where
  "tpq_shutdown E now s = shutdown E now s"

definition tpq_pop :: "'a qenv \<Rightarrow> 'a qstate \<Rightarrow> (qerror, 'a option, 'a qstate) outcome" where
  "tpq_pop E s = pop_front E s"

definition tpq_front :: "'a qenv \<Rightarrow> 'a qstate \<Rightarrow> (qerror, 'a option, 'a qstate) outcome" where
  "tpq_front E s = front E s"

definition tpq_empty :: "'a qstate \<Rightarrow> bool" where
  "tpq_empty s = pq_empty (fst s)"

definition tpq_size :: "'a qstate \<Rightarrow> nat" where
  "tpq_size s = pq_size (fst s)"

text \<open>The destructor takes the mutex and destroys the persisted queue, which shuts it down.\<close>

definition tpq_destroy :: "'a qenv \<Rightarrow> int \<Rightarrow> 'a qstate \<Rightarrow> (qerror, unit, 'a qstate) outcome" where
  "tpq_destroy E now s = destroy_queue E now s"

section \<open>A queue that can also be looked at\<close>

locale readable_queue = fifo_queue items ok fit push pop
  for items :: "'s \<Rightarrow> 'a list" and ok fit
    and push :: "int \<Rightarrow> 'a \<Rightarrow> 's \<Rightarrow> ('e, unit, 's) outcome" and pop +
  fixes peek :: "'s \<Rightarrow> ('e, 'a option, 's) outcome"
    and is_empty :: "'s \<Rightarrow> bool"
    and count :: "'s \<Rightarrow> nat"
  assumes peek_value: "ok n now s \<Longrightarrow> fst (peek s) = Inr (head_option (items s))"
    and peek_items: "ok n now s \<Longrightarrow> items (snd (peek s)) = items s"
    and peek_ok: "ok n now s \<Longrightarrow> ok n now (snd (peek s))"
    and empty_value: "ok n now s \<Longrightarrow> is_empty s \<longleftrightarrow> items s = []"
    and count_value: "ok n now s \<Longrightarrow> count s = length (items s)"
begin

lemma peek_then_pop:
  assumes "ok n now s"
  shows "fst (pop (snd (peek s))) = fst (peek s)"
  using pop_value [OF peek_ok [OF assms]] peek_items [OF assms] peek_value [OF assms] by simp

lemma empty_count: "ok n now s \<Longrightarrow> is_empty s \<longleftrightarrow> count s = 0"
  by (simp add: empty_value count_value)

lemma count_after_push:
  "ok (Suc n) now s \<Longrightarrow> fit x \<Longrightarrow> fst (push now x s) = Inr u \<Longrightarrow>
   count (snd (push now x s)) = Suc (count s)"
  using count_value [OF push_ok] push_items count_value by fastforce

end

lemma queue_ok_front:
  assumes "queue_ok E n now s"
  shows "queue_ok E n now (snd (front E s))"
    and "fst (front E s) = Inr (head_option (contents E s))"
    and "contents E (snd (front E s)) = contents E s"
proof -
  obtain q d where s: "s = (q, d)" by (cases s)
  have a: "queue_env E" "pq_inv E (q, d)" "ready E n now (q, d)" "\<not> shut_down q"
    using assms by (simp_all add: queue_ok_def s)
  obtain q' d' where p: "front E (q, d) = (Inr (head_option (contents E (q, d))), (q', d'))"
    "contents E (q', d') = contents E (q, d)" "pq_inv E (q', d')" "names_frame q q'"
    "shut_down q' = shut_down q"
    using front_ok [OF a(2)] unfolding head_option_def by metis
  show "queue_ok E n now (snd (front E s))"
    "fst (front E s) = Inr (head_option (contents E s))"
    "contents E (snd (front E s)) = contents E s"
    using p a ready_frame [OF a(3) p(4)] by (simp_all add: queue_ok_def s)
qed

lemmas tpq_defs = tpq_push_def tpq_pop_def tpq_front_def tpq_empty_def tpq_size_def

interpretation safe_queue:
  readable_queue "contents E" "queue_ok E" "storable E" "tpq_push E" "tpq_pop E"
    "tpq_front E" tpq_empty tpq_size for E
proof unfold_locales
  show "queue_ok E n now s \<Longrightarrow> tpq_empty s \<longleftrightarrow> contents E s = []" for n now s
    by (cases s) (simp add: tpq_defs queue_ok_def pq_empty_iff)
  show "queue_ok E n now s \<Longrightarrow> tpq_size s = length (contents E s)" for n now s
    by (cases s) (simp add: tpq_defs queue_ok_def pq_size_contents)
qed (auto simp: tpq_defs queue_ok_front intro: pqueue.push_ok pqueue.push_items pqueue.pop_value
    pqueue.pop_items pqueue.pop_ok pqueue.later pqueue.fewer)

section \<open>Calls from several threads\<close>

datatype 'a tcall = Push 'a | Pop | Front | Empty | Size | Shutdown

datatype 'a treply = Returned | Item "'a option" | Flag bool | Count nat | Threw qerror

definition unit_reply :: "(qerror, unit, 's) outcome \<Rightarrow> 'a treply \<times> 's" where
  "unit_reply r = (case fst r of Inl e \<Rightarrow> Threw e | Inr u \<Rightarrow> Returned, snd r)"

definition item_reply :: "(qerror, 'a option, 's) outcome \<Rightarrow> 'a treply \<times> 's" where
  "item_reply r = (case fst r of Inl e \<Rightarrow> Threw e | Inr x \<Rightarrow> Item x, snd r)"

fun safe_call :: "'a qenv \<Rightarrow> int \<Rightarrow> 'a tcall \<Rightarrow> 'a qstate \<Rightarrow> 'a treply \<times> 'a qstate" where
  "safe_call E now (Push x) s = unit_reply (tpq_push E now x s)"
| "safe_call E now Pop s = item_reply (tpq_pop E s)"
| "safe_call E now Front s = item_reply (tpq_front E s)"
| "safe_call E now Empty s = (Flag (tpq_empty s), s)"
| "safe_call E now Size s = (Count (tpq_size s), s)"
| "safe_call E now Shutdown s = unit_reply (tpq_shutdown E now s)"

definition locked :: "'a tcall \<Rightarrow> bool" where
  "locked c \<longleftrightarrow> (case c of Shutdown \<Rightarrow> False | _ \<Rightarrow> True)"

type_synonym 'a tsys = "(int, 'a tcall, 'a treply, 'a qstate) monitor"

definition tstep :: "'a qenv \<Rightarrow> 'a tsys \<Rightarrow> 'a tsys \<Rightarrow> bool" where
  "tstep E = mstep (\<le>) (safe_call E) locked"

abbreviation reachable :: "'a qenv \<Rightarrow> 'a tsys \<Rightarrow> 'a tsys \<Rightarrow> bool" where
  "reachable E \<equiv> (tstep E)\<^sup>*\<^sup>*"

lemma not_locked [simp]: "\<not> locked c \<longleftrightarrow> c = Shutdown"
  by (cases c) (simp_all add: locked_def)

lemma no_shutdown: "all_locked locked \<sigma> \<longleftrightarrow> Shutdown \<notin> set (log_calls (log \<sigma>))"
  unfolding all_locked_member using not_locked by metis

lemma chain_clock: "chain (\<le>) now ts \<longleftrightarrow> clock_from now ts"
  by (induction ts arbitrary: now) (simp_all add: clock_from_def [of _ "[]"])

section \<open>First in, first out over a log\<close>

fun accepted :: "(int \<times> 'a tcall \<times> 'a treply) list \<Rightarrow> 'a list" where
  "accepted [] = []"
| "accepted ((t, Push x, Returned) # hs) = x # accepted hs"
| "accepted (h # hs) = accepted hs"

fun delivered :: "(int \<times> 'a tcall \<times> 'a treply) list \<Rightarrow> 'a list" where
  "delivered [] = []"
| "delivered ((t, Pop, Item (Some x)) # hs) = x # delivered hs"
| "delivered (h # hs) = delivered hs"

fun offered :: "'a tcall list \<Rightarrow> 'a list" where
  "offered [] = []"
| "offered (Push x # cs) = x # offered cs"
| "offered (c # cs) = offered cs"

lemma replay_fifo:
  "queue_ok E n now s \<Longrightarrow> length (offered (log_calls hs)) \<le> n \<Longrightarrow> Shutdown \<notin> set (log_calls hs) \<Longrightarrow>
   clock_from now (map fst hs) \<Longrightarrow> \<forall>x\<in>set (offered (log_calls hs)). storable E x \<Longrightarrow>
   replay (safe_call E) hs s = (map (snd \<circ> snd) hs, s') \<Longrightarrow>
   delivered hs @ contents E s' = contents E s @ accepted hs"
proof (induction hs arbitrary: n now s)
  case (Cons h hs)
  obtain t c r where h: "h = (t, c, r)" by (metis prod_cases3)
  have okt: "queue_ok E n t s"
    using Cons.prems(1,4) h safe_queue.later [of E n now s t] by simp
  obtain s1 where c: "safe_call E t c s = (r, s1)" and rest: "replay (safe_call E) hs s1 = (map (snd \<circ> snd) hs, s')"
    using Cons.prems(6) h by (auto simp: Let_def split: prod.splits)
  note IH = Cons.IH [OF _ _ _ _ _ rest]
  have tail: "Shutdown \<notin> set (log_calls hs)" "clock_from t (map fst hs)"
    "\<forall>x\<in>set (offered (log_calls hs)). storable E x"
    using Cons.prems(3-5) h by (cases c; simp)+
  show ?case
  proof (cases c)
    case (Push x)
    obtain m where m: "n = Suc m" "length (offered (log_calls hs)) \<le> m" "storable E x"
      using Cons.prems(2,5) h Push by (cases n) auto
    note laws = safe_queue.push_ok [OF okt [unfolded m(1)] m(3)]
      safe_queue.push_items [OF okt [unfolded m(1)] m(3)]
    show ?thesis
      using c h Push laws IH [OF _ m(2) tail(1,2,3)]
      by (auto simp: unit_reply_def split: sum.splits)
  next
    case Pop
    have "length (offered (log_calls hs)) \<le> n" using Cons.prems(2) h Pop by simp
    with c h Pop safe_queue.pop_ok [OF okt] safe_queue.pop_items [OF okt] safe_queue.pop_value [OF okt]
      IH [OF _ this tail(1,2,3)]
    show ?thesis by (cases "contents E s") (auto simp: item_reply_def)
  next
    case Front
    have "length (offered (log_calls hs)) \<le> n" using Cons.prems(2) h Front by simp
    with c h Front safe_queue.peek_ok [OF okt] safe_queue.peek_items [OF okt]
      IH [OF _ this tail(1,2,3)]
    show ?thesis by (auto simp: item_reply_def)
  next
    case Empty
    with c have "s1 = s" by simp
    with c h Empty okt Cons.prems(2) IH [OF _ _ tail(1,2,3)] show ?thesis
      by auto
  next
    case Size
    with c have "s1 = s" by simp
    with c h Size okt Cons.prems(2) IH [OF _ _ tail(1,2,3)] show ?thesis
      by auto
  next
    case Shutdown
    then show ?thesis using Cons.prems(3) h by simp
  qed
qed simp

end
