(* ===== verification/Queue_Demo.thy ===== *)
theory Queue_Demo
  imports Queue_Fresh Safe_Queue
begin

text \<open>
  A concrete queue: strings, two objects to a page, in the directory \<open>/q\<close> of a disk that
  refuses nothing, on POSIX paths; empty and with five objects.
\<close>

definition demo_env :: "string qenv" where
  "demo_env = posix_env Some Some"

definition demo_disk :: disk where
  "demo_disk = \<lparr>entries = [(''/q'', Directory)], rd_ok = (\<lambda>_. True), wr_ok = (\<lambda>_. True),
     rm_ok = (\<lambda>_. True)\<rparr>"

definition demo_new :: "string qstate" where
  "demo_new = snd (open_queue demo_env ''t'' ''/q'' 2 demo_disk)"

definition push_all :: "'a qenv \<Rightarrow> int \<Rightarrow> 'a list \<Rightarrow> 'a qstate \<Rightarrow> 'a qstate" where
  "push_all E now xs s = fold (\<lambda>x s. snd (push_back E now x s)) xs s"

definition demo_full :: "string qstate" where
  "demo_full = push_all demo_env 5 [''a'', ''b'', ''c'', ''d'', ''e''] demo_new"

lemma push_all_ok:
  "queue_ok E (n + length xs) now s \<Longrightarrow> \<forall>x\<in>set xs. storable E x \<Longrightarrow>
   queue_ok E n now (push_all E now xs s)"
  by (induction xs arbitrary: s) (simp_all add: push_all_def pqueue.push_ok)

lemma demo_queue_env: "queue_env demo_env"
  unfolding demo_env_def by (rule posix.queue_env_axioms)

lemma demo_storable: "storable demo_env s \<longleftrightarrow> newline \<notin> set s \<and> nul \<notin> set s"
  by (simp add: storable_def demo_env_def posix_env_def)

lemma demo_accessible: "disk_accessible demo_disk"
  by (simp add: disk_accessible_def demo_disk_def)

lemma demo_new_ok: "0 < now \<Longrightarrow> n < 10000 \<Longrightarrow> queue_ok demo_env n now demo_new"
proof -
  assume "0 < now" "n < 10000"
  have orphan: "orphans demo_env ''/q'' ''t'' demo_disk = []" by code_simp
  show ?thesis
  proof (rule queue_env.orphan_recovery [OF demo_queue_env, of "''t''" 2 0 "[]" demo_disk "''/q''"])
    show "literal_name ''t''" by code_simp
    show "node_at demo_disk ''/q'' = Some Directory" by code_simp
    show "\<not> disk_is_regular demo_disk (path_append demo_env ''/q'' (''t'' @ ''_STATE''))"
      by code_simp
    show "saved demo_env demo_disk 2 (map (stamp_path demo_env ''/q'' ''t'') [])"
      by (simp add: saved_def demo_accessible)
  next
    fix q' d'
    assume "open_queue demo_env ''t'' ''/q'' 2 demo_disk = (Inr (), (q', d'))"
      "pq_inv demo_env (q', d')" "\<not> shut_down q'"
      "\<forall>now m. (\<forall>st\<in>set []. fst st < now) \<longrightarrow> 0 < now \<longrightarrow> m < 10000 \<longrightarrow> ready demo_env m now (q', d')"
    then show "queue_ok demo_env n now demo_new"
      using \<open>0 < now\<close> \<open>n < 10000\<close> demo_queue_env by (simp add: queue_ok_def demo_new_def)
  qed (simp_all add: stamps_ok_def orphan, simp add: demo_disk_def)
qed

lemma demo_full_ok: "n < 9990 \<Longrightarrow> queue_ok demo_env n 5 demo_full"
  unfolding demo_full_def
  by (rule push_all_ok) (simp_all add: demo_new_ok demo_storable)

lemma demo_full_contents: "contents demo_env demo_full = [''a'', ''b'', ''c'', ''d'', ''e'']"
  by code_simp

end
