(* ===== verification/Queue_Theorems.thy ===== *)
theory Queue_Theorems
  imports Queue_Demo
begin

text \<open>
  The properties of the persisted queue and of its thread-safe wrapper, each with an
  application to the concrete queue of \<open>Queue_Demo\<close>.
\<close>

section \<open>The persisted queue is a list\<close>

text \<open>
  C1. Pushing an object its coder can read back either appends it to the queue's contents or
  throws \<open>CouldNotWriteQueueFile\<close> for a page file that could not be opened, in which case the
  contents are unchanged. Either way the queue's invariant holds afterwards and the clock
  still leaves names for one push less.
\<close>

theorem push_back_appends:
  assumes "queue_ok E (Suc n) now s" and "storable E x"
  shows "(case fst (push_back E now x s) of
      Inr u \<Rightarrow> contents E (snd (push_back E now x s)) = contents E s @ [x]
    | Inl e \<Rightarrow> (\<exists>fn. e = CouldNotWriteQueueFile fn \<and> \<not> disk_can_write (snd s) fn) \<and>
        contents E (snd (push_back E now x s)) = contents E s) \<and>
    queue_ok E n now (snd (push_back E now x s))"
proof -
  obtain q d where s: "s = (q, d)" by (cases s)
  have a: "queue_env E" "pq_inv E (q, d)" "ready E (Suc n) now (q, d)" "\<not> shut_down q"
    using assms(1) by (simp_all add: queue_ok_def s)
  show ?thesis
    by (rule queue_env.push_back_cases [OF a assms(2)]) (use a in \<open>auto simp: queue_ok_def s\<close>)
qed

lemma push_back_appends_witness:
  "contents demo_env (snd (push_back demo_env 5 ''f'' demo_full)) =
     [''a'', ''b'', ''c'', ''d'', ''e'', ''f'']"
proof -
  have "fst (push_back demo_env 5 ''f'' demo_full) = Inr ()" by code_simp
  with push_back_appends [OF demo_full_ok [of "Suc 0"], of "''f''"]
  show ?thesis by (simp add: demo_storable demo_full_contents)
qed

text \<open>
  C2. Popping returns the oldest object (a null pointer when there is none), wherever it is,
  and leaves the rest; \<open>front\<close> returns the same object and leaves all. Neither throws on a
  queue in good order, although either may have to load a page from a file.
\<close>

theorem pop_front_oldest:
  assumes "queue_ok E n now s"
  shows "fst (pop_front E s) = Inr (head_option (contents E s)) \<and>
    contents E (snd (pop_front E s)) = tl (contents E s) \<and>
    fst (front E s) = Inr (head_option (contents E s)) \<and>
    contents E (snd (front E s)) = contents E s \<and>
    queue_ok E n now (snd (pop_front E s)) \<and> queue_ok E n now (snd (front E s))"
  using pqueue.pop_value [OF assms] pqueue.pop_items [OF assms] pqueue.pop_ok [OF assms]
    queue_ok_front [OF assms] by simp

lemma pop_front_oldest_witness:
  "fst (pop_front demo_env demo_full) = Inr (Some ''a'') \<and>
   contents demo_env (snd (pop_front demo_env demo_full)) = [''b'', ''c'', ''d'', ''e'']"
  using pop_front_oldest [OF demo_full_ok [of 0]] by (simp add: demo_full_contents)

text \<open>
  C3. First in, first out: over any run of pushes and pops at times that do not go back, what
  the pops returned, followed by what is still inside, is what was inside, followed by the
  objects whose push did not throw.
\<close>

theorem queue_history:
  assumes "queue_ok E n now s" and "length (pushes_of ops) \<le> n" and "clock_from now (map fst ops)"
    and "\<forall>x\<in>set (pushes_of ops). storable E x"
    and "run_ops (push_back E) (pop_front E) ops s = (ins, outs, s')"
  shows "outs @ contents E s' = contents E s @ ins"
  using assms by (rule pqueue.history)

lemma queue_history_witness:
  "fst (snd (run_ops (push_back demo_env) (pop_front demo_env)
     [(5, Enq ''x''), (5, Deq), (6, Enq ''y''), (6, Deq), (6, Deq)] demo_full)) =
   [''a'', ''b'', ''c'']"
proof -
  let ?ops = "[(5, Enq ''x''), (5, Deq), (6, Enq ''y''), (6, Deq), (6, Deq)]"
  obtain ins outs s' where r: "run_ops (push_back demo_env) (pop_front demo_env) ?ops demo_full =
      (ins, outs, s')" by (metis prod.exhaust)
  have ev: "(case run_ops (push_back demo_env) (pop_front demo_env) ?ops demo_full of
      (ins, outs, s') \<Rightarrow> ins = [''x'', ''y''] \<and>
        contents demo_env s' = [''d'', ''e'', ''x'', ''y''])" by code_simp
  have "outs @ contents demo_env s' = contents demo_env demo_full @ ins"
    by (rule queue_history [OF demo_full_ok [of 2] _ _ _ r])
      (simp_all add: clock_from_def demo_storable)
  with ev r show ?thesis by (simp add: demo_full_contents)
qed

section \<open>Durability\<close>

text \<open>
  C4. Shutting a queue down and constructing it again on the disk that is left, under the same
  name and with the same page size, gives a queue in good order with the same contents in the
  same order. The hypotheses: the queue is not empty, the three kinds of files can be written,
  and neither the directory nor the queue's name contains a line break.
\<close>

theorem shutdown_keeps_contents:
  assumes "queue_ok E (Suc n) now (q, d)" and "contents E (q, d) \<noteq> []"
    and "disk_can_write d (page_path E q ''0'')" and "disk_can_write d (stateFilePath q)"
    and "disk_can_write d (page_path E q (seq_text now (next_count now q)))"
    and "newline \<notin> set (workingDirectory q)" and "newline \<notin> set (queueName q)"
    and "0 \<le> now" and "now < now'" and "m < 10000"
  shows "\<exists>q1 d1 q2 d2. shutdown E now (q, d) = (Inr (), (q1, d1)) \<and>
    open_queue E (queueName q) (workingDirectory q) (maxItemsPerPage q) d1 = (Inr (), (q2, d2)) \<and>
    contents E (q2, d2) = contents E (q, d) \<and> queue_ok E m now' (q2, d2)"
proof -
  have a: "queue_env E" "pq_inv E (q, d)" "ready E (Suc n) now (q, d)"
    using assms(1) by (simp_all add: queue_ok_def)
  show ?thesis
    by (rule queue_env.shutdown_reopen [OF a(1-3) assms(2-5) assms(6,7)])
      (use assms a(1) in \<open>fastforce simp: queue_ok_def\<close>)+
qed

lemma shutdown_keeps_contents_witness:
  "\<exists>q2 d2. open_queue demo_env ''t'' ''/q'' 2 (snd (snd (shutdown demo_env 5 demo_full))) =
     (Inr (), (q2, d2)) \<and> contents demo_env (q2, d2) = [''a'', ''b'', ''c'', ''d'', ''e'']"
proof -
  obtain q d where s: "demo_full = (q, d)" by (metis prod.exhaust)
  have "queueName (fst demo_full) = ''t'' \<and> workingDirectory (fst demo_full) = ''/q'' \<and>
      maxItemsPerPage (fst demo_full) = 2 \<and>
      disk_can_write (snd demo_full) (page_path demo_env (fst demo_full) ''0'') \<and>
      disk_can_write (snd demo_full) (stateFilePath (fst demo_full)) \<and>
      disk_can_write (snd demo_full) (page_path demo_env (fst demo_full)
        (seq_text 5 (next_count 5 (fst demo_full))))"
    by code_simp
  then have f: "queueName q = ''t''" "workingDirectory q = ''/q''" "maxItemsPerPage q = 2"
    and wr: "disk_can_write d (page_path demo_env q ''0'')" "disk_can_write d (stateFilePath q)"
    "disk_can_write d (page_path demo_env q (seq_text 5 (next_count 5 q)))"
    by (simp_all add: s)
  have c: "contents demo_env (q, d) = [''a'', ''b'', ''c'', ''d'', ''e'']"
    using demo_full_contents by (simp add: s)
  show ?thesis
    using shutdown_keeps_contents [OF demo_full_ok [of "Suc 0", unfolded s] _ wr, of 6 0] f c
    by (auto simp: s)
qed

text \<open>
  C5. Recovery without a state file, as after a crash: when the regular files of the directory
  that match the queue's regular expression are the pages of a list of stamps in the order of
  writing, whose times have equally many digits, and the pages can be loaded, then constructing
  the queue gives a queue in good order with the pages' objects in the order of the stamps.
\<close>

theorem crash_recovery:
  assumes "queue_env E" and "literal_name name" and "0 < M" and "stamps_ok k sts"
    and "node_at d wdir = Some Directory" and "distinct (map fst (disk.entries d))"
    and "\<not> disk_is_regular d (path_append E wdir (name @ ''_STATE''))"
    and "set (orphans E wdir name d) = stamp_path E wdir name ` set sts"
    and "saved E d M (map (stamp_path E wdir name) sts)"
    and "\<forall>st\<in>set sts. fst st < now" and "0 < now" and "n < 10000"
  shows "\<exists>s. open_queue E name wdir M d = (Inr (), s) \<and> queue_ok E n now s \<and>
    contents E s = concat (map (\<lambda>st. file_items E d (stamp_path E wdir name st)) sts)"
  by (rule queue_env.orphan_recovery [OF assms(1-9)])
    (use assms in \<open>fastforce simp: queue_ok_def comp_def\<close>)

definition crash_disk :: disk where
  "crash_disk = demo_disk\<lparr>entries :=
     [(''/q/t_110000'', Regular ''c\<newline>''), (''/q/t_100000'', Regular ''a\<newline>''),
      (''/q'', Directory), (''/q/t_100001'', Regular ''b\<newline>''), (''/q/u_100001'', Regular ''z'')]\<rparr>"

lemma crash_recovery_witness:
  "\<exists>s. open_queue demo_env ''t'' ''/q'' 1 crash_disk = (Inr (), s) \<and>
     contents demo_env s = [''a'', ''b'', ''c'']"
proof -
  let ?sts = "[(10, 0), (10, 1), (11, 0)] :: (int \<times> u32) list"
  have found: "set (orphans demo_env ''/q'' ''t'' crash_disk) = stamp_path demo_env ''/q'' ''t'' ` set ?sts"
    by code_simp
  have items: "map (\<lambda>st. file_items demo_env crash_disk (stamp_path demo_env ''/q'' ''t'' st)) ?sts =
      [[''a''], [''b''], [''c'']]" by code_simp
  have paths: "map (stamp_path demo_env ''/q'' ''t'') ?sts =
      [''/q/t_100000'', ''/q/t_100001'', ''/q/t_110000'']" by code_simp
  have pages: "map (file_page demo_env crash_disk) [''/q/t_100000'', ''/q/t_100001'', ''/q/t_110000''] =
      [Some [''a''], Some [''b''], Some [''c'']]" by code_simp
  have "saved demo_env crash_disk 1 (map (stamp_path demo_env ''/q'' ''t'') ?sts)"
    unfolding paths using pages demo_accessible
    by (simp add: saved_def good_file_def file_items_def demo_storable disk_accessible_def crash_disk_def)
  moreover have "stamps_ok 2 ?sts" "literal_name ''t''" by code_simp+
  moreover have "node_at crash_disk ''/q'' = Some Directory" "distinct (map fst (disk.entries crash_disk))"
    "\<not> disk_is_regular crash_disk (path_append demo_env ''/q'' (''t'' @ ''_STATE''))" by code_simp+
  ultimately show ?thesis
    using crash_recovery [OF demo_queue_env _ _ _ _ _ _ found, of 1 2 12 0] items by auto
qed

section \<open>Clearing, size, emptiness\<close>

text \<open>
  \<open>clear\<close>, a loop of pops until the queue is empty, returns, without an exception, and
  leaves an empty queue in good order.
\<close>

theorem clear_returns:
  assumes "queue_ok E n now s"
  shows "\<exists>s'. clear E s = Some (Inr (), s') \<and> contents E s' = [] \<and> queue_ok E n now s' \<and>
    pq_empty (fst s')"
proof -
  obtain q d where s: "s = (q, d)" by (cases s)
  have a: "queue_env E" "pq_inv E (q, d)" "ready E n now (q, d)" "\<not> shut_down q"
    using assms by (simp_all add: queue_ok_def s)
  obtain q' d' where c: "clear E (q, d) = Some (Inr (), (q', d'))" "contents E (q', d') = []"
    "pq_inv E (q', d')" "names_frame q q'" "\<not> shut_down q'"
    using clear_ok [OF a(2,4)] clear_open [OF a(2,4)] by metis
  then show ?thesis
    using a ready_frame [OF a(3) c(4)] by (auto simp: s queue_ok_def pq_empty_iff [OF c(3)])
qed

lemma clear_returns_witness:
  "\<exists>s'. clear demo_env demo_full = Some (Inr (), s') \<and> contents demo_env s' = []"
  using clear_returns [OF demo_full_ok [of 0]] by auto

text \<open>
  \<open>size()\<close> is the number of objects held, which is right although the queue only counts
  its page files, and \<open>empty()\<close> is true exactly when there are none.
\<close>

theorem size_and_empty:
  assumes "queue_ok E n now s"
  shows "pq_size (fst s) = length (contents E s) \<and> (pq_empty (fst s) \<longleftrightarrow> contents E s = [])"
  using assms by (cases s) (simp add: queue_ok_def pq_size_contents pq_empty_iff)

lemma size_and_empty_witness: "pq_size (fst demo_full) = 5 \<and> \<not> pq_empty (fst demo_full)"
  using size_and_empty [OF demo_full_ok [of 0]] by (simp add: demo_full_contents)

section \<open>Names of page files\<close>

text \<open>
  Two page names of a queue are equal only if they carry the same second and the same
  count, as long as fewer than ten thousand pages are written within a second; and names whose
  times have equally many digits sort in the order of writing.
\<close>

theorem page_names_ordered:
  assumes "unat c < 10000" and "unat c' < 10000"
  shows "(seq_text t c = seq_text t' c' \<longleftrightarrow> t = t' \<and> c = c') \<and>
    (0 \<le> t \<and> 0 \<le> t' \<and> length (show_int t) = length (show_int t') \<longrightarrow>
       (seq_text t c < seq_text t' c' \<longleftrightarrow> t < t' \<or> t = t' \<and> c < c'))"
  using assms by (simp add: seq_text_eq seq_text_order)

lemma page_names_ordered_witness: "seq_text 1700000000 9 < seq_text 1700000000 10"
  using page_names_ordered [of 9 10 1700000000 1700000000] by simp

text \<open>
  Beyond that bound both fail: a name with the count ten thousand is the name another
  second and count give, and it sorts before names written earlier.
\<close>

theorem page_names_overflow:
  "seq_text 170 10000 = seq_text 1701 0 \<and> seq_text 170 10000 < seq_text 170 9999"
  by (simp add: seq_text_def show_int_def show_nat_snoc show_nat_single digit_char_def)

section \<open>What the code loses\<close>

definition demo_three :: "string qstate" where
  "demo_three = push_all demo_env 5 [''a'', ''b'', ''c'']
     (snd (open_queue demo_env ''t'' ''/q'' 1 demo_disk))"

definition reopened :: "disk \<Rightarrow> string list" where
  "reopened d = contents demo_env (snd (open_queue demo_env ''t'' ''/q'' 1 d))"


section \<open>Several threads\<close>

text \<open>
  C11. Any number of threads that push, pop and look at a \<open>ThreadsafePersistedQueue\<close>, in any
  interleaving in which no \<open>shutdown()\<close> has completed: at most one thread is inside a locked
  call, the results are those of the same calls made one after the other in the order in
  which they completed, and what was popped followed by what is still inside is what was inside
  followed by what was accepted.
\<close>

theorem threads_linearizable:
  assumes "reachable E (idle now s0) \<sigma>" and "Shutdown \<notin> set (log_calls (log \<sigma>))"
    and "queue_ok E n now s0" and "length (offered (log_calls (log \<sigma>))) \<le> n"
    and "\<forall>x\<in>set (offered (log_calls (log \<sigma>))). storable E x"
  shows "(\<forall>t t' c c' s s'. threads \<sigma> t = Inside c s \<and> locked c \<and>
      threads \<sigma> t' = Inside c' s' \<and> locked c' \<longrightarrow> t' = t) \<and>
    replay (safe_call E) (log \<sigma>) s0 = (map (snd \<circ> snd) (log \<sigma>), shared \<sigma>) \<and>
    delivered (log \<sigma>) @ contents E (shared \<sigma>) = contents E s0 @ accepted (log \<sigma>)"
proof (intro conjI)
  show "\<forall>t t' c c' s s'. threads \<sigma> t = Inside c s \<and> locked c \<and>
      threads \<sigma> t' = Inside c' s' \<and> locked c' \<longrightarrow> t' = t"
    using mutex_excludes [OF mutex_inv_reachable [OF assms(1) [unfolded tstep_def]]] by blast
  show r: "replay (safe_call E) (log \<sigma>) s0 = (map (snd \<circ> snd) (log \<sigma>), shared \<sigma>)"
    using atomic_inv_reachable [OF assms(1) [unfolded tstep_def]] assms(2) by (simp add: atomic_inv_def no_shutdown)
  show "delivered (log \<sigma>) @ contents E (shared \<sigma>) = contents E s0 @ accepted (log \<sigma>)"
    by (rule replay_fifo [OF assms(3,4,2) _ assms(5) r]) (use clock_reachable [OF assms(1) [unfolded tstep_def]] in \<open>simp add: chain_clock\<close>)
qed

lemma threads_linearizable_witness:
  "\<exists>\<sigma>. reachable demo_env (idle 5 demo_full) \<sigma> \<and>
     log_calls (log \<sigma>) = [Push ''x'', Pop] \<and>
     delivered (log \<sigma>) @ contents demo_env (shared \<sigma>) =
       [''a'', ''b'', ''c'', ''d'', ''e''] @ accepted (log \<sigma>)"
proof -
  let ?i = "idle 5 demo_full"
  have i: "threads ?i = (\<lambda>_. Outside)" "objectMutex ?i = None" "clock ?i = 5" "log ?i = []"
    by (simp_all add: idle_def)
  have lk: "locked (Push ''x'')" "locked (Pop :: string tcall)" by (simp_all add: locked_def)
  obtain \<sigma>1 where 1: "reachable demo_env ?i \<sigma>1" "threads \<sigma>1 = (\<lambda>_. Outside)"
    "objectMutex \<sigma>1 = None" "clock \<sigma>1 = 6" "log_calls (log \<sigma>1) = [Push ''x'']"
    by (rule locked_call_reachable [of "(\<le>)" "safe_call demo_env" locked ?i ?i 0 "Push ''x''" 6])
      (simp_all add: i lk tstep_def)
  obtain \<sigma>2 where 2: "reachable demo_env ?i \<sigma>2" "log_calls (log \<sigma>2) = [Push ''x'', Pop]"
    by (rule locked_call_reachable [OF 1(1) [unfolded tstep_def], of 7 Pop 6])
      (use 1 lk in \<open>simp_all add: tstep_def\<close>)
  have "delivered (log \<sigma>2) @ contents demo_env (shared \<sigma>2) =
      contents demo_env demo_full @ accepted (log \<sigma>2)"
    using threads_linearizable [OF 2(1) _ demo_full_ok [of "Suc 0"]] 2(2) by (simp add: demo_storable)
  with 2 show ?thesis by (auto simp: demo_full_contents)
qed

end
