(* ===== verification/Stats_Threads.thy ===== *)
theory Stats_Threads
  imports Stats_Keeper
begin

text \<open>
  The gathering thread of the statistics keeper beside the threads that count
  (kisscpp/statskeeper.cpp, \<open>gatherStats\<close>). \<open>increment\<close> and \<open>decrement\<close> hold \<open>statMutex\<close>, so there
  is at most one count under way; the gathering thread does not take it, so its accesses fall
  anywhere. The theory takes both apart: a count reads the counter and later writes it, the
  gathering thread reads a counter into its history and later sets it to zero. (The concurrent
  insertion into the maps themselves, which C++ leaves undefined, is not part of the model.)
\<close>

section \<open>The threads, access by access\<close>

text \<open>
  Where the gathering thread is: between two rounds, at a counter it is about to read, at a
  counter whose value it has read and that it has not reset yet, behind the last counter.
\<close>

datatype 'd gather_at = Between | At string | Taken string 'd | Behind

text \<open>
  \<open>counting\<close> is the count that holds the lock, with the value it has read. \<open>reported\<close> lists what
  has been put into the histories; \<open>lost\<close> and \<open>twice\<close> list, at each reset, how much of the counter
  vanishes unreported and how much of what was reported comes back.
\<close>

record ('d, 'q) keeper_threads =
  keeper :: "('d, 'q) stats"
  position :: "'d gather_at"
  counting :: "((bool \<times> string \<times> 'd) \<times> 'd) option"
  reported :: "(string \<times> 'd) list"
  lost :: "(string \<times> 'd) list"
  twice :: "(string \<times> 'd) list"

text \<open>The first counter of the map and the one behind \<open>i\<close>, as \<open>begin()\<close> and \<open>++itr\<close> find them.\<close>

definition first_counter :: "(string, 'd) smap \<Rightarrow> 'd gather_at" where
  "first_counter m = (case map fst m of [] \<Rightarrow> Behind | k # ks \<Rightarrow> At k)"

definition next_counter :: "string \<Rightarrow> (string, 'd) smap \<Rightarrow> 'd gather_at" where
  "next_counter i m = (case filter (\<lambda>k. i < k) (map fst m) of [] \<Rightarrow> Behind | k # ks \<Rightarrow> At k)"

text \<open>Whether a count of the counter \<open>i\<close> is under way.\<close>

definition counts_now :: "string \<Rightarrow> ('d, 'q) keeper_threads \<Rightarrow> bool" where
  "counts_now i s = (case counting s of None \<Rightarrow> False | Some ((up, j, v), w) \<Rightarrow> i = j)"

definition gather_access ::
  "(int \<Rightarrow> 'd::{zero,minus}) \<Rightarrow> (nat \<Rightarrow> 'd) \<Rightarrow> ('q \<Rightarrow> nat) \<Rightarrow> int \<Rightarrow> ('d, 'q) keeper_threads \<Rightarrow>
   ('d, 'q) keeper_threads" where
  "gather_access of_time of_size qsize now s =
     (let st = keeper s in
      case position s of
        Between \<Rightarrow>
          (let st1 = note_uptime of_time now st
           in s\<lparr>keeper := st1, position := first_counter (statsMap st1)\<rparr>)
      | At i \<Rightarrow>
          s\<lparr>keeper := st\<lparr>gatheredStatsMap := push_gathered i (value_at st i) (gatheredStatsMap st)\<rparr>,
            position := Taken i (value_at st i), reported := reported s @ [(i, value_at st i)]\<rparr>
      | Taken i r \<Rightarrow>
          s\<lparr>keeper := st\<lparr>statsMap := smap_put i 0 (statsMap st)\<rparr>, position := next_counter i (statsMap st),
            lost := (if counts_now i s then lost s else lost s @ [(i, value_at st i - r)]),
            twice := (if counts_now i s then twice s @ [(i, r)] else twice s)\<rparr>
      | Behind \<Rightarrow>
          s\<lparr>keeper := st\<lparr>gatheredStatsMap := trim_history (historyLength st)
               (gather_stats (map (\<lambda>(i, q). (i, of_size (qsize q))) (queueStatsMap st)) (gatheredStatsMap st))\<rparr>,
            position := Between\<rparr>)"

text \<open>A count takes the lock and reads its counter; it then writes it and gives the lock back.\<close>

definition count_begins :: "bool \<times> string \<times> 'd::zero \<Rightarrow> ('d, 'q) keeper_threads \<Rightarrow> ('d, 'q) keeper_threads" where
  "count_begins c s =
     (case counting s of
        None \<Rightarrow> s\<lparr>counting := Some (c, value_at (keeper s) (fst (snd c)))\<rparr>
      | Some _ \<Rightarrow> s)"

definition count_ends :: "('d::{plus,minus}, 'q) keeper_threads \<Rightarrow> ('d, 'q) keeper_threads" where
  "count_ends s =
     (case counting s of
        None \<Rightarrow> s
      | Some ((up, i, v), w) \<Rightarrow>
          s\<lparr>keeper := setStatValue i (if up then w + v else w - v) (keeper s), counting := None\<rparr>)"

datatype 'd keeper_event = Begins "bool \<times> string \<times> 'd" | Ends | Gathers int

fun keeper_step ::
  "(int \<Rightarrow> 'd::ab_group_add) \<Rightarrow> (nat \<Rightarrow> 'd) \<Rightarrow> ('q \<Rightarrow> nat) \<Rightarrow> 'd keeper_event \<Rightarrow>
   ('d, 'q) keeper_threads \<Rightarrow> ('d, 'q) keeper_threads" where
  "keeper_step of_time of_size qsize (Begins c) s = count_begins c s"
| "keeper_step of_time of_size qsize Ends s = count_ends s"
| "keeper_step of_time of_size qsize (Gathers now) s = gather_access of_time of_size qsize now s"

fun keeper_run ::
  "(int \<Rightarrow> 'd::ab_group_add) \<Rightarrow> (nat \<Rightarrow> 'd) \<Rightarrow> ('q \<Rightarrow> nat) \<Rightarrow> 'd keeper_event list \<Rightarrow>
   ('d, 'q) keeper_threads \<Rightarrow> ('d, 'q) keeper_threads" where
  "keeper_run of_time of_size qsize [] s = s"
| "keeper_run of_time of_size qsize (e # es) s =
     keeper_run of_time of_size qsize es (keeper_step of_time of_size qsize e s)"

definition keeper_start :: "('d, 'q) stats \<Rightarrow> ('d, 'q) keeper_threads" where
  "keeper_start st = \<lparr>keeper = st, position = Between, counting = None, reported = [], lost = [], twice = []\<rparr>"

section \<open>An undisturbed count and an undisturbed round are the calls\<close>

lemma count_undisturbed:
  fixes st :: "('d::ab_group_add, 'q) stats"
  shows "keeper_run of_time of_size qsize [Begins c, Ends] (keeper_start st) = keeper_start (apply_change c st)"
  by (cases c) (auto simp: keeper_start_def count_begins_def count_ends_def setStatValue_def value_at_def
      increment_def decrement_def split: option.split)

lemma value_at_fields [simp]:
  "value_at (st\<lparr>gatheredStatsMap := g\<rparr>) i = value_at st i"
  "value_at (st\<lparr>statsMap := smap_put j v (statsMap st)\<rparr>) i = (if i = j then v else value_at st i)"
  by (auto simp: value_at_def smap_find_put)

lemma put_inside:
  assumes "smap_wf (m1 @ (i, w) # m2)"
  shows "smap_put i v (m1 @ (i, w) # m2) = m1 @ (i, v) # m2"
    "smap_find (m1 @ (i, w) # m2) i = Some w"
    "next_counter i (m1 @ (i, w) # m2) = (case m2 of [] \<Rightarrow> Behind | e # es \<Rightarrow> At (fst e))"
proof -
  have before: "\<And>e. e \<in> set m1 \<Longrightarrow> fst e < i" and behind: "\<And>e. e \<in> set m2 \<Longrightarrow> i < fst e"
    using assms by (auto simp: smap_wf_def sorted_wrt_append)
  show "smap_put i v (m1 @ (i, w) # m2) = m1 @ (i, v) # m2"
    using before
  proof (induction m1)
    case (Cons e m1)
    then have "fst e < i" by simp
    with Cons show ?case by (cases e) (auto dest: less_asym)
  qed simp
  show "smap_find (m1 @ (i, w) # m2) i = Some w"
    using before by (induction m1) (auto simp: smap_find_def)
  have "filter (\<lambda>k. i < k) (map fst m1) = []" "filter (\<lambda>k. i < k) (map fst m2) = map fst m2"
    using before behind by (auto simp: filter_empty_conv filter_id_conv dest: less_asym)
  then show "next_counter i (m1 @ (i, w) # m2) = (case m2 of [] \<Rightarrow> Behind | e # es \<Rightarrow> At (fst e))"
    by (cases m2) (simp_all add: next_counter_def)
qed

lemma keeper_run_append:
  "keeper_run of_time of_size qsize (es1 @ es2) s =
   keeper_run of_time of_size qsize es2 (keeper_run of_time of_size qsize es1 s)"
  by (induction es1 arbitrary: s) simp_all

lemma undisturbed_loop:
  fixes s :: "('d::ab_group_add, 'q) keeper_threads"
  assumes "statsMap (keeper s) = m1 @ m2" "smap_wf (m1 @ m2)" "counting s = None"
    "position s = (case m2 of [] \<Rightarrow> Behind | e # es \<Rightarrow> At (fst e))"
  shows "keeper_run of_time of_size qsize (replicate (2 * length m2) (Gathers now)) s =
    s\<lparr>keeper := (keeper s)\<lparr>gatheredStatsMap := gather_stats m2 (gatheredStatsMap (keeper s)),
        statsMap := m1 @ map (\<lambda>(i, v). (i, 0)) m2\<rparr>,
      position := Behind, reported := reported s @ m2,
      lost := lost s @ map (\<lambda>(i, v). (i, 0)) m2\<rparr>"
  using assms
proof (induction m2 arbitrary: m1 s)
  case (Cons e m2)
  obtain i v where e: "e = (i, v)" by fastforce
  let ?step = "gather_access of_time of_size qsize now"
  note at = put_inside [OF Cons.prems(2) [unfolded e]]
  have val: "value_at (keeper s) i = v"
    using Cons.prems(1) at(2) by (simp add: value_at_def e)
  have two: "?step (?step s) =
      s\<lparr>keeper := (keeper s)\<lparr>gatheredStatsMap := push_gathered i v (gatheredStatsMap (keeper s)),
          statsMap := (m1 @ [(i, 0)]) @ m2\<rparr>,
        position := (case m2 of [] \<Rightarrow> Behind | e # es \<Rightarrow> At (fst e)),
        reported := reported s @ [(i, v)], lost := lost s @ [(i, 0)]\<rparr>" (is "_ = ?s2")
    using Cons.prems(1,3,4) by (simp add: gather_access_def Let_def e at val counts_now_def)
  have "smap_wf ((m1 @ [(i, 0)]) @ m2)"
    using Cons.prems(2) by (simp add: e smap_wf_def)
  with Cons.IH [of ?s2 "m1 @ [(i, 0)]"] Cons.prems(3) show ?case
    by (simp add: two e gather_stats_def)
qed (auto simp: gather_stats_def)

text \<open>The accesses of a round that nothing comes between are \<open>gather_round\<close>, and nothing is lost.\<close>

lemma round_undisturbed:
  fixes st :: "('d::ab_group_add, 'q) stats" and of_time :: "int \<Rightarrow> 'd" and now :: int
  assumes "stats_ok st"
  defines "m \<equiv> statsMap (note_uptime of_time now st)"
  shows "keeper_run of_time of_size qsize (replicate (2 + 2 * length m) (Gathers now)) (keeper_start st) =
    \<lparr>keeper = gather_round of_time of_size qsize now st, position = Between, counting = None,
     reported = m, lost = map (\<lambda>(i, v). (i, 0)) m, twice = []\<rparr>"
proof -
  have wf: "smap_wf m"
    using assms(1) by (simp add: m_def note_uptime_def stats_ok_def smap.wf_put)
  have fst_at: "first_counter m = (case m of [] \<Rightarrow> Behind | e # es \<Rightarrow> At (fst e))"
    by (cases m) (simp_all add: first_counter_def)
  let ?s1 = "gather_access of_time of_size qsize now (keeper_start st)"
  have s1: "?s1 = (keeper_start st)\<lparr>keeper := note_uptime of_time now st, position := first_counter m\<rparr>"
    by (simp add: gather_access_def keeper_start_def Let_def m_def)
  have "statsMap (keeper ?s1) = [] @ m" "smap_wf ([] @ m)" "counting ?s1 = None"
    "position ?s1 = (case m of [] \<Rightarrow> Behind | e # es \<Rightarrow> At (fst e))"
    unfolding s1 by (simp_all add: m_def [symmetric] wf fst_at keeper_start_def)
  note loop = undisturbed_loop [OF this, of of_time of_size qsize now]
  have split: "replicate (2 + 2 * length m) (Gathers now) =
      [Gathers now] @ replicate (2 * length m) (Gathers now) @ [Gathers now]"
    by (simp add: replicate_append_same)
  show ?thesis
    unfolding split keeper_run_append keeper_run.simps keeper_step.simps loop
    by (simp add: s1 keeper_start_def gather_access_def Let_def gather_round_def m_def note_uptime_def)
qed

section \<open>Accounting\<close>

definition sum_of :: "string \<Rightarrow> (string \<times> 'd::ab_group_add) list \<Rightarrow> 'd" where
  "sum_of i xs = sum_list (map snd (filter (\<lambda>e. fst e = i) xs))"

lemma sum_of_simps [simp]:
  "sum_of i [] = 0" "sum_of i (xs @ ys) = sum_of i xs + sum_of i ys"
  "sum_of i [(j, v)] = (if i = j then v else 0)"
  by (simp_all add: sum_of_def)

text \<open>The counts that are completed in a run, by what they add to the counter \<open>i\<close>.\<close>

fun counted :: "string \<Rightarrow> (bool \<times> string \<times> 'd) option \<Rightarrow> 'd::ab_group_add keeper_event list \<Rightarrow> 'd" where
  "counted i h [] = 0"
| "counted i h (Begins c # es) = counted i (case h of None \<Rightarrow> Some c | Some b \<Rightarrow> Some b) es"
| "counted i h (Ends # es) = (case h of None \<Rightarrow> 0 | Some c \<Rightarrow> change_at i c) + counted i None es"
| "counted i h (Gathers now # es) = counted i h es"

text \<open>What the counter will hold as far as the count under way is concerned.\<close>

definition held_value :: "string \<Rightarrow> ('d::ab_group_add, 'q) keeper_threads \<Rightarrow> 'd" where
  "held_value i s = (case counting s of Some ((up, j, v), w) \<Rightarrow> if i = j then w else value_at (keeper s) i
     | None \<Rightarrow> value_at (keeper s) i)"

definition just_read :: "string \<Rightarrow> ('d::ab_group_add, 'q) keeper_threads \<Rightarrow> 'd" where
  "just_read i s = (case position s of Taken j r \<Rightarrow> if i = j then r else 0 | _ \<Rightarrow> 0)"

definition account :: "string \<Rightarrow> ('d::ab_group_add, 'q) keeper_threads \<Rightarrow> 'd" where
  "account i s = held_value i s - just_read i s + sum_of i (reported s) + sum_of i (lost s) - sum_of i (twice s)"

lemma just_read_next:
  "position s = first_counter m \<Longrightarrow> just_read i s = 0" "position s = next_counter j n \<Longrightarrow> just_read i s = 0"
  by (simp_all add: just_read_def next_counter_def first_counter_def split: list.split)

lemma account_gathers:
  fixes s :: "('d::ab_group_add, 'q) keeper_threads"
  assumes "i \<noteq> uptime_id"
  shows "account i (gather_access of_time of_size qsize now s) = account i s"
proof (cases "position s")
  case Between
  then show ?thesis
    using assms just_read_next(1) [of "gather_access of_time of_size qsize now s"]
    by (auto simp: gather_access_def account_def Let_def held_value_def note_uptime_def just_read_def
        split: option.split)
next
  case (Taken j r)
  then show ?thesis
    using just_read_next(2) [of "gather_access of_time of_size qsize now s" j "statsMap (keeper s)"]
    by (auto simp: gather_access_def account_def Let_def held_value_def counts_now_def just_read_def
        algebra_simps split: option.splits)
qed (auto simp: gather_access_def account_def Let_def held_value_def just_read_def split: option.split)

lemma account_counts:
  fixes s :: "('d::ab_group_add, 'q) keeper_threads"
  shows "account i (count_begins c s) = account i s"
    "account i (count_ends s) = account i s + (case counting s of None \<Rightarrow> 0 | Some (c', w) \<Rightarrow> change_at i c')"
  by (cases c; auto simp: count_begins_def count_ends_def account_def just_read_def held_value_def
      setStatValue_def algebra_simps split: option.split)+

lemma counting_steps:
  "counting (gather_access of_time of_size qsize now s) = counting s"
  "counting (count_ends s) = None"
  "map_option fst (counting (count_begins c s)) =
     (case map_option fst (counting s) of None \<Rightarrow> Some c | Some b \<Rightarrow> Some b)"
  by (auto simp: gather_access_def count_ends_def count_begins_def Let_def split: gather_at.split option.split)

lemma account_run:
  fixes s :: "('d::ab_group_add, 'q) keeper_threads"
  assumes "i \<noteq> uptime_id"
  shows "account i (keeper_run of_time of_size qsize es s) =
    account i s + counted i (map_option fst (counting s)) es"
proof (induction es arbitrary: s)
  case (Cons e es)
  show ?case
  proof (cases e)
    case Ends
    then show ?thesis
      by (cases "counting s") (auto simp: Cons account_counts counting_steps algebra_simps)
  qed (simp_all add: Cons account_counts account_gathers [OF assms] counting_steps)
qed simp

text \<open>Runs in which no count is under way or completed between a counter's two accesses.\<close>

fun clear_of_resets ::
  "(int \<Rightarrow> 'd::ab_group_add) \<Rightarrow> (nat \<Rightarrow> 'd) \<Rightarrow> ('q \<Rightarrow> nat) \<Rightarrow> 'd keeper_event list \<Rightarrow>
   ('d, 'q) keeper_threads \<Rightarrow> bool" where
  "clear_of_resets of_time of_size qsize [] s = True"
| "clear_of_resets of_time of_size qsize (e # es) s =
     ((case position s of Taken i r \<Rightarrow> counting s = None \<and> (case e of Gathers now \<Rightarrow> True | _ \<Rightarrow> False) | _ \<Rightarrow> True) \<and>
      clear_of_resets of_time of_size qsize es (keeper_step of_time of_size qsize e s))"

definition reset_pending_ok :: "('d::zero, 'q) keeper_threads \<Rightarrow> bool" where
  "reset_pending_ok s = (case position s of Taken i r \<Rightarrow> value_at (keeper s) i = r | _ \<Rightarrow> True)"

lemma next_not_taken:
  "first_counter m \<noteq> Taken i r" "next_counter j m \<noteq> Taken i r"
  by (simp_all add: first_counter_def next_counter_def split: list.split)

lemma clear_step:
  fixes s :: "('d::ab_group_add, 'q) keeper_threads"
  assumes "clear_of_resets of_time of_size qsize (e # es) s" "reset_pending_ok s"
  defines "s' \<equiv> keeper_step of_time of_size qsize e s"
  shows "reset_pending_ok s'" "sum_of i (lost s') = sum_of i (lost s)" "twice s' = twice s"
  using assms
  by (cases e; cases "position s"; auto simp: reset_pending_ok_def gather_access_def Let_def counts_now_def
      count_begins_def count_ends_def next_not_taken split: gather_at.splits option.splits)+

lemma clear_run:
  fixes s :: "('d::ab_group_add, 'q) keeper_threads"
  assumes "clear_of_resets of_time of_size qsize es s" "reset_pending_ok s"
  shows "sum_of i (lost (keeper_run of_time of_size qsize es s)) = sum_of i (lost s) \<and>
    twice (keeper_run of_time of_size qsize es s) = twice s"
  using assms
proof (induction es arbitrary: s)
  case (Cons e es)
  note step = clear_step [OF Cons.prems]
  show ?case
    using Cons.IH [of "keeper_step of_time of_size qsize e s"] Cons.prems(1) step by simp
qed simp

section \<open>Properties\<close>


text \<open>
  A keeper that has counted 3 requests. A request counted between the read and the reset is lost;
  one whose count is in progress at the reset brings the three back.
\<close>

definition lossy_run :: "int keeper_event list" where
  "lossy_run = [Gathers 102, Gathers 102, Gathers 102, Gathers 102, Begins (True, ''req'', 1), Ends, Gathers 102]"

definition doubling_run :: "int keeper_event list" where
  "doubling_run = [Gathers 102, Gathers 102, Gathers 102, Begins (True, ''req'', 1), Gathers 102, Gathers 102, Ends]"


end
