(* ===== verification/Delayed_Queue.thy ===== *)
theory Delayed_Queue
  imports Safe_Queue Std_Map
begin

text \<open>
  Class template \<open>ThreadsafePersistedDelayedQueue\<close>
  (kisscpp/threadsafe_persisted_delayed_queue.hpp): objects pushed with a delay wait in
  \<open>delayedMap\<close>, one list per release time, until \<open>moveExpired\<close> hands them to the persisted
  queue. Every public call but \<open>shutdown\<close> holds the mutex, so a call is one state change.
  \<open>now\<close> is the time \<open>moveExpired\<close> reads and the page names use; \<open>push\<close> reads the time once
  more before, for the release time and for a push without delay (\<open>t\<close>).
\<close>

section \<open>State and operations\<close>

record 'a dq =
  persistedQ :: "'a pq"
  delayedMap :: "(int, 'a list) smap"

type_synonym 'a dstate = "'a dq \<times> disk"

definition on_persisted ::
  "('a qstate \<Rightarrow> (qerror, 'b, 'a qstate) outcome) \<Rightarrow> 'a dstate \<Rightarrow> (qerror, 'b, 'a dstate) outcome" where
  "on_persisted f s =
     (let (r, (q, d)) = f (persistedQ (fst s), snd s)
      in (r, ((fst s)\<lparr>persistedQ := q\<rparr>, d)))"

definition delayed_at :: "int \<Rightarrow> 'a dq \<Rightarrow> 'a list" where
  "delayed_at k q = (case smap_find (delayedMap q) k of None \<Rightarrow> [] | Some xs \<Rightarrow> xs)"

definition dq_open ::
  "'a qenv \<Rightarrow> string \<Rightarrow> string \<Rightarrow> nat \<Rightarrow> disk \<Rightarrow> (qerror, unit, 'a dstate) outcome" where
  "dq_open E name wdir maxItems d =
     (let (r, (q, d')) = open_queue E name wdir maxItems d
      in (r, (\<lparr>persistedQ = q, delayedMap = []\<rparr>, d')))"

text \<open>The inner loop, on the list stored under one release time.\<close>

fun drain_key ::
  "'a qenv \<Rightarrow> int \<Rightarrow> int \<Rightarrow> 'a list \<Rightarrow> 'a dstate \<Rightarrow> (qerror, unit, 'a dstate) outcome" where
  "drain_key E now k [] s = (Inr (), s)"
| "drain_key E now k (x # xs) s =
     and_then (on_persisted (push_back E now x) s)
       (\<lambda>_ s1. drain_key E now k xs
          ((fst s1)\<lparr>delayedMap := smap_put k xs (delayedMap (fst s1))\<rparr>, snd s1))"

fun move_keys ::
  "'a qenv \<Rightarrow> int \<Rightarrow> bool \<Rightarrow> int list \<Rightarrow> 'a dstate \<Rightarrow> (qerror, unit, 'a dstate) outcome" where
  "move_keys E now force_move [] s = (Inr (), s)"
| "move_keys E now force_move (k # ks) s =
     (if force_move \<or> k < now then
        and_then (drain_key E now k (delayed_at k (fst s)) s)
          (\<lambda>_ s1. move_keys E now force_move ks
             ((fst s1)\<lparr>delayedMap := smap_erase k (delayedMap (fst s1))\<rparr>, snd s1))
      else move_keys E now force_move ks s)"

definition moveExpired ::
  "'a qenv \<Rightarrow> int \<Rightarrow> bool \<Rightarrow> 'a dstate \<Rightarrow> (qerror, unit, 'a dstate) outcome" where
  "moveExpired E now force_move s =
     (if force_move \<or> pq_empty (persistedQ (fst s))
      then move_keys E now force_move (map fst (delayedMap (fst s))) s
      else (Inr (), s))"

definition dq_push ::
  "'a qenv \<Rightarrow> int \<Rightarrow> int \<Rightarrow> 'a \<Rightarrow> u32 \<Rightarrow> 'a dstate \<Rightarrow> (qerror, unit, 'a dstate) outcome" where
  "dq_push E t now p seconds2delay s =
     (let time2release = t + uint seconds2delay
      in and_then
           (if seconds2delay = 0 then on_persisted (push_back E t p) s
            else (Inr (), ((fst s)\<lparr>delayedMap :=
                    smap_put time2release (delayed_at time2release (fst s) @ [p])
                      (delayedMap (fst s))\<rparr>, snd s)))
           (\<lambda>_ s1. moveExpired E now False s1))"

definition dq_shutdown :: "'a qenv \<Rightarrow> int \<Rightarrow> 'a dstate \<Rightarrow> (qerror, unit, 'a dstate) outcome" where
  "dq_shutdown E now s =
     and_then (moveExpired E now True s) (\<lambda>_ s1. on_persisted (shutdown E now) s1)"

definition dq_pop :: "'a qenv \<Rightarrow> int \<Rightarrow> 'a dstate \<Rightarrow> (qerror, 'a option, 'a dstate) outcome" where
  "dq_pop E now s =
     and_then (moveExpired E now False s) (\<lambda>_ s1. on_persisted (pop_front E) s1)"

definition dq_empty :: "'a qenv \<Rightarrow> int \<Rightarrow> 'a dstate \<Rightarrow> (qerror, bool, 'a dstate) outcome" where
  "dq_empty E now s =
     and_then (moveExpired E now False s) (\<lambda>_ s1. (Inr (pq_empty (persistedQ (fst s1))), s1))"

definition dq_mapSize :: "'a dq \<Rightarrow> nat" where
  "dq_mapSize q = foldl (\<lambda>count e. count + length (snd e)) 0 (delayedMap q)"

definition dq_size :: "'a dq \<Rightarrow> nat" where
  "dq_size q = pq_size (persistedQ q) + dq_mapSize q"

text \<open>The destructor releases everything and destroys the persisted queue.\<close>

definition dq_destroy :: "'a qenv \<Rightarrow> int \<Rightarrow> 'a dstate \<Rightarrow> (qerror, unit, 'a dstate) outcome" where
  "dq_destroy E now s =
     and_then (moveExpired E now True s) (\<lambda>_ s1. on_persisted (destroy_queue E now) s1)"

section \<open>Everything the queue holds, in the order it would come out\<close>

definition dq_ready_items :: "'a qenv \<Rightarrow> 'a dstate \<Rightarrow> 'a list" where
  "dq_ready_items E s = contents E (persistedQ (fst s), snd s)"

definition map_items :: "(int, 'a list) smap \<Rightarrow> 'a list" where
  "map_items m = concat (map snd m)"

definition dq_items :: "'a qenv \<Rightarrow> 'a dstate \<Rightarrow> 'a list" where
  "dq_items E s = dq_ready_items E s @ map_items (delayedMap (fst s))"

definition due :: "int \<Rightarrow> (int, 'a list) smap \<Rightarrow> 'a list" where
  "due now m = map_items (filter (\<lambda>e. fst e < now) m)"

definition dq_ok :: "'a qenv \<Rightarrow> nat \<Rightarrow> int \<Rightarrow> 'a dstate \<Rightarrow> bool" where
  "dq_ok E n now s \<longleftrightarrow>
     queue_ok E (n + length (map_items (delayedMap (fst s)))) now (persistedQ (fst s), snd s) \<and>
     smap_wf (delayedMap (fst s)) \<and>
     (\<forall>x\<in>set (map_items (delayedMap (fst s))). storable E x)"

lemma map_items_simps [simp]:
  "map_items [] = []" "map_items ((k, xs) # m) = xs @ map_items m"
  by (simp_all add: map_items_def)

lemma on_persisted_simps [simp]:
  "fst (on_persisted f s) = fst (f (persistedQ (fst s), snd s))"
  "persistedQ (fst (snd (on_persisted f s))) = fst (snd (f (persistedQ (fst s), snd s)))"
  "delayedMap (fst (snd (on_persisted f s))) = delayedMap (fst s)"
  "snd (snd (on_persisted f s)) = snd (snd (f (persistedQ (fst s), snd s)))"
  by (simp_all add: on_persisted_def split: prod.split)

lemma smap_put_head [simp]: "smap_put k v ((k, w) # m) = (k, v) # m"
  by simp

lemma smap_erase_head: "smap_wf ((k, v) # m) \<Longrightarrow> smap_erase k ((k, v) # m) = m"
  by (auto simp: smap_erase_def smap_wf_def filter_id_conv)

text \<open>A push that throws uses up a name and moves nothing.\<close>

definition left_over :: "nat \<Rightarrow> 'e + 'b \<Rightarrow> nat" where
  "left_over n r = (case r of Inl e \<Rightarrow> n | Inr u \<Rightarrow> Suc n)"

lemma left_over_simps [simp]: "left_over n (Inl e) = n" "left_over n (Inr u) = Suc n"
  by (simp_all add: left_over_def)

lemma drain_key_ok:
  assumes "delayedMap (fst s) = (k, xs) # m" "dq_ok E (Suc n) now s"
  shows "dq_ok E (left_over n (fst (drain_key E now k xs s))) now (snd (drain_key E now k xs s)) \<and>
    dq_items E (snd (drain_key E now k xs s)) = dq_items E s \<and>
    (\<exists>ys. delayedMap (fst (snd (drain_key E now k xs s))) = (k, ys) # m \<and>
       (fst (drain_key E now k xs s) = Inr () \<longrightarrow> ys = []))"
  using assms
proof (induction xs arbitrary: s)
  case (Cons x xs)
  let ?p = "on_persisted (push_back E now x) s"
  let ?s = "((fst (snd ?p))\<lparr>delayedMap := smap_put k xs (delayedMap (fst (snd ?p)))\<rparr>, snd (snd ?p))"
  have ok: "queue_ok E (Suc (Suc n + length xs + length (map_items m))) now
      (persistedQ (fst s), snd s)" "storable E x"
    using Cons.prems by (simp_all add: dq_ok_def ac_simps)
  note laws = pqueue.push_ok [OF ok] pqueue.push_items [OF ok]
  show ?case
  proof (cases "fst ?p")
    case (Inl e)
    then have "drain_key E now k (x # xs) s = (Inl e, snd ?p)"
      by (cases ?p) simp
    then show ?thesis
      using Cons.prems Inl laws by (simp add: dq_ok_def dq_items_def dq_ready_items_def ac_simps)
  next
    case (Inr u)
    then have d: "drain_key E now k (x # xs) s = drain_key E now k xs ?s"
      by (cases ?p) simp
    have "delayedMap (fst ?s) = (k, xs) # m" "dq_ok E (Suc n) now ?s" "dq_items E ?s = dq_items E s"
      using Cons.prems Inr laws
      by (auto simp: dq_ok_def dq_items_def dq_ready_items_def ac_simps smap_wf_def)
    with Cons.IH [of ?s] d show ?thesis by simp
  qed
qed simp

lemma move_keys_skip:
  "\<forall>k\<in>set ks. \<not> (force \<or> k < now) \<Longrightarrow> move_keys E now force ks s = (Inr (), s)"
  by (induction ks) auto

text \<open>
  The loop over the keys: whatever happens, nothing is lost, duplicated or reordered; when it
  ends normally the entries that were due are gone and the others are as they were.
\<close>

definition stays :: "bool \<Rightarrow> int \<Rightarrow> int \<times> 'a list \<Rightarrow> bool" where
  "stays force now e \<longleftrightarrow> \<not> (force \<or> fst e < now)"

lemma move_keys_ok:
  assumes "delayedMap (fst s) = m" "dq_ok E (Suc n) now s"
  shows "dq_ok E (left_over n (fst (move_keys E now force (map fst m) s))) now
      (snd (move_keys E now force (map fst m) s)) \<and>
    dq_items E (snd (move_keys E now force (map fst m) s)) = dq_items E s \<and>
    (fst (move_keys E now force (map fst m) s) = Inr () \<longrightarrow>
       delayedMap (fst (snd (move_keys E now force (map fst m) s))) = filter (stays force now) m)"
  using assms
proof (induction m arbitrary: s)
  case (Cons e m)
  obtain k xs where e: "e = (k, xs)" by fastforce
  have wf: "smap_wf ((k, xs) # m)" and at_k: "delayed_at k (fst s) = xs"
    using Cons.prems e by (auto simp: dq_ok_def delayed_at_def smap_find_def)
  show ?case
  proof (cases "force \<or> k < now")
    case False
    with wf have later: "\<forall>k'\<in>set (k # map fst m). \<not> (force \<or> k' < now)"
      by (auto simp: smap_wf_def)
    then have kept: "filter (stays force now) (e # m) = e # m"
      using e by (auto simp: stays_def filter_id_conv)
    have "\<forall>k'\<in>set (map fst (e # m)). \<not> (force \<or> k' < now)" using later e by simp
    note skip = move_keys_skip [OF this]
    show ?thesis
      unfolding skip using Cons.prems kept by simp
  next
    case True
    let ?r = "drain_key E now k xs s"
    let ?s = "((fst (snd ?r))\<lparr>delayedMap := smap_erase k (delayedMap (fst (snd ?r)))\<rparr>, snd (snd ?r))"
    have "delayedMap (fst s) = (k, xs) # m" using Cons.prems(1) e by simp
    from drain_key_ok [OF this Cons.prems(2)]
    obtain ys where d: "dq_ok E (left_over n (fst ?r)) now (snd ?r)"
      "dq_items E (snd ?r) = dq_items E s" "delayedMap (fst (snd ?r)) = (k, ys) # m"
      "fst ?r = Inr () \<longrightarrow> ys = []" by blast
    have step: "move_keys E now force (map fst (e # m)) s =
        and_then ?r (\<lambda>_ s1. move_keys E now force (map fst m)
          ((fst s1)\<lparr>delayedMap := smap_erase k (delayedMap (fst s1))\<rparr>, snd s1))"
      using True e at_k by simp
    show ?thesis
    proof (cases "fst ?r")
      case (Inl err)
      then have "move_keys E now force (map fst (e # m)) s = (Inl err, snd ?r)"
        unfolding step by (cases ?r) simp
      with d Inl show ?thesis by simp
    next
      case (Inr u)
      then have eq: "move_keys E now force (map fst (e # m)) s = move_keys E now force (map fst m) ?s"
        unfolding step by (cases ?r) simp
      have "smap_wf ((k, ys) # m)" using d(1,3) by (simp add: dq_ok_def)
      then have "delayedMap (fst ?s) = m" "dq_ok E (Suc n) now ?s" "dq_items E ?s = dq_items E s"
        using d Inr smap.wf_erase [of "(k, ys) # m" k]
        by (auto simp: smap_erase_head dq_ok_def dq_items_def dq_ready_items_def)
      note IH = Cons.IH [OF this(1,2)] this(3)
      have "filter (stays force now) (e # m) = filter (stays force now) m"
        using True e by (simp add: stays_def [of _ _ "(k, xs)"])
      with IH show ?thesis unfolding eq by simp
    qed
  qed
qed simp

section \<open>The operations\<close>

lemma moveExpired_ok:
  assumes "dq_ok E (Suc n) now s"
  shows "dq_ok E (left_over n (fst (moveExpired E now force s))) now (snd (moveExpired E now force s))"
    and "dq_items E (snd (moveExpired E now force s)) = dq_items E s"
    and "fst (moveExpired E now force s) = Inr () \<Longrightarrow> force \<or> pq_empty (persistedQ (fst s)) \<Longrightarrow>
      delayedMap (fst (snd (moveExpired E now force s))) =
        filter (stays force now) (delayedMap (fst s))"
  using move_keys_ok [OF refl assms, of force] assms by (auto simp: moveExpired_def)

lemma moveExpired_busy:
  "\<not> pq_empty (persistedQ (fst s)) \<Longrightarrow> moveExpired E now False s = (Inr (), s)"
  by (simp add: moveExpired_def)

lemma dq_ok_empty:
  "dq_ok E n now s \<Longrightarrow> pq_empty (persistedQ (fst s)) \<longleftrightarrow> dq_ready_items E s = []"
  by (simp add: dq_ok_def queue_ok_def pq_empty_iff dq_ready_items_def)

lemma wf_split_due:
  "smap_wf m \<Longrightarrow> map_items m = due now m @ map_items (filter (stays False now) m)"
proof (induction m)
  case (Cons e m)
  obtain k xs where e: "e = (k, xs)" by fastforce
  have wf: "smap_wf m" using Cons.prems by (simp add: smap_wf_def)
  show ?case
  proof (cases "k < now")
    case True
    with Cons.IH [OF wf] e show ?thesis by (simp add: due_def stays_def)
  next
    case False
    then have "\<forall>e'\<in>set m. \<not> fst e' < now" using Cons.prems e by (auto simp: smap_wf_def)
    then have "filter (\<lambda>e. fst e < now) m = []" "filter (stays False now) m = m"
      by (auto simp: filter_empty_conv filter_id_conv stays_def)
    with False e show ?thesis by (simp add: due_def stays_def [of _ _ "(k, xs)"])
  qed
qed (simp add: due_def)

text \<open>
  An idle queue receives exactly what is due, in the order of the release times, and what is
  not due stays where it is.
\<close>

lemma moveExpired_due:
  assumes ok: "dq_ok E (Suc n) now s" and idle: "dq_ready_items E s = []"
    and ended: "fst (moveExpired E now False s) = Inr ()"
  shows "dq_ready_items E (snd (moveExpired E now False s)) = due now (delayedMap (fst s))"
    and "delayedMap (fst (snd (moveExpired E now False s))) =
      filter (\<lambda>e. now \<le> fst e) (delayedMap (fst s))"
proof -
  let ?s = "snd (moveExpired E now False s)"
  have e: "pq_empty (persistedQ (fst s))" using dq_ok_empty [OF ok] idle by simp
  have m: "delayedMap (fst ?s) = filter (stays False now) (delayedMap (fst s))"
    using moveExpired_ok(3) [OF ok ended] e by simp
  then show "delayedMap (fst ?s) = filter (\<lambda>e. now \<le> fst e) (delayedMap (fst s))"
    by (auto simp: stays_def not_less intro: filter_cong)
  have "dq_ready_items E ?s @ map_items (delayedMap (fst ?s)) = map_items (delayedMap (fst s))"
    using moveExpired_ok(2) [OF ok, of False] idle by (simp add: dq_items_def)
  then show "dq_ready_items E ?s = due now (delayedMap (fst s))"
    using wf_split_due [of "delayedMap (fst s)" now] ok m by (simp add: dq_ok_def)
qed

lemma dq_pop_ok:
  assumes ok: "dq_ok E (Suc n) now s"
  shows "case fst (dq_pop E now s) of
      Inl e \<Rightarrow> dq_items E (snd (dq_pop E now s)) = dq_items E s
    | Inr x \<Rightarrow> dq_items E s =
        (case x of None \<Rightarrow> [] | Some y \<Rightarrow> [y]) @ dq_items E (snd (dq_pop E now s))"
    and "dq_ok E n now (snd (dq_pop E now s))"
proof -
  let ?m = "moveExpired E now False s"
  note m = moveExpired_ok(1,2) [OF ok, of False]
  have "(case fst (dq_pop E now s) of
      Inl e \<Rightarrow> dq_items E (snd (dq_pop E now s)) = dq_items E s
    | Inr x \<Rightarrow> dq_items E s =
        (case x of None \<Rightarrow> [] | Some y \<Rightarrow> [y]) @ dq_items E (snd (dq_pop E now s))) \<and>
    dq_ok E n now (snd (dq_pop E now s))"
  proof (cases "fst ?m")
    case (Inl e)
    then have "dq_pop E now s = (Inl e, snd ?m)" unfolding dq_pop_def by (cases ?m) simp
    with m Inl show ?thesis by simp
  next
    case (Inr u)
    then have p: "dq_pop E now s = on_persisted (pop_front E) (snd ?m)"
      unfolding dq_pop_def by (cases ?m) simp
    have q: "queue_ok E (n + length (map_items (delayedMap (fst (snd ?m))))) now
        (persistedQ (fst (snd ?m)), snd (snd ?m))"
      using m(1) Inr by (auto simp: dq_ok_def intro: pqueue.fewer)
    note laws = pqueue.pop_value [OF q] pqueue.pop_items [OF q] pqueue.pop_ok [OF q]
    show ?thesis
      using m Inr laws unfolding p
      by (cases "contents E (persistedQ (fst (snd ?m)), snd (snd ?m))")
        (auto simp: dq_items_def dq_ready_items_def dq_ok_def)
  qed
  then show "case fst (dq_pop E now s) of
      Inl e \<Rightarrow> dq_items E (snd (dq_pop E now s)) = dq_items E s
    | Inr x \<Rightarrow> dq_items E s =
        (case x of None \<Rightarrow> [] | Some y \<Rightarrow> [y]) @ dq_items E (snd (dq_pop E now s))"
    "dq_ok E n now (snd (dq_pop E now s))" by auto
qed

lemma dq_pop_value:
  assumes ok: "dq_ok E (Suc n) now s" and r: "fst (dq_pop E now s) = Inr x"
  shows "x = head_option (if dq_ready_items E s = [] then due now (delayedMap (fst s))
                          else dq_ready_items E s)"
proof -
  let ?m = "moveExpired E now False s"
  have m: "fst ?m = Inr ()"
    using r by (cases ?m; cases "fst ?m") (auto simp: dq_pop_def)
  then have p: "dq_pop E now s = on_persisted (pop_front E) (snd ?m)"
    unfolding dq_pop_def by (cases ?m) simp
  have q: "queue_ok E (Suc n + length (map_items (delayedMap (fst (snd ?m))))) now
      (persistedQ (fst (snd ?m)), snd (snd ?m))"
    using moveExpired_ok(1) [OF ok, of False] m by (simp add: dq_ok_def)
  have x: "x = head_option (dq_ready_items E (snd ?m))"
    using r pqueue.pop_value [OF q] unfolding p by (simp add: dq_ready_items_def)
  show ?thesis
  proof (cases "dq_ready_items E s = []")
    case True
    with x moveExpired_due(1) [OF ok True m] show ?thesis by simp
  next
    case False
    with x moveExpired_busy [of s E now] dq_ok_empty [OF ok] show ?thesis by simp
  qed
qed

section \<open>Pushing\<close>

lemma map_items_put:
  "smap_wf m \<Longrightarrow>
   mset (map_items (smap_put k ((case smap_find m k of None \<Rightarrow> [] | Some xs \<Rightarrow> xs) @ [x]) m)) =
   mset (map_items m) + {#x#}"
proof (induction m)
  case (Cons e m)
  obtain k' xs where e: "e = (k', xs)" by fastforce
  have wf: "smap_wf m" and lt: "\<forall>j\<in>fst ` set m. k' < j"
    using Cons.prems e by (auto simp: smap_wf_def)
  consider "k < k'" | "k = k'" | "k' < k" by fastforce
  then show ?case
  proof cases
    case 1
    have "k \<notin> fst ` set m" using lt 1 by force
    then have "smap_find ((k', xs) # m) k = None"
      using 1 by (simp add: smap_find_def map_of_eq_None_iff)
    with 1 e show ?thesis by simp
  next
    case 2
    with e show ?thesis by (simp add: smap_find_def)
  next
    case 3
    then have "smap_find ((k', xs) # m) k = smap_find m k" by (simp add: smap_find_def)
    with 3 e Cons.IH [OF wf] show ?thesis by simp
  qed
qed simp

lemma dq_mapSize_items: "dq_mapSize q = length (map_items (delayedMap q))"
proof -
  have "foldl (\<lambda>c e. c + length (snd e)) a m = a + length (map_items m)" for a and m :: "(int, 'a list) smap"
    by (induction m arbitrary: a) (auto simp: map_items_def)
  then show ?thesis by (simp add: dq_mapSize_def)
qed

lemma dq_size_items: "dq_ok E n now s \<Longrightarrow> dq_size (fst s) = length (dq_items E s)"
  by (simp add: dq_ok_def dq_size_def dq_items_def dq_ready_items_def dq_mapSize_items queue_ok_def
      pq_size_contents)

lemma dq_ok_later: "dq_ok E n t s \<Longrightarrow> t \<le> now \<Longrightarrow> dq_ok E n now s"
  by (auto simp: dq_ok_def intro: pqueue.later)

lemma dq_ok_fewer: "dq_ok E (Suc n) now s \<Longrightarrow> dq_ok E n now s"
  by (auto simp: dq_ok_def intro: pqueue.fewer)

lemma dq_push_wait:
  assumes ok: "dq_ok E (Suc (Suc n)) t s" and x: "storable E x"
  shows "dq_ok E (Suc n) t ((fst s)\<lparr>delayedMap := smap_put k (delayed_at k (fst s) @ [x])
      (delayedMap (fst s))\<rparr>, snd s)"
    and "mset (dq_items E ((fst s)\<lparr>delayedMap := smap_put k (delayed_at k (fst s) @ [x])
      (delayedMap (fst s))\<rparr>, snd s)) = mset (dq_items E s) + {#x#}"
proof -
  let ?m = "delayedMap (fst s)" and ?m' = "smap_put k (delayed_at k (fst s) @ [x]) (delayedMap (fst s))"
  have wf: "smap_wf ?m" using ok by (simp add: dq_ok_def)
  have m: "mset (map_items ?m') = mset (map_items ?m) + {#x#}"
    using map_items_put [OF wf] by (simp add: delayed_at_def)
  then have "length (map_items ?m') = Suc (length (map_items ?m))"
    "set (map_items ?m') = insert x (set (map_items ?m))"
    by (metis size_mset size_add_mset add_mset_add_single, metis set_mset_mset set_mset_add_mset_insert
        add_mset_add_single)
  then show "dq_ok E (Suc n) t ((fst s)\<lparr>delayedMap := ?m'\<rparr>, snd s)"
    using ok x smap.wf_put [OF wf] by (auto simp: dq_ok_def)
  show "mset (dq_items E ((fst s)\<lparr>delayedMap := ?m'\<rparr>, snd s)) = mset (dq_items E s) + {#x#}"
    using m by (simp add: dq_items_def dq_ready_items_def)
qed

lemma dq_push_now:
  assumes ok: "dq_ok E (Suc (Suc n)) t s" and x: "storable E x"
  shows "dq_ok E (Suc n) t (snd (on_persisted (push_back E t x) s))"
    and "dq_ready_items E (snd (on_persisted (push_back E t x) s)) = dq_ready_items E s @
      (case fst (on_persisted (push_back E t x) s) of Inl e \<Rightarrow> [] | Inr u \<Rightarrow> [x])"
    and "delayedMap (fst (snd (on_persisted (push_back E t x) s))) = delayedMap (fst s)"
proof -
  have q: "queue_ok E (Suc (Suc n + length (map_items (delayedMap (fst s))))) t
      (persistedQ (fst s), snd s)" using ok by (simp add: dq_ok_def)
  show "dq_ok E (Suc n) t (snd (on_persisted (push_back E t x) s))"
    using pqueue.push_ok [OF q x] ok by (simp add: dq_ok_def)
  show "dq_ready_items E (snd (on_persisted (push_back E t x) s)) = dq_ready_items E s @
      (case fst (on_persisted (push_back E t x) s) of Inl e \<Rightarrow> [] | Inr u \<Rightarrow> [x])"
    using pqueue.push_items [OF q x] by (simp add: dq_ready_items_def)
qed simp

lemma dq_push_delayed:
  assumes ok: "dq_ok E (Suc (Suc n)) t s" and x: "storable E x" and "t \<le> now" "delay \<noteq> 0"
  shows "mset (dq_items E (snd (dq_push E t now x delay s))) = mset (dq_items E s) + {#x#}"
    and "dq_ok E n now (snd (dq_push E t now x delay s))"
proof -
  let ?k = "t + uint delay"
  let ?s = "((fst s)\<lparr>delayedMap := smap_put ?k (delayed_at ?k (fst s) @ [x]) (delayedMap (fst s))\<rparr>, snd s)"
  have p: "dq_push E t now x delay s = moveExpired E now False ?s"
    using assms(4) by (simp add: dq_push_def Let_def)
  note w = dq_push_wait [OF ok x, of ?k]
  have ok': "dq_ok E (Suc n) now ?s" by (rule dq_ok_later [OF w(1) assms(3)])
  show "mset (dq_items E (snd (dq_push E t now x delay s))) = mset (dq_items E s) + {#x#}"
    unfolding p using moveExpired_ok(2) [OF ok', of False] w(2) by simp
  show "dq_ok E n now (snd (dq_push E t now x delay s))"
    unfolding p using moveExpired_ok(1) [OF ok', of False]
    by (cases "fst (moveExpired E now False ?s)") (auto intro: dq_ok_fewer)
qed

lemma dq_push_direct:
  assumes ok: "dq_ok E (Suc (Suc n)) t s" and x: "storable E x" and "t \<le> now"
  shows "dq_push E t now x 0 s = on_persisted (push_back E t x) s"
proof (cases "fst (on_persisted (push_back E t x) s)")
  case (Inl e)
  then show ?thesis by (cases "on_persisted (push_back E t x) s") (simp add: dq_push_def)
next
  case (Inr u)
  then have "dq_ready_items E (snd (on_persisted (push_back E t x) s)) \<noteq> []"
    using dq_push_now(2) [OF ok x] by simp
  then have "\<not> pq_empty (persistedQ (fst (snd (on_persisted (push_back E t x) s))))"
    using dq_ok_empty [OF dq_push_now(1) [OF ok x]] by simp
  note busy = moveExpired_busy [OF this, of E now]
  obtain s1 where "on_persisted (push_back E t x) s = (Inr (), s1)"
    using Inr by (metis old.unit.exhaust prod.exhaust_sel)
  with busy show ?thesis by (simp add: dq_push_def)
qed

end
