(* ===== verification/Priority_Queue.thy ===== *)
theory Priority_Queue
  imports Queue_Fresh
begin

text \<open>
  Class template \<open>ThreadsafePersistedPriorityQueue\<close>
  (kisscpp/threadsafe_persisted_priority_queue.hpp): one persisted queue per level in the same
  working directory, level 0 first. \<open>push\<close>, \<open>pop\<close> and \<open>empty\<close> hold the mutex throughout. Reading the vector of queues at an index past its end is undefined in C++; the model
  makes it the error \<open>NoSuchLevel\<close>, and re-inserting a null pointer the error \<open>NullObject\<close>.
\<close>

section \<open>State and operations\<close>

datatype perror = NoSuchLevel nat | NullObject | QueueError qerror

record 'a ppq =
  ppq_name :: string
  workingDir :: string
  levels :: u32
  maxPageSize :: nat
  lastPopLevel :: int
  lastPopedObject :: "'a option"
  persistedQList :: "'a pq list"

type_synonym 'a pstate = "'a ppq \<times> disk"

definition queue_error :: "qerror + 'b \<Rightarrow> perror + 'b" where
  "queue_error r = (case r of Inl e \<Rightarrow> Inl (QueueError e) | Inr x \<Rightarrow> Inr x)"

text \<open>\<open>persistedQList[i]->f()\<close>\<close>

definition on_level ::
  "nat \<Rightarrow> ('a qstate \<Rightarrow> (qerror, 'b, 'a qstate) outcome) \<Rightarrow> 'a pstate \<Rightarrow>
   (perror, 'b, 'a pstate) outcome" where
  "on_level i f s =
     (let qs = persistedQList (fst s) in
      if i < length qs then
        (let (r, (q, d)) = f (qs ! i, snd s)
         in (queue_error r, ((fst s)\<lparr>persistedQList := qs[i := q]\<rparr>, d)))
      else (Inl (NoSuchLevel i), s))"

fun for_levels ::
  "(nat \<Rightarrow> 's \<Rightarrow> ('e, unit, 's) outcome) \<Rightarrow> nat list \<Rightarrow> 's \<Rightarrow> ('e, unit, 's) outcome" where
  "for_levels f [] s = (Inr (), s)"
| "for_levels f (i # is) s = and_then (f i s) (\<lambda>_ s1. for_levels f is s1)"

definition level_name :: "string \<Rightarrow> nat \<Rightarrow> string" where
  "level_name name i = name @ ''priority_'' @ show_nat i"

definition create_level :: "'a qenv \<Rightarrow> nat \<Rightarrow> 'a pstate \<Rightarrow> (perror, unit, 'a pstate) outcome" where
  "create_level E i s =
     (let p = fst s;
          (r, (q, d)) = open_queue E (level_name (ppq_name p) i) (workingDir p) (maxPageSize p) (snd s)
      in case r of
           Inl e \<Rightarrow> (Inl (QueueError e), (p, d))
         | Inr u \<Rightarrow> (Inr (), (p\<lparr>persistedQList := persistedQList p @ [q]\<rparr>, d)))"

definition createQueues :: "'a qenv \<Rightarrow> 'a pstate \<Rightarrow> (perror, unit, 'a pstate) outcome" where
  "createQueues E s = for_levels (create_level E) [0..<unat (levels (fst s))] s"

definition ppq_open ::
  "'a qenv \<Rightarrow> string \<Rightarrow> string \<Rightarrow> u32 \<Rightarrow> nat \<Rightarrow> disk \<Rightarrow> (perror, unit, 'a pstate) outcome" where
  "ppq_open E name wdir priorityLevels maxItems d =
     createQueues E
       (\<lparr>ppq_name = name, workingDir = wdir, levels = priorityLevels,
         maxPageSize = maxItems, lastPopLevel = -1, lastPopedObject = None,
         persistedQList = []\<rparr>, d)"

definition ppq_push ::
  "'a qenv \<Rightarrow> int \<Rightarrow> 'a \<Rightarrow> u32 \<Rightarrow> 'a pstate \<Rightarrow> (perror, unit, 'a pstate) outcome" where
  "ppq_push E now p priority s =
     (let level = (if levels (fst s) \<le> priority then levels (fst s) - 1 else priority)
      in on_level (unat level) (push_back E now p) s)"

text \<open>\<open>while(i < levels && persistedQList[i]->empty()) ++i;\<close> with \<open>n\<close> the levels left to try.\<close>

fun skip_empty :: "'a pq list \<Rightarrow> nat \<Rightarrow> nat \<Rightarrow> nat" where
  "skip_empty qs 0 i = i"
| "skip_empty qs (Suc n) i = (if pq_empty (qs ! i) then skip_empty qs n (Suc i) else i)"

definition ppq_pop :: "'a qenv \<Rightarrow> 'a pstate \<Rightarrow> (perror, 'a option, 'a pstate) outcome" where
  "ppq_pop E s =
     (let i = skip_empty (persistedQList (fst s)) (unat (levels (fst s))) 0
      in and_then (on_level i (pop_front E) ((fst s)\<lparr>lastPopLevel := int i\<rparr>, snd s))
           (\<lambda>x s1. (Inr x, ((fst s1)\<lparr>lastPopedObject := x\<rparr>, snd s1))))"

definition last_pop_object :: "'a pstate \<Rightarrow> 'a option" where
  "last_pop_object s = lastPopedObject (fst s)"

text \<open>
  \<open>push_back_last_pop\<close> looks at \<open>lastPopLevel\<close> before it takes the mutex; what it does with the
  mutex is \<open>push_back_locked\<close>. A negative \<open>int\<close> becomes a large index of the vector.
\<close>

definition push_back_locked ::
  "'a qenv \<Rightarrow> int \<Rightarrow> 'a pstate \<Rightarrow> (perror, unit, 'a pstate) outcome" where
  "push_back_locked E now s =
     (let i = nat (lastPopLevel (fst s) mod 2 ^ 64) in
      if i < length (persistedQList (fst s)) then
        (case lastPopedObject (fst s) of
           None \<Rightarrow> (Inl NullObject, s)
         | Some x \<Rightarrow>
             and_then (on_level i (push_back E now x) s)
               (\<lambda>_ s1. (Inr (), ((fst s1)\<lparr>lastPopLevel := -1, lastPopedObject := None\<rparr>, snd s1))))
      else (Inl (NoSuchLevel i), s))"

definition push_back_last_pop ::
  "'a qenv \<Rightarrow> int \<Rightarrow> 'a pstate \<Rightarrow> (perror, unit, 'a pstate) outcome" where
  "push_back_last_pop E now s =
     (if lastPopLevel (fst s) \<ge> 0 then push_back_locked E now s else (Inr (), s))"

definition ppq_empty :: "'a pstate \<Rightarrow> bool" where
  "ppq_empty s \<longleftrightarrow>
     skip_empty (persistedQList (fst s)) (unat (levels (fst s))) 0 = unat (levels (fst s))"

text \<open>The queues read the clock one after the other.\<close>

definition ppq_shutdown ::
  "'a qenv \<Rightarrow> (nat \<Rightarrow> int) \<Rightarrow> 'a pstate \<Rightarrow> (perror, unit, 'a pstate) outcome" where
  "ppq_shutdown E now s =
     for_levels (\<lambda>i. on_level i (shutdown E (now i))) [0..<unat (levels (fst s))] s"

definition destroyQueues ::
  "'a qenv \<Rightarrow> (nat \<Rightarrow> int) \<Rightarrow> 'a pstate \<Rightarrow> (perror, unit, 'a pstate) outcome" where
  "destroyQueues E now s =
     for_levels (\<lambda>i. on_level i (destroy_queue E (now i))) [0..<unat (levels (fst s))] s"

definition ppq_destroy ::
  "'a qenv \<Rightarrow> (nat \<Rightarrow> int) \<Rightarrow> 'a pstate \<Rightarrow> (perror, unit, 'a pstate) outcome" where
  "ppq_destroy E now s = destroyQueues E now s"

text \<open>\<open>clear\<close> of a queue may not return, which the model reports as \<open>NoReturn\<close>.\<close>

definition ppq_clear_level :: "'a qenv \<Rightarrow> nat \<Rightarrow> 'a pstate \<Rightarrow> (perror, unit, 'a pstate) outcome" where
  "ppq_clear_level E level s =
     on_level level (\<lambda>q. case clear E q of None \<Rightarrow> (Inl NoReturn, q) | Some r \<Rightarrow> r) s"

definition ppq_clear :: "'a qenv \<Rightarrow> 'a pstate \<Rightarrow> (perror, unit, 'a pstate) outcome" where
  "ppq_clear E s = for_levels (ppq_clear_level E) [0..<unat (levels (fst s))] s"

section \<open>Invariant\<close>

definition level_items :: "'a qenv \<Rightarrow> 'a pstate \<Rightarrow> 'a list list" where
  "level_items E s = map (\<lambda>q. contents E (q, snd s)) (persistedQList (fst s))"

definition ppq_ok :: "'a qenv \<Rightarrow> nat \<Rightarrow> int \<Rightarrow> 'a pstate \<Rightarrow> bool" where
  "ppq_ok E n now s \<longleftrightarrow>
     length (persistedQList (fst s)) = unat (levels (fst s)) \<and>
     (\<forall>i < length (persistedQList (fst s)).
        queue_ok E n now (persistedQList (fst s) ! i, snd s) \<and>
        queueName (persistedQList (fst s) ! i) = level_name (ppq_name (fst s)) i \<and>
        workingDirectory (persistedQList (fst s) ! i) = workingDir (fst s))"

lemma level_name_eq [simp]: "level_name name i = level_name name j \<longleftrightarrow> i = j"
  by (simp add: level_name_def)

text \<open>An operation confined to the files of its own level.\<close>

definition confined :: "'a qenv \<Rightarrow> 'a qstate \<Rightarrow> 'a qstate \<Rightarrow> bool" where
  "confined E s s' \<longleftrightarrow> only_own E (fst s) (snd s) (snd s') \<and> same_home (fst s) (fst s')"

lemma on_level_ok:
  assumes ok: "ppq_ok E m now s" and i: "i < length (persistedQList (fst s))"
    and conf: "confined E (persistedQList (fst s) ! i, snd s) (snd (f (persistedQList (fst s) ! i, snd s)))"
    and q: "queue_ok E n now (snd (f (persistedQList (fst s) ! i, snd s)))" and nm: "n \<le> m"
  shows "fst (on_level i f s) = queue_error (fst (f (persistedQList (fst s) ! i, snd s)))"
    and "ppq_ok E n now (snd (on_level i f s))"
    and "level_items E (snd (on_level i f s)) =
      (level_items E s)[i := contents E (snd (f (persistedQList (fst s) ! i, snd s)))]"
proof -
  let ?qs = "persistedQList (fst s)" and ?d = "snd s"
  obtain r q' d' where f: "f (?qs ! i, ?d) = (r, (q', d'))" by (metis prod.exhaust)
  have at_level: "queue_ok E m now (?qs ! j, ?d)" "queueName (?qs ! j) = level_name (ppq_name (fst s)) j"
    "workingDirectory (?qs ! j) = workingDir (fst s)" if "j < length ?qs" for j
    using ok that by (simp_all add: ppq_ok_def)
  have env: "queue_env E" using at_level(1) [OF i] by (simp add: queue_ok_def)
  have name: "file_name_ok (queueName (?qs ! j))" if "j < length ?qs" for j
    using at_level(1) [OF that] by (simp add: queue_ok_def pq_inv_def Let_def)
  have keep: "contents E (?qs ! j, d') = contents E (?qs ! j, ?d) \<and> queue_ok E n now (?qs ! j, d')"
    if j: "j < length ?qs" "j \<noteq> i" for j
  proof -
    have own: "only_own E (?qs ! i) ?d d'" using conf f by (simp add: confined_def)
    have le: "queue_ok E n now (?qs ! j, ?d)"
      by (rule pqueue.fewer_le [OF at_level(1) [OF j(1)] nm])
    then have "lists_own E (?qs ! j)" by (auto simp: queue_ok_def intro: ready_lists_own)
    moreover have "workingDirectory (?qs ! i) = workingDirectory (?qs ! j)"
      "queueName (?qs ! i) \<noteq> queueName (?qs ! j)"
      using at_level(2,3) i j by simp_all
    ultimately show ?thesis
      using queue_env.other_queue_keeps [OF env own _ _ _ name [OF i] name [OF j(1)]] le
      by (simp add: queue_ok_def)
  qed
  show "fst (on_level i f s) = queue_error (fst (f (?qs ! i, ?d)))"
    using i f by (simp add: on_level_def Let_def)
  show "ppq_ok E n now (snd (on_level i f s))"
    using ok i f keep q conf at_level
    by (auto simp: on_level_def Let_def ppq_ok_def nth_list_update confined_def same_home_def)
  show "level_items E (snd (on_level i f s)) = (level_items E s)[i := contents E (snd (f (?qs ! i, ?d)))]"
    using i f keep
    by (auto simp: on_level_def Let_def level_items_def nth_list_update intro!: nth_equalityI)
qed

lemma confined_push: "lists_own E q \<Longrightarrow> confined E (q, d) (snd (push_back E now x (q, d)))"
  using push_back_frame [of E now x q d] by (cases "push_back E now x (q, d)")
    (auto simp: confined_def)

lemma confined_pop: "lists_own E q \<Longrightarrow> confined E (q, d) (snd (pop_front E (q, d)))"
  using pop_front_frame [of E q d] by (cases "pop_front E (q, d)") (auto simp: confined_def)

lemma ppq_ok_own: "ppq_ok E n now s \<Longrightarrow> i < length (persistedQList (fst s)) \<Longrightarrow>
  lists_own E (persistedQList (fst s) ! i)"
  by (auto simp: ppq_ok_def queue_ok_def intro: ready_lists_own)

section \<open>Pushing\<close>

definition clamp :: "nat \<Rightarrow> nat \<Rightarrow> nat" where
  "clamp n i = (if n \<le> i then n - 1 else i)"

lemma level_push:
  assumes ok: "ppq_ok E (Suc n) now s" and i: "i < unat (levels (fst s))" and x: "storable E x"
  shows "ppq_ok E n now (snd (on_level i (push_back E now x) s))"
    and "level_items E (snd (on_level i (push_back E now x) s)) =
      (case fst (on_level i (push_back E now x) s) of
         Inl e \<Rightarrow> level_items E s
       | Inr u \<Rightarrow> (level_items E s)[i := level_items E s ! i @ [x]])"
proof -
  let ?q = "(persistedQList (fst s) ! i, snd s)"
  have i': "i < length (persistedQList (fst s))" using ok i by (simp add: ppq_ok_def)
  have q: "queue_ok E (Suc n) now ?q" using ok i' by (simp add: ppq_ok_def)
  have conf: "confined E ?q (snd (push_back E now x ?q))"
    by (rule confined_push [OF ppq_ok_own [OF ok i']])
  note level = on_level_ok [where f = "push_back E now x", OF ok i' conf pqueue.push_ok [OF q x]]
  show "ppq_ok E n now (snd (on_level i (push_back E now x) s))" using level(2) by simp
  have item: "level_items E s ! i = contents E ?q" using i' by (simp add: level_items_def)
  have same: "(level_items E s)[i := contents E ?q] = level_items E s"
    by (metis item list_update_id)
  show "level_items E (snd (on_level i (push_back E now x) s)) =
      (case fst (on_level i (push_back E now x) s) of
         Inl e \<Rightarrow> level_items E s
       | Inr u \<Rightarrow> (level_items E s)[i := level_items E s ! i @ [x]])"
    using level(1,3) item pqueue.push_items [OF q x]
    by (cases "fst (push_back E now x ?q)") (simp_all add: queue_error_def item same)
qed

lemma ppq_push_level:
  assumes "0 < levels (fst s)"
  shows "ppq_push E now x p s = on_level (clamp (unat (levels (fst s))) (unat p)) (push_back E now x) s"
proof -
  have "unat (levels (fst s) - 1) = unat (levels (fst s)) - 1"
    using assms by (simp add: unat_minus_one word_gt_0)
  then show ?thesis by (simp add: ppq_push_def clamp_def word_le_nat_alt Let_def)
qed

lemma ppq_push_ok:
  assumes "ppq_ok E (Suc n) now s" and "0 < levels (fst s)" and "storable E x"
  shows "level_items E (snd (ppq_push E now x p s)) =
      (let i = clamp (unat (levels (fst s))) (unat p) in
       case fst (ppq_push E now x p s) of
         Inl e \<Rightarrow> level_items E s
       | Inr u \<Rightarrow> (level_items E s)[i := level_items E s ! i @ [x]])"
    and "ppq_ok E n now (snd (ppq_push E now x p s))"
proof -
  have "clamp (unat (levels (fst s))) (unat p) < unat (levels (fst s))"
    using assms(2) by (auto simp: clamp_def word_less_nat_alt)
  note level = level_push [OF assms(1) this assms(3)]
  show "level_items E (snd (ppq_push E now x p s)) =
      (let i = clamp (unat (levels (fst s))) (unat p) in
       case fst (ppq_push E now x p s) of
         Inl e \<Rightarrow> level_items E s
       | Inr u \<Rightarrow> (level_items E s)[i := level_items E s ! i @ [x]])"
    "ppq_ok E n now (snd (ppq_push E now x p s))"
    using level by (simp_all add: ppq_push_level [OF assms(2)] Let_def)
qed

section \<open>Popping\<close>

lemma skip_empty_eq:
  "skip_empty qs n i = i + length (takeWhile pq_empty (take n (drop i qs)))" if "i + n \<le> length qs"
  using that
proof (induction n arbitrary: i)
  case (Suc n)
  then have "drop i qs = qs ! i # drop (Suc i) qs" by (simp add: Cons_nth_drop_Suc)
  with Suc show ?case by simp
qed simp

lemma ppq_ok_empties:
  assumes "ppq_ok E n now s"
  shows "skip_empty (persistedQList (fst s)) (unat (levels (fst s))) 0 =
    length (takeWhile (\<lambda>xs. xs = []) (level_items E s))"
proof -
  let ?qs = "persistedQList (fst s)"
  have "pq_empty q \<longleftrightarrow> contents E (q, snd s) = []" if "q \<in> set ?qs" for q
    using assms that by (auto simp: ppq_ok_def queue_ok_def in_set_conv_nth pq_empty_iff)
  then have "takeWhile pq_empty ?qs = takeWhile (\<lambda>q. contents E (q, snd s) = []) ?qs"
    by (intro takeWhile_cong) auto
  moreover have "length ?qs = unat (levels (fst s))" using assms by (simp add: ppq_ok_def)
  ultimately show ?thesis
    using skip_empty_eq [of 0 "unat (levels (fst s))" ?qs]
    by (simp add: level_items_def takeWhile_map comp_def)
qed

lemma takeWhile_length_less:
  "(\<exists>x\<in>set xs. \<not> P x) \<longleftrightarrow> length (takeWhile P xs) < length xs"
  by (induction xs) auto

lemma nth_after_takeWhile:
  "length (takeWhile P xs) < length xs \<Longrightarrow> \<not> P (xs ! length (takeWhile P xs))"
  using nth_length_takeWhile by blast

lemma ppq_pop_ok:
  assumes ok: "ppq_ok E n now s"
    and i: "i = length (takeWhile (\<lambda>xs. xs = []) (level_items E s))" "i < unat (levels (fst s))"
  shows "fst (ppq_pop E s) = Inr (Some (hd (level_items E s ! i)))"
    and "level_items E (snd (ppq_pop E s)) = (level_items E s)[i := tl (level_items E s ! i)]"
    and "ppq_ok E n now (snd (ppq_pop E s))"
    and "lastPopLevel (fst (snd (ppq_pop E s))) = int i"
    and "last_pop_object (snd (ppq_pop E s)) = Some (hd (level_items E s ! i))"
    and "levels (fst (snd (ppq_pop E s))) = levels (fst s)"
proof -
  let ?s = "((fst s)\<lparr>lastPopLevel := int i\<rparr>, snd s)"
  let ?q = "(persistedQList (fst s) ! i, snd s)"
  have i': "i < length (persistedQList (fst s))" using ok i by (simp add: ppq_ok_def)
  have ok': "ppq_ok E n now ?s" using ok by (simp add: ppq_ok_def)
  have q: "queue_ok E n now ?q" using ok i' by (simp add: ppq_ok_def)
  have ne: "contents E ?q \<noteq> []"
    using nth_after_takeWhile [of "\<lambda>xs. xs = []" "level_items E s"] i i'
    by (simp add: level_items_def)
  have item: "level_items E s ! i = contents E ?q" using i' by (simp add: level_items_def)
  have conf: "confined E ?q (snd (pop_front E ?q))"
    by (rule confined_pop [OF ppq_ok_own [OF ok i']])
  let ?l = "on_level i (pop_front E) ?s"
  have idx: "i < length (persistedQList (fst ?s))"
    and conf': "confined E (persistedQList (fst ?s) ! i, snd ?s)
      (snd (pop_front E (persistedQList (fst ?s) ! i, snd ?s)))"
    and q': "queue_ok E n now (snd (pop_front E (persistedQList (fst ?s) ! i, snd ?s)))"
    and same: "level_items E ?s = level_items E s"
    using i' conf pqueue.pop_ok [OF q] by (simp_all add: level_items_def)
  note on = on_level_ok [where f = "pop_front E", OF ok' idx conf' q' order_refl]
  have head: "head_option (contents E ?q) = Some (hd (level_items E s ! i))"
    unfolding item using ne by (cases "contents E ?q") simp_all
  have level: "fst ?l = Inr (Some (hd (level_items E s ! i)))" "ppq_ok E n now (snd ?l)"
    "level_items E (snd ?l) = (level_items E s)[i := tl (level_items E s ! i)]"
    using on pqueue.pop_value [OF q] pqueue.pop_items [OF q]
    by (simp_all add: queue_error_def head same item)
  have pop: "ppq_pop E s = (Inr (Some (hd (level_items E s ! i))),
      ((fst (snd ?l))\<lparr>lastPopedObject := Some (hd (level_items E s ! i))\<rparr>, snd (snd ?l)))"
    unfolding ppq_pop_def Let_def ppq_ok_empties [OF ok] i(1) [symmetric]
    using level(1) by (cases ?l) simp
  show "fst (ppq_pop E s) = Inr (Some (hd (level_items E s ! i)))"
    "level_items E (snd (ppq_pop E s)) = (level_items E s)[i := tl (level_items E s ! i)]"
    "ppq_ok E n now (snd (ppq_pop E s))"
    "last_pop_object (snd (ppq_pop E s)) = Some (hd (level_items E s ! i))"
    using level by (simp_all add: pop level_items_def ppq_ok_def last_pop_object_def)
  show "lastPopLevel (fst (snd (ppq_pop E s))) = int i"
    "levels (fst (snd (ppq_pop E s))) = levels (fst s)"
    using i' by (simp_all add: pop on_level_def Let_def split: prod.split)
qed

lemma all_levels_empty:
  assumes ok: "ppq_ok E n now s" and none: "\<forall>xs\<in>set (level_items E s). xs = []"
  shows "skip_empty (persistedQList (fst s)) (unat (levels (fst s))) 0 = unat (levels (fst s))"
    and "length (persistedQList (fst s)) = unat (levels (fst s))"
proof -
  have tw: "takeWhile (\<lambda>xs. xs = []) (level_items E s) = level_items E s"
    using none by (simp add: takeWhile_eq_all_conv)
  show len: "length (persistedQList (fst s)) = unat (levels (fst s))"
    using ok by (simp add: ppq_ok_def)
  then have "length (level_items E s) = unat (levels (fst s))" by (simp add: level_items_def)
  then show "skip_empty (persistedQList (fst s)) (unat (levels (fst s))) 0 = unat (levels (fst s))"
    using ppq_ok_empties [OF ok, unfolded tw] by simp
qed

lemma ppq_pop_exhausted:
  assumes "ppq_ok E n now s" "\<forall>xs\<in>set (level_items E s). xs = []"
  shows "fst (ppq_pop E s) = Inl (NoSuchLevel (unat (levels (fst s))))"
  using all_levels_empty [OF assms] by (simp add: ppq_pop_def on_level_def Let_def)

lemma ppq_empty_all:
  assumes "ppq_ok E n now s" "\<forall>xs\<in>set (level_items E s). xs = []"
  shows "ppq_empty s"
  using all_levels_empty [OF assms] by (simp add: ppq_empty_def)

section \<open>Construction\<close>

lemma create_levels:
  assumes "node_at d wdir = Some Directory"
    and "\<forall>i\<in>set is. orphans E wdir (level_name name i) d = [] \<and>
      \<not> disk_is_regular d (path_append E wdir (level_name name i @ ''_STATE''))"
    and "ppq_name p = name" "workingDir p = wdir"
  shows "for_levels (create_level E) is (p, d) = (Inr (), (p\<lparr>persistedQList := persistedQList p @
    map (\<lambda>i. fresh_queue E (level_name name i) wdir (maxPageSize p)) is\<rparr>, d))"
  using assms(2-)
proof (induction "is" arbitrary: p)
  case (Cons i "is")
  then show ?case
    using open_fresh [OF assms(1), of E "level_name name i" "maxPageSize p"]
    by (simp add: create_level_def)
qed simp

lemma literal_level_name: "literal_name name \<Longrightarrow> file_name_ok (level_name name i)"
  using show_nat_digits [of "CHR ''/''" i]
  by (auto simp: literal_name_def file_name_ok_def level_name_def decimal_digit_def)

lemma ppq_open_ok:
  assumes env: "queue_env E" and lit: "literal_name name" and M: "0 < M"
    and dir: "node_at d wdir = Some Directory" and acc: "disk_accessible d"
    and none: "\<forall>i < unat L. orphans E wdir (level_name name i) d = [] \<and>
      \<not> disk_is_regular d (path_append E wdir (level_name name i @ ''_STATE''))"
    and now: "0 < now" "n < 10000"
  shows "\<exists>s. ppq_open E name wdir L M d = (Inr (), s) \<and> ppq_ok E n now s \<and> snd s = d \<and>
    level_items E s = replicate (unat L) [] \<and> lastPopLevel (fst s) = -1"
proof -
  let ?p = "\<lparr>ppq_name = name, workingDir = wdir, levels = L, maxPageSize = M, lastPopLevel = -1,
    lastPopedObject = None, persistedQList = []\<rparr> :: 'a ppq"
  let ?qs = "map (\<lambda>i. fresh_queue E (level_name name i) wdir M) [0..<unat L]"
  have eq: "ppq_open E name wdir L M d = (Inr (), (?p\<lparr>persistedQList := ?qs\<rparr>, d))"
    using create_levels [OF dir, of "[0..<unat L]" E name ?p] none
    by (simp add: ppq_open_def createQueues_def)
  have "queueName (fresh_queue E m wdir M) = m" "workingDirectory (fresh_queue E m wdir M) = wdir"
    for m by (simp_all add: fresh_queue_def blank_queue_def set_page_def)
  then have "ppq_ok E n now (?p\<lparr>persistedQList := ?qs\<rparr>, d)"
    using fresh_queue_ok(1) [OF env literal_level_name [OF lit] M acc now] by (simp add: ppq_ok_def)
  moreover have "level_items E (?p\<lparr>persistedQList := ?qs\<rparr>, d) = replicate (unat L) []"
    using fresh_queue_ok(2) [OF env literal_level_name [OF lit] M acc now]
    by (simp add: level_items_def comp_def map_replicate_const)
  ultimately show ?thesis using eq by auto
qed

section \<open>Draining\<close>

fun ppq_pops :: "'a qenv \<Rightarrow> nat \<Rightarrow> 'a pstate \<Rightarrow> (perror + 'a option) list" where
  "ppq_pops E 0 s = []"
| "ppq_pops E (Suc k) s = fst (ppq_pop E s) # ppq_pops E k (snd (ppq_pop E s))"

lemma concat_pop_first:
  assumes "concat xss \<noteq> []" "i = length (takeWhile (\<lambda>xs. xs = []) xss)"
  shows "i < length xss" "concat xss = hd (xss ! i) # concat (xss[i := tl (xss ! i)])"
proof -
  have "i < length xss \<and> concat xss = hd (xss ! i) # concat (xss[i := tl (xss ! i)])"
    using assms
  proof (induction xss arbitrary: i)
    case (Cons xs xss)
    then show ?case by (cases "xs = []") auto
  qed simp
  then show "i < length xss" "concat xss = hd (xss ! i) # concat (xss[i := tl (xss ! i)])" by auto
qed

lemma ppq_pops_order:
  "ppq_ok E n now s \<Longrightarrow> k \<le> length (concat (level_items E s)) \<Longrightarrow>
   ppq_pops E k s = map (Inr \<circ> Some) (take k (concat (level_items E s)))"
proof (induction k arbitrary: s)
  case (Suc k)
  let ?i = "length (takeWhile (\<lambda>xs. xs = []) (level_items E s))"
  have "0 < length (concat (level_items E s))" using Suc.prems(2) by linarith
  then have "concat (level_items E s) \<noteq> []" by (simp only: length_greater_0_conv not_False_eq_True)
  note c = concat_pop_first [OF this refl]
  have "length (level_items E s) = unat (levels (fst s))"
    using Suc.prems(1) by (simp add: ppq_ok_def level_items_def)
  with c(1) have i: "?i < unat (levels (fst s))" by simp
  note p = ppq_pop_ok [OF Suc.prems(1) refl i]
  have "concat (level_items E s) = hd (level_items E s ! ?i) #
      concat (level_items E (snd (ppq_pop E s)))" using c(2) p(2) by simp
  with Suc.IH [OF p(3)] Suc.prems(2) p(1) show ?case by simp
qed simp

end
