(* ===== verification/Special_Queue_Theorems.thy ===== *)
theory Special_Queue_Theorems
  imports Queue_Demo Delayed_Queue Priority_Queue
begin

text \<open>The properties of the delayed queue and of the priority queue.\<close>

section \<open>The delayed queue\<close>

definition demo_delayed :: "string dstate" where
  "demo_delayed = (\<lparr>persistedQ = fst demo_new, delayedMap = [(6, [''x'']), (8, [''y'', ''z'']), (9, [''w''])]\<rparr>,
     snd demo_new)"

lemma demo_new_contents: "contents demo_env demo_new = []"
  by code_simp

lemma demo_delayed_ok: "dq_ok demo_env 10 9 demo_delayed"
  using demo_new_ok [of 9 14]
  by (simp add: dq_ok_def demo_delayed_def smap_wf_def demo_storable)

text \<open>
  C27. Moving what has expired loses, duplicates and reorders nothing, even when it throws:
  what is ready followed by what waits, by release time, is the same list before and after.
  When it ends normally on a queue with nothing ready, exactly the objects whose release time
  is before the current second are ready; forced, as at shutdown, all are.
\<close>

theorem delayed_release:
  assumes "dq_ok E (Suc n) now s"
  shows "dq_items E (snd (moveExpired E now force s)) = dq_items E s \<and>
    dq_ok E n now (snd (moveExpired E now force s)) \<and>
    (fst (moveExpired E now force s) = Inr () \<longrightarrow>
       (force \<longrightarrow> dq_ready_items E (snd (moveExpired E now force s)) = dq_items E s) \<and>
       (\<not> force \<and> dq_ready_items E s = [] \<longrightarrow>
          dq_ready_items E (snd (moveExpired E now force s)) = due now (delayedMap (fst s)) \<and>
          delayedMap (fst (snd (moveExpired E now force s))) =
            filter (\<lambda>e. now \<le> fst e) (delayedMap (fst s))))"
proof -
  note m = moveExpired_ok [OF assms, of force]
  have ok: "dq_ok E n now (snd (moveExpired E now force s))"
    using m(1) by (cases "fst (moveExpired E now force s)") (auto simp: dq_ok_def intro: pqueue.fewer)
  have all: "dq_ready_items E (snd (moveExpired E now True s)) = dq_items E s"
    if "fst (moveExpired E now True s) = Inr ()"
  proof -
    have "delayedMap (fst (snd (moveExpired E now True s))) = []"
      using moveExpired_ok(3) [OF assms that] by (simp add: stays_def)
    then show ?thesis using moveExpired_ok(2) [OF assms, of True] by (simp add: dq_items_def)
  qed
  show ?thesis
    using m(2) ok all moveExpired_due [OF assms] by (cases force) auto
qed

lemma delayed_release_witness:
  "dq_ready_items demo_env (snd (moveExpired demo_env 9 False demo_delayed)) = [''x'', ''y'', ''z''] \<and>
   dq_ready_items demo_env (snd (moveExpired demo_env 9 True demo_delayed)) = [''x'', ''y'', ''z'', ''w'']"
proof -
  have e: "fst (moveExpired demo_env 9 False demo_delayed) = Inr ()"
    "fst (moveExpired demo_env 9 True demo_delayed) = Inr ()" by code_simp+
  have i: "dq_ready_items demo_env demo_delayed = []" "dq_items demo_env demo_delayed = [''x'', ''y'', ''z'', ''w'']"
    "due 9 (delayedMap (fst demo_delayed)) = [''x'', ''y'', ''z'']" by code_simp+
  have ok: "dq_ok demo_env (Suc 9) 9 demo_delayed" using demo_delayed_ok by simp
  show ?thesis
    using delayed_release [OF ok, of False] delayed_release [OF ok, of True] e i by simp
qed

text \<open>
  C28. Popping a delayed queue takes the first object that is ready; when none is, the first of
  those whose release time has passed, and a null pointer when there is none of these either,
  however many objects still wait. Nothing else leaves the queue, and a pop that throws takes
  nothing.
\<close>

theorem delayed_pop_in_time:
  assumes "dq_ok E (Suc n) now s"
  shows "(case fst (dq_pop E now s) of
      Inl e \<Rightarrow> dq_items E (snd (dq_pop E now s)) = dq_items E s
    | Inr x \<Rightarrow> x = head_option (if dq_ready_items E s = [] then due now (delayedMap (fst s))
                             else dq_ready_items E s) \<and>
        dq_items E s = (case x of None \<Rightarrow> [] | Some y \<Rightarrow> [y]) @ dq_items E (snd (dq_pop E now s))) \<and>
    dq_ok E n now (snd (dq_pop E now s))"
  using dq_pop_ok [OF assms] dq_pop_value [OF assms] by (auto split: sum.splits)

lemma delayed_pop_in_time_witness:
  "fst (dq_pop demo_env 9 demo_delayed) = Inr (Some ''x'') \<and>
   dq_items demo_env (snd (dq_pop demo_env 9 demo_delayed)) = [''y'', ''z'', ''w'']"
proof -
  obtain r where r: "fst (dq_pop demo_env 9 demo_delayed) = Inr r"
  proof -
    have "(case fst (dq_pop demo_env 9 demo_delayed) of Inl e \<Rightarrow> False | Inr x \<Rightarrow> True)" by code_simp
    with that show thesis by (auto split: sum.splits)
  qed
  have i: "dq_ready_items demo_env demo_delayed = []" "dq_items demo_env demo_delayed = [''x'', ''y'', ''z'', ''w'']"
    "due 9 (delayedMap (fst demo_delayed)) = [''x'', ''y'', ''z'']" by code_simp+
  have ok: "dq_ok demo_env (Suc 9) 9 demo_delayed" using demo_delayed_ok by simp
  show ?thesis using delayed_pop_in_time [OF ok] r i by (auto split: option.splits)
qed

text \<open>
  A push without a delay puts the object behind what is ready, or throws and changes
  nothing. A push with a delay always keeps the object, whether or not the call throws: the
  exception can only come from moving older objects. The size is the number of objects held.
\<close>

theorem delayed_push_keeps:
  assumes "dq_ok E (Suc (Suc n)) t s" and "storable E x" and "t \<le> now"
  shows "mset (dq_items E (snd (dq_push E t now x delay s))) = mset (dq_items E s) +
      (case fst (dq_push E t now x delay s) of
         Inl e \<Rightarrow> if delay = 0 then {#} else {#x#}
       | Inr u \<Rightarrow> {#x#}) \<and>
    (delay = 0 \<longrightarrow> dq_ready_items E (snd (dq_push E t now x delay s)) = dq_ready_items E s @
      (case fst (dq_push E t now x delay s) of Inl e \<Rightarrow> [] | Inr u \<Rightarrow> [x])) \<and>
    dq_ok E n now (snd (dq_push E t now x delay s)) \<and>
    dq_size (fst (snd (dq_push E t now x delay s))) =
      length (dq_items E (snd (dq_push E t now x delay s)))"
proof -
  have ok: "dq_ok E n now (snd (dq_push E t now x delay s))"
    using dq_push_delayed(2) [OF assms] dq_push_direct [OF assms]
      dq_ok_later [OF dq_ok_fewer [OF dq_push_now(1) [OF assms(1,2)]] assms(3)]
    by (cases "delay = 0") simp_all
  show ?thesis
    using ok dq_size_items [OF ok] dq_push_delayed(1) [OF assms] dq_push_direct [OF assms]
      dq_push_now(2,3) [OF assms(1,2)]
    by (cases "delay = 0") (auto simp: dq_items_def split: sum.splits)
qed

lemma delayed_push_keeps_witness:
  "mset (dq_items demo_env (snd (dq_push demo_env 9 9 ''v'' 3 demo_delayed))) =
     {#''x'', ''y'', ''z'', ''w'', ''v''#}"
proof -
  have i: "dq_items demo_env demo_delayed = [''x'', ''y'', ''z'', ''w'']" by code_simp
  have ok: "dq_ok demo_env (Suc (Suc 8)) 9 demo_delayed" using demo_delayed_ok by simp
  show ?thesis
    using delayed_push_keeps [OF ok, of "''v''" 9 3] i
    by (auto simp: demo_storable split: sum.splits)
qed

section \<open>The priority queue\<close>

definition demo_levels :: "string pstate" where
  "demo_levels = snd (ppq_open demo_env ''p'' ''/q'' 2 2 demo_disk)"

definition demo_urgent :: "string pstate" where
  "demo_urgent = snd (ppq_push demo_env 5 ''a'' 0 (snd (ppq_push demo_env 5 ''b'' 7 demo_levels)))"

text \<open>
  Constructing a priority queue in a directory with no files of its levels gives, for every
  number of levels, as many empty queues in good order, each with its own name, on the same disk.
\<close>

theorem priority_queue_opens:
  assumes "queue_env E" and "literal_name name" and "0 < M" and "node_at d wdir = Some Directory"
    and "disk_accessible d" and "\<forall>i < unat L. orphans E wdir (level_name name i) d = [] \<and>
      \<not> disk_is_regular d (path_append E wdir (level_name name i @ ''_STATE''))"
    and "0 < now" and "n < 10000"
  shows "\<exists>s. ppq_open E name wdir L M d = (Inr (), s) \<and> ppq_ok E n now s \<and> snd s = d \<and>
    level_items E s = replicate (unat L) [] \<and> lastPopLevel (fst s) = -1"
  using ppq_open_ok [OF assms] .

lemma priority_queue_opens_witness:
  "level_items demo_env demo_levels = [[], []] \<and> ppq_ok demo_env 100 5 demo_levels"
proof -
  have "list_all (\<lambda>i. orphans demo_env ''/q'' (level_name ''p'' i) demo_disk = [] \<and>
      \<not> disk_is_regular demo_disk (path_append demo_env ''/q'' (level_name ''p'' i @ ''_STATE''))) [0..<2]"
    by code_simp
  then have none: "\<forall>i < unat (2 :: u32). orphans demo_env ''/q'' (level_name ''p'' i) demo_disk = [] \<and>
      \<not> disk_is_regular demo_disk (path_append demo_env ''/q'' (level_name ''p'' i @ ''_STATE''))"
    by (simp add: list_all_iff)
  have lit: "literal_name ''p''" "node_at demo_disk ''/q'' = Some Directory" by code_simp+
  obtain s where "ppq_open demo_env ''p'' ''/q'' 2 2 demo_disk = (Inr (), s)" "ppq_ok demo_env 100 5 s"
    "level_items demo_env s = replicate (unat (2 :: u32)) []"
    using priority_queue_opens [OF demo_queue_env lit(1) _ lit(2) demo_accessible none, of 2 5 100] by auto
  moreover have "replicate (unat (2 :: u32)) [] = [[], [] :: string list]" by code_simp
  ultimately show ?thesis by (simp add: demo_levels_def)
qed

text \<open>
  A push joins the queue of its level, or of the last level when there is no such level,
  behind what is there, or throws and changes no level. The other levels, whose files are in the
  same directory, keep what they hold.
\<close>

theorem priority_push:
  assumes "ppq_ok E (Suc n) now s" and "0 < levels (fst s)" and "storable E x"
  shows "level_items E (snd (ppq_push E now x p s)) =
      (let i = clamp (unat (levels (fst s))) (unat p) in
       case fst (ppq_push E now x p s) of
         Inl e \<Rightarrow> level_items E s
       | Inr u \<Rightarrow> (level_items E s)[i := level_items E s ! i @ [x]]) \<and>
    ppq_ok E n now (snd (ppq_push E now x p s))"
  using ppq_push_ok [OF assms] by blast

lemma demo_levels_ok: "n < 10000 \<Longrightarrow> ppq_ok demo_env n 5 demo_levels"
proof -
  assume n: "n < 10000"
  have "list_all (\<lambda>i. orphans demo_env ''/q'' (level_name ''p'' i) demo_disk = [] \<and>
      \<not> disk_is_regular demo_disk (path_append demo_env ''/q'' (level_name ''p'' i @ ''_STATE''))) [0..<2]"
    by code_simp
  then have none: "\<forall>i < unat (2 :: u32). orphans demo_env ''/q'' (level_name ''p'' i) demo_disk = [] \<and>
      \<not> disk_is_regular demo_disk (path_append demo_env ''/q'' (level_name ''p'' i @ ''_STATE''))"
    by (simp add: list_all_iff)
  have lit: "literal_name ''p''" "node_at demo_disk ''/q'' = Some Directory" by code_simp+
  show ?thesis
    using ppq_open_ok [OF demo_queue_env lit(1) _ lit(2) demo_accessible none, of 2 5 n] n
    by (auto simp: demo_levels_def)
qed

lemma demo_level_items: "level_items demo_env demo_levels = [[], []]" "0 < levels (fst demo_levels)"
  by code_simp+

lemma priority_push_witness:
  "level_items demo_env (snd (ppq_push demo_env 5 ''b'' 7 demo_levels)) = [[], [''b'']]"
proof -
  have ev: "fst (ppq_push demo_env 5 ''b'' 7 demo_levels) = Inr ()" "levels (fst demo_levels) = 2"
    by code_simp+
  show ?thesis
    using priority_push [OF demo_levels_ok [of "Suc 0"] demo_level_items(2), of "''b''" 7]
    by (simp add: demo_storable demo_level_items(1) ev clamp_def)
qed


lemma demo_urgent_ok: "ppq_ok demo_env 5 5 demo_urgent"
proof -
  have l: "0 < levels (fst (snd (ppq_push demo_env 5 ''b'' 7 demo_levels)))" by code_simp
  have "ppq_ok demo_env (Suc 5) 5 (snd (ppq_push demo_env 5 ''b'' 7 demo_levels))"
    by (rule ppq_push_ok(2) [OF demo_levels_ok demo_level_items(2)]) (simp_all add: demo_storable)
  from ppq_push_ok(2) [OF this l] show ?thesis by (simp add: demo_urgent_def demo_storable)
qed


text \<open>
  Popping a priority queue whose levels are all empty reads the vector of queues past its
  end: unlike the plain queue it does not return a null pointer.
\<close>

theorem priority_pop_exhausted:
  assumes "ppq_ok E n now s" and "\<forall>xs\<in>set (level_items E s). xs = []"
  shows "fst (ppq_pop E s) = Inl (NoSuchLevel (unat (levels (fst s)))) \<and> ppq_empty s"
  using ppq_pop_exhausted [OF assms] ppq_empty_all [OF assms] by simp

lemma priority_pop_exhausted_witness: "fst (ppq_pop demo_env demo_levels) = Inl (NoSuchLevel 2)"
proof -
  have "levels (fst demo_levels) = 2" by code_simp
  then show ?thesis
    using priority_pop_exhausted [OF demo_levels_ok [of 0]] by (simp add: demo_level_items(1))
qed

end
