(* ===== verification/Stat_Queues.thy ===== *)
theory Stat_Queues
  imports Stats_Threads Special_Queue_Theorems
begin

text \<open>
  \<open>StatAbleQueue\<close> (kisscpp/statable_queue.hpp) between the queues and the statistics keeper: the
  interface with the one virtual function \<open>size()\<close>, the three classes that implement it, and the
  shared pointers under which the keeper registers them. Several identifiers may be registered for
  one queue, and a queue may change after it was registered.
\<close>

section \<open>The interface\<close>

datatype 'a statable = Persisted "'a pq" | Threadsafe "'a pq" | Delayed "'a dq"

text \<open>The virtual call; on a disk \<open>d\<close>, the objects a queue holds and when it is in good order.\<close>

fun statable_size :: "disk \<Rightarrow> 'a statable \<Rightarrow> nat" where
  "statable_size d (Persisted q) = pq_size q"
| "statable_size d (Threadsafe q) = tpq_size (q, d)"
| "statable_size d (Delayed q) = dq_size q"

fun statable_items :: "'a qenv \<Rightarrow> disk \<Rightarrow> 'a statable \<Rightarrow> 'a list" where
  "statable_items E d (Persisted q) = contents E (q, d)"
| "statable_items E d (Threadsafe q) = contents E (q, d)"
| "statable_items E d (Delayed q) = dq_items E (q, d)"

fun statable_ok :: "'a qenv \<Rightarrow> nat \<Rightarrow> int \<Rightarrow> disk \<Rightarrow> 'a statable \<Rightarrow> bool" where
  "statable_ok E n now d (Persisted q) = queue_ok E n now (q, d)"
| "statable_ok E n now d (Threadsafe q) = queue_ok E n now (q, d)"
| "statable_ok E n now d (Delayed q) = dq_ok E n now (q, d)"

locale stat_able_queue =
  fixes qsize :: "'q \<Rightarrow> nat"
    and items :: "'q \<Rightarrow> 'a list"
    and good :: "'q \<Rightarrow> bool"
  assumes size_items: "good q \<Longrightarrow> qsize q = length (items q)"
begin

lemma current_size:
  assumes "stats_ok st" "smap_find (queueStatsMap st) i = Some a" "good (heap a)"
  shows "smap_find (fst (getCurrentStats of_time of_size (\<lambda>a. qsize (heap a)) now st)) (stat_path i) =
    Some (of_size (length (items (heap a))))"
  using assms by (simp add: current_stats_find size_items)

lemma gathered_size:
  assumes "stats_ok st" "smap_find (queueStatsMap st) i = Some a" "good (heap a)"
  shows "0 < historyLength st \<Longrightarrow>
    hd (history_at (gather_round of_time of_size (\<lambda>a. qsize (heap a)) now st) i) = of_size (length (items (heap a)))"
  using assms by (auto simp: history_after_round Let_def size_items neq_Nil_conv butlast_append)

end

interpretation statable: stat_able_queue "statable_size d" "statable_items E d" "statable_ok E n now d" for E d n now
proof
  show "statable_ok E n now d q \<Longrightarrow> statable_size d q = length (statable_items E d q)" for q
    by (cases q)
      (simp_all add: queue_ok_def pq_size_contents tpq_size_def dq_size_items [of E n now "(_, d)", simplified])
qed

section \<open>What the keeper reports\<close>

text \<open>\<open>heap\<close> holds the queues at their addresses when the report is made.\<close>

text \<open>
  A queue registered with the statistics keeper is reported with the number of objects it holds at
  the time of the report, under every identifier it was registered for, even when a counter has
  that identifier too; and the next period puts that number at the front of its history.
\<close>

theorem registered_queue_reported:
  assumes "stats_ok st" and "statable_ok E n now d (heap a)"
  shows "smap_find (fst (getCurrentStats of_time of_size (\<lambda>a. statable_size d (heap a)) t (addStatableQueue i a st)))
      (stat_path i) = Some (of_size (length (statable_items E d (heap a)))) \<and>
    (0 < historyLength st \<longrightarrow>
      hd (history_at (gather_round of_time of_size (\<lambda>a. statable_size d (heap a)) t (addStatableQueue i a st)) i) =
        of_size (length (statable_items E d (heap a))))"
proof -
  have "stats_ok (addStatableQueue i a st)" "smap_find (queueStatsMap (addStatableQueue i a st)) i = Some a"
    "historyLength (addStatableQueue i a st) = historyLength st"
    using assms(1) by (simp_all add: stats_ok_def addStatableQueue_def smap.wf_put smap_find_put)
  then show ?thesis
    using statable.current_size [where heap = heap] statable.gathered_size [where heap = heap] assms(2) by metis
qed

definition demo_heap :: "nat \<Rightarrow> string statable" where
  "demo_heap a = (if a = 0 then Persisted (fst demo_full) else if a = 1 then Threadsafe (fst demo_new)
     else Delayed (fst demo_delayed))"

lemma registered_queue_reported_witness:
  "smap_find (fst (getCurrentStats id int (\<lambda>a. statable_size (snd demo_full) (demo_heap a)) 107
     (addStatableQueue ''req'' 0 demo_stats))) ''stats.req'' = Some 5"
proof -
  have ok: "statable_ok demo_env 0 5 (snd demo_full) (demo_heap 0)"
    using demo_full_ok [of 0] by (simp add: demo_heap_def)
  have items: "statable_items demo_env (snd demo_full) (demo_heap 0) = [''a'', ''b'', ''c'', ''d'', ''e'']"
    using demo_full_contents by (simp add: demo_heap_def)
  show ?thesis
    using registered_queue_reported [where heap = demo_heap, OF demo_stats_ok ok, of id int 107 "''req''"] by (simp add: items stat_path_def)
qed

end
