(* ===== verification/Delayed_Threads.thy ===== *)
theory Delayed_Threads
  imports Special_Queue_Theorems
begin

text \<open>
  Several threads on one \<open>ThreadsafePersistedDelayedQueue\<close>: the calls of
  kisscpp/threadsafe_persisted_delayed_queue.hpp in the step relation of Monitor. Every call but
  \<open>shutdown\<close> locks. A call reads the clock twice, for the release time and in \<open>moveExpired\<close>.
\<close>

section \<open>The calls\<close>

datatype 'a dcall = Delay_push 'a u32 | Delay_pop | Delay_empty | Delay_size | Delay_map_size | Delay_shutdown

definition flag_reply :: "(qerror, bool, 's) outcome \<Rightarrow> 'a treply \<times> 's" where
  "flag_reply r = (case fst r of Inl e \<Rightarrow> Threw e | Inr b \<Rightarrow> Flag b, snd r)"

fun delayed_call :: "'a qenv \<Rightarrow> int \<times> int \<Rightarrow> 'a dcall \<Rightarrow> 'a dstate \<Rightarrow> 'a treply \<times> 'a dstate" where
  "delayed_call E (t, now) (Delay_push x delay) s = unit_reply (dq_push E t now x delay s)"
| "delayed_call E (t, now) Delay_pop s = item_reply (dq_pop E now s)"
| "delayed_call E (t, now) Delay_empty s = flag_reply (dq_empty E now s)"
| "delayed_call E (t, now) Delay_size s = (Count (dq_size (fst s)), s)"
| "delayed_call E (t, now) Delay_map_size s = (Count (dq_mapSize (fst s)), s)"
| "delayed_call E (t, now) Delay_shutdown s = unit_reply (dq_shutdown E now s)"

definition delay_locked :: "'a dcall \<Rightarrow> bool" where
  "delay_locked c \<longleftrightarrow> (case c of Delay_shutdown \<Rightarrow> False | _ \<Rightarrow> True)"

text \<open>The readings of a call follow those of the call before.\<close>

definition readings_later :: "int \<times> int \<Rightarrow> int \<times> int \<Rightarrow> bool" where
  "readings_later m now \<longleftrightarrow> snd m \<le> fst now \<and> fst now \<le> snd now"

type_synonym 'a dsys = "(int \<times> int, 'a dcall, 'a treply, 'a dstate) monitor"

definition dstep :: "'a qenv \<Rightarrow> 'a dsys \<Rightarrow> 'a dsys \<Rightarrow> bool" where
  "dstep E = mstep readings_later (delayed_call E) delay_locked"

section \<open>The contract\<close>

text \<open>A push with a delay keeps the object also when it throws: moving older objects threw.\<close>

fun brought_in :: "'a dcall \<Rightarrow> 'a treply \<Rightarrow> 'a multiset" where
  "brought_in (Delay_push x delay) (Threw e) = (if delay = 0 then {#} else {#x#})"
| "brought_in (Delay_push x delay) r = {#x#}"
| "brought_in c r = {#}"

fun given_out :: "'a dcall \<Rightarrow> 'a treply \<Rightarrow> 'a multiset" where
  "given_out Delay_pop (Item (Some x)) = {#x#}"
| "given_out c r = {#}"

fun names_used :: "'a dcall \<Rightarrow> nat" where
  "names_used (Delay_push x delay) = 2"
| "names_used Delay_pop = 1"
| "names_used Delay_empty = 1"
| "names_used c = 0"

fun can_store :: "'a qenv \<Rightarrow> 'a dcall \<Rightarrow> bool" where
  "can_store E (Delay_push x delay) = storable E x"
| "can_store E c = True"

lemma dq_empty_state: "snd (dq_empty E now s) = snd (moveExpired E now False s)"
  by (cases "moveExpired E now False s"; cases "fst (moveExpired E now False s)") (auto simp: dq_empty_def)

lemma moveExpired_fewer:
  assumes "dq_ok E (Suc n) now s"
  shows "dq_ok E n now (snd (moveExpired E now force s))"
  using moveExpired_ok(1) [OF assms, of force]
  by (cases "fst (moveExpired E now force s)") (auto intro: dq_ok_fewer)

lemma delay_push_keeps:
  assumes "dq_ok E (Suc (Suc n)) t s" "storable E x" "t \<le> now"
  shows "dq_ok E n now (snd (dq_push E t now x delay s)) \<and>
    mset (dq_items E (snd (dq_push E t now x delay s))) = mset (dq_items E s) +
      (case fst (dq_push E t now x delay s) of Inl e \<Rightarrow> if delay = 0 then {#} else {#x#} | Inr u \<Rightarrow> {#x#})"
proof (cases "delay = 0")
  case True
  note d = dq_push_direct [OF assms] dq_push_now [OF assms(1,2)]
  have "dq_ok E n now (snd (on_persisted (push_back E t x) s))"
    by (rule dq_ok_later [OF dq_ok_fewer [OF d(2)] assms(3)])
  with True d show ?thesis by (auto simp: dq_items_def split: sum.split)
next
  case False
  then show ?thesis using dq_push_delayed [OF assms] by (auto split: sum.split)
qed

lemma delayed_call_keeps:
  assumes "delay_locked c" "can_store E c" "dq_ok E (names_used c + n) (snd m) s" "readings_later m now"
  shows "dq_ok E n (snd now) (snd (delayed_call E now c s)) \<and>
    mset (dq_items E s) + brought_in c (fst (delayed_call E now c s)) =
      given_out c (fst (delayed_call E now c s)) + mset (dq_items E (snd (delayed_call E now c s)))"
proof -
  obtain t k where now: "now = (t, k)" by fastforce
  have le: "snd m \<le> t" "t \<le> k" using assms(4) now by (simp_all add: readings_later_def)
  have ok: "dq_ok E (names_used c + n) k s" using dq_ok_later [OF assms(3)] le by simp
  show ?thesis
  proof (cases c)
    case (Delay_push x delay)
    have "dq_ok E (Suc (Suc n)) t s" using dq_ok_later [OF assms(3) le(1)] Delay_push by simp
    from delay_push_keeps [OF this _ le(2), of x delay] assms(2) show ?thesis
      by (auto simp: Delay_push now unit_reply_def split: sum.split)
  next
    case Delay_pop
    with ok have "dq_ok E (Suc n) k s" by simp
    from dq_pop_ok [OF this] show ?thesis
      by (auto simp: Delay_pop now item_reply_def split: sum.split option.split)
  next
    case Delay_empty
    with ok have e: "dq_ok E (Suc n) k s" by simp
    from moveExpired_fewer [OF e, of False] moveExpired_ok(2) [OF e, of False] show ?thesis
      by (simp add: Delay_empty now flag_reply_def dq_empty_state)
  qed (use ok assms(1) in \<open>simp_all add: now delay_locked_def\<close>)
qed

interpretation delayed: shared_container readings_later "delayed_call E" delay_locked
  "\<lambda>n now. dq_ok E n (snd now)" "\<lambda>s. mset (dq_items E s)" brought_in given_out names_used "can_store E" for E
  by unfold_locales (use delayed_call_keeps in blast)+

lemma no_delay_shutdown: "all_locked delay_locked \<sigma> \<longleftrightarrow> Delay_shutdown \<notin> set (log_calls (log \<sigma>))"
proof -
  have "\<not> delay_locked c \<longleftrightarrow> c = Delay_shutdown" for c :: "'a dcall"
    by (cases c) (simp_all add: delay_locked_def)
  then show ?thesis unfolding all_locked_member by metis
qed

section \<open>Properties\<close>

text \<open>
  C12. Any number of threads that push, with and without delays, pop and look at a delayed queue, in
  any interleaving in which no \<open>shutdown()\<close> has completed: the results are those of the same calls
  made one after the other in the order in which they completed, and the objects popped and
  those still held, ready or waiting, are those held at first and those pushed, none lost and none
  given twice. A push with a delay counts also when it throws, one without delay does not.
\<close>

theorem delayed_threads:
  assumes "(dstep E)\<^sup>*\<^sup>* (idle now s0) \<sigma>" and "Delay_shutdown \<notin> set (log_calls (log \<sigma>))"
    and "dq_ok E n (snd now) s0" and "sum_list (map names_used (log_calls (log \<sigma>))) \<le> n"
    and "\<forall>c\<in>set (log_calls (log \<sigma>)). can_store E c"
  shows "replay (delayed_call E) (log \<sigma>) s0 = (map (snd \<circ> snd) (log \<sigma>), shared \<sigma>) \<and>
    mset (dq_items E s0) + log_total brought_in (log \<sigma>) =
      log_total given_out (log \<sigma>) + mset (dq_items E (shared \<sigma>))"
proof
  have lock: "all_locked delay_locked \<sigma>" using assms(2) by (simp add: no_delay_shutdown)
  note run = assms(1) [unfolded dstep_def]
  show "replay (delayed_call E) (log \<sigma>) s0 = (map (snd \<circ> snd) (log \<sigma>), shared \<sigma>)"
    using atomic_inv_reachable [OF run] lock by (simp add: atomic_inv_def)
  show "mset (dq_items E s0) + log_total brought_in (log \<sigma>) =
      log_total given_out (log \<sigma>) + mset (dq_items E (shared \<sigma>))"
    by (rule delayed.threads_held [OF run lock assms(3-5)])
qed

text \<open>Two threads: one pushes an object that waits, then the other pops.\<close>

lemma delayed_threads_witness:
  "\<exists>\<sigma>. (dstep demo_env)\<^sup>*\<^sup>* (idle (9, 9) demo_delayed) \<sigma> \<and>
     log_calls (log \<sigma>) = [Delay_push ''v'' 3, Delay_pop] \<and>
     {#''x'', ''y'', ''z'', ''w''#} + log_total brought_in (log \<sigma>) =
       log_total given_out (log \<sigma>) + mset (dq_items demo_env (shared \<sigma>))"
proof -
  let ?i = "idle (9, 9) demo_delayed :: string dsys"
  have i: "threads ?i = (\<lambda>_. Outside)" "objectMutex ?i = None" "clock ?i = (9, 9)" "log ?i = []"
    by (simp_all add: idle_def)
  have lk: "delay_locked (Delay_push ''v'' 3)" "delay_locked (Delay_pop :: string dcall)"
    by (simp_all add: delay_locked_def)
  obtain \<sigma>1 where 1: "(dstep demo_env)\<^sup>*\<^sup>* ?i \<sigma>1" "threads \<sigma>1 = (\<lambda>_. Outside)" "objectMutex \<sigma>1 = None"
    "clock \<sigma>1 = (9, 9)" "log_calls (log \<sigma>1) = [Delay_push ''v'' 3]"
    by (rule locked_call_reachable [of readings_later "delayed_call demo_env" delay_locked ?i ?i 0 "Delay_push ''v'' 3" "(9, 9)"])
      (simp_all add: i lk dstep_def readings_later_def)
  obtain \<sigma>2 where 2: "(dstep demo_env)\<^sup>*\<^sup>* ?i \<sigma>2" "log_calls (log \<sigma>2) = [Delay_push ''v'' 3, Delay_pop]"
    by (rule locked_call_reachable [OF 1(1) [unfolded dstep_def], of 7 Delay_pop "(9, 9)"])
      (use 1 lk in \<open>simp_all add: dstep_def readings_later_def\<close>)
  have "dq_items demo_env demo_delayed = [''x'', ''y'', ''z'', ''w'']" by code_simp
  moreover have "dq_ok demo_env 10 (snd (9, 9)) demo_delayed" using demo_delayed_ok by simp
  ultimately show ?thesis
    using delayed_threads [OF 2(1), of 10] 2 by (auto simp: demo_storable)
qed

end
