(* ===== verification/Priority_Threads.thy ===== *)
theory Priority_Threads
  imports Special_Queue_Theorems
begin

text \<open>
  Taking back what was popped from a priority queue (\<open>push_back_last_pop\<close> in
  kisscpp/threadsafe_persisted_priority_queue.hpp), called by one thread and by several.
  \<open>push\<close> and \<open>pop\<close> hold the mutex from their first to their last access and are single steps;
  \<open>push_back_last_pop\<close> reads \<open>lastPopLevel\<close> without it, so it is two steps, the look and the
  locked rest, between which other threads' steps can come.
\<close>

section \<open>One caller\<close>

lemma on_level_frame:
  "levels (fst (snd (on_level i f s))) = levels (fst s)"
  "lastPopLevel (fst (snd (on_level i f s))) = lastPopLevel (fst s)"
  "lastPopedObject (fst (snd (on_level i f s))) = lastPopedObject (fst s)"
  "length (persistedQList (fst (snd (on_level i f s)))) = length (persistedQList (fst s))"
  by (simp_all add: on_level_def Let_def split: prod.split)

lemma reset_last_pop [simp]:
  "level_items E ((fst s)\<lparr>lastPopLevel := l, lastPopedObject := x\<rparr>, snd s) = level_items E s"
  "ppq_ok E n now ((fst s)\<lparr>lastPopLevel := l, lastPopedObject := x\<rparr>, snd s) = ppq_ok E n now s"
  by (simp_all add: level_items_def ppq_ok_def)

lemma push_back_locked_level:
  assumes "lastPopLevel (fst s) = int i" "i < length (persistedQList (fst s))" "i < 2 ^ 64"
    "lastPopedObject (fst s) = Some x"
  shows "push_back_locked E now s = and_then (on_level i (push_back E now x) s)
    (\<lambda>_ s1. (Inr (), ((fst s1)\<lparr>lastPopLevel := -1, lastPopedObject := None\<rparr>, snd s1)))"
  using assms by (simp add: push_back_locked_def)

lemma levels_bound: "ppq_ok E n now s \<Longrightarrow> length (persistedQList (fst s)) < 2 ^ 32"
  using unsigned_less [of "levels (fst s)"] by (simp add: ppq_ok_def)



section \<open>Several callers\<close>

text \<open>
  \<open>passed t\<close>: thread \<open>t\<close> has found a level to take the object back to, and waits for the mutex.
  \<open>replies\<close> lists how the calls of \<open>push_back_last_pop\<close> have ended. Pops from an empty queue,
  which are undefined already (\<open>priority_pop_exhausted\<close>), are left out. \<open>T\<close> is the set of the
  threads that call \<open>push_back_last_pop\<close>.
\<close>

record 'a psys =
  queues :: "'a pstate"
  passed :: "nat \<Rightarrow> bool"
  replies :: "(nat \<times> (perror + unit)) list"

definition look :: "nat \<Rightarrow> 'a psys \<Rightarrow> 'a psys" where
  "look t s =
     (if lastPopLevel (fst (queues s)) \<ge> 0 then s\<lparr>passed := (passed s)(t := True)\<rparr>
      else s\<lparr>replies := replies s @ [(t, Inr ())]\<rparr>)"

definition take_back :: "'a qenv \<Rightarrow> int \<Rightarrow> nat \<Rightarrow> 'a psys \<Rightarrow> 'a psys" where
  "take_back E now t s =
     (let (r, p) = push_back_locked E now (queues s)
      in s\<lparr>queues := p, passed := (passed s)(t := False), replies := replies s @ [(t, r)]\<rparr>)"

inductive pstep :: "'a qenv \<Rightarrow> int \<Rightarrow> nat set \<Rightarrow> 'a psys \<Rightarrow> 'a psys \<Rightarrow> bool" for E now T where
  pushed: "pstep E now T s (s\<lparr>queues := snd (ppq_push E now x level (queues s))\<rparr>)"
| popped: "fst (ppq_pop E (queues s)) = Inr (Some x) \<Longrightarrow>
    pstep E now T s (s\<lparr>queues := snd (ppq_pop E (queues s))\<rparr>)"
| looked: "t \<in> T \<Longrightarrow> \<not> passed s t \<Longrightarrow> pstep E now T s (look t s)"
| took_back: "t \<in> T \<Longrightarrow> passed s t \<Longrightarrow> pstep E now T s (take_back E now t s)"

definition psys_start :: "'a pstate \<Rightarrow> 'a psys" where
  "psys_start p = \<lparr>queues = p, passed = (\<lambda>t. False), replies = []\<rparr>"

text \<open>There is an object to take back, and a level for it, or nothing to be done.\<close>

definition take_back_ready :: "'a pstate \<Rightarrow> bool" where
  "take_back_ready p \<longleftrightarrow> length (persistedQList (fst p)) < 2 ^ 32 \<and>
     (0 \<le> lastPopLevel (fst p) \<longrightarrow>
       lastPopLevel (fst p) < int (length (persistedQList (fst p))) \<and> lastPopedObject (fst p) \<noteq> None)"

definition harmless :: "perror + unit \<Rightarrow> bool" where
  "harmless r = (case r of Inl (QueueError e) \<Rightarrow> True | Inl _ \<Rightarrow> False | Inr u \<Rightarrow> True)"

definition alone :: "nat \<Rightarrow> 'a psys \<Rightarrow> bool" where
  "alone t s \<longleftrightarrow> take_back_ready (queues s) \<and> (\<forall>u. passed s u \<longrightarrow> u = t \<and> 0 \<le> lastPopLevel (fst (queues s))) \<and>
     list_all (harmless \<circ> snd) (replies s)"

lemma ready_push: "take_back_ready p \<Longrightarrow> take_back_ready (snd (ppq_push E now x level p))"
  "lastPopLevel (fst (snd (ppq_push E now x level p))) = lastPopLevel (fst p)"
  by (simp_all add: ppq_push_def Let_def take_back_ready_def on_level_frame)

lemma ready_pop:
  assumes "take_back_ready p" "fst (ppq_pop E p) = Inr (Some x)"
  shows "take_back_ready (snd (ppq_pop E p)) \<and> 0 \<le> lastPopLevel (fst (snd (ppq_pop E p)))"
proof -
  let ?i = "skip_empty (persistedQList (fst p)) (unat (levels (fst p))) 0"
  let ?l = "on_level ?i (pop_front E) ((fst p)\<lparr>lastPopLevel := int ?i\<rparr>, snd p)"
  have i: "?i < length (persistedQList (fst p))"
    using assms(2) by (auto simp: ppq_pop_def Let_def on_level_def split: if_splits)
  have "fst ?l = Inr (Some x)" "snd (ppq_pop E p) = ((fst (snd ?l))\<lparr>lastPopedObject := Some x\<rparr>, snd (snd ?l))"
    using assms(2) by (cases ?l; cases "fst ?l"; simp add: ppq_pop_def Let_def)+
  with i assms(1) on_level_frame [of ?i "pop_front E" "((fst p)\<lparr>lastPopLevel := int ?i\<rparr>, snd p)"]
  show ?thesis by (simp add: take_back_ready_def)
qed

lemma queue_error_harmless: "queue_error r = Inl e \<Longrightarrow> harmless (Inl e)"
  by (auto simp: queue_error_def harmless_def split: sum.splits)

lemma ready_take_back:
  assumes "take_back_ready p" "0 \<le> lastPopLevel (fst p)"
  shows "harmless (fst (push_back_locked E now p))" "take_back_ready (snd (push_back_locked E now p))"
    "(\<exists>u. fst (push_back_locked E now p) = Inr u) \<Longrightarrow> lastPopLevel (fst (snd (push_back_locked E now p))) = -1"
proof -
  obtain i x where i: "lastPopLevel (fst p) = int i" "i < length (persistedQList (fst p))" "i < 2 ^ 64"
    and x: "lastPopedObject (fst p) = Some x"
    using assms by (auto simp: take_back_ready_def elim!: nonneg_int_cases)
  let ?l = "on_level i (push_back E now x) p"
  note eq = push_back_locked_level [OF i x, of E now]
  have err: "fst ?l = Inl e \<Longrightarrow> harmless (Inl e)" for e
    using i(2) queue_error_harmless by (auto simp: on_level_def Let_def split: prod.splits)
  show "harmless (fst (push_back_locked E now p))"
    using err by (cases ?l; cases "fst ?l") (auto simp: eq harmless_def)
  show "take_back_ready (snd (push_back_locked E now p))"
    using assms(1) i x on_level_frame [of i "push_back E now x" p]
    by (cases ?l; cases "fst ?l") (auto simp: eq take_back_ready_def)
  show "(\<exists>u. fst (push_back_locked E now p) = Inr u) \<Longrightarrow>
      lastPopLevel (fst (snd (push_back_locked E now p))) = -1"
    by (cases ?l; cases "fst ?l") (auto simp: eq)
qed

lemma alone_look:
  assumes "alone t s"
  shows "alone t (look t s)"
  using assms by (cases "0 \<le> lastPopLevel (fst (queues s))") (simp_all add: alone_def look_def harmless_def)

lemma take_back_fields:
  "queues (take_back E now t s) = snd (push_back_locked E now (queues s))"
  "passed (take_back E now t s) = (passed s)(t := False)"
  "replies (take_back E now t s) = replies s @ [(t, fst (push_back_locked E now (queues s)))]"
  by (simp_all add: take_back_def split: prod.split)

lemma alone_take_back:
  assumes "alone t s" "passed s t"
  shows "alone t (take_back E now t s)"
proof -
  have "0 \<le> lastPopLevel (fst (queues s))" "take_back_ready (queues s)"
    using assms by (auto simp: alone_def)
  note take = ready_take_back [OF this(2,1), of E now]
  have "passed s u \<longrightarrow> u = t" for u using assms(1) by (simp add: alone_def)
  then have "\<not> ((passed s)(t := False)) u" for u by auto
  with take(1,2) assms(1) show ?thesis by (simp add: alone_def take_back_fields)
qed

lemma alone_step:
  assumes "pstep E now {t} s s'" "alone t s"
  shows "alone t s'"
  using assms(1)
proof (cases rule: pstep.cases)
  case (pushed x level)
  then show ?thesis using assms(2) by (simp add: alone_def ready_push)
next
  case (popped x)
  then show ?thesis using assms(2) ready_pop [of "queues s" E x] by (simp add: alone_def)
next
  case (looked u)
  then show ?thesis using alone_look [OF assms(2)] by simp
next
  case (took_back u)
  then show ?thesis using alone_take_back [OF assms(2)] by simp
qed

lemma four_steps: "R a b \<Longrightarrow> R b c \<Longrightarrow> R c d \<Longrightarrow> R d e \<Longrightarrow> R\<^sup>*\<^sup>* a e"
  by (rule converse_rtranclp_into_rtranclp, assumption)+ (rule rtranclp.rtrancl_refl)

lemma alone_reachable: "(pstep E now {t})\<^sup>*\<^sup>* s s' \<Longrightarrow> alone t s \<Longrightarrow> alone t s'"
  by (induction rule: rtranclp_induct) (auto intro: alone_step)

section \<open>Properties\<close>

text \<open>
  While one thread only calls \<open>push_back_last_pop\<close>, other threads pushing and popping beside
  it, no call reads the vector of queues outside its bounds or takes back a null pointer; it ends
  normally or with the error of writing a page.
\<close>

theorem single_caller_safe:
  assumes "take_back_ready p" and "(pstep E now {t})\<^sup>*\<^sup>* (psys_start p) s"
  shows "\<forall>e. (u, Inl e) \<in> set (replies s) \<longrightarrow> (\<exists>q. e = QueueError q)"
proof -
  have "alone t s"
    by (rule alone_reachable [OF assms(2)]) (use assms(1) in \<open>simp add: alone_def psys_start_def\<close>)
  then have "harmless r" if "(u, r) \<in> set (replies s)" for r
    using that by (force simp: alone_def list_all_iff)
  then show ?thesis by (force simp: harmless_def split: perror.splits)
qed

text \<open>
  C31. Two threads that call \<open>push_back_last_pop\<close> after a pop can both find a level to take the
  object back to. The first takes it back and sets the level to \<open>-1\<close>; the second, with the mutex,
  reads the vector of queues at that index.
\<close>

theorem two_callers_race:
  assumes "t \<in> T" and "u \<in> T" and "t \<noteq> u" and "take_back_ready p" and "0 \<le> lastPopLevel (fst p)"
    and "fst (push_back_last_pop E now p) = Inr ()"
  shows "\<exists>s. (pstep E now T)\<^sup>*\<^sup>* (psys_start p) s \<and>
    replies s = [(t, Inr ()), (u, Inl (NoSuchLevel (2 ^ 64 - 1)))]"
proof -
  let ?s0 = "psys_start p"
  let ?s1 = "look t ?s0" let ?s2 = "look u ?s1"
  let ?s3 = "take_back E now t ?s2" let ?s4 = "take_back E now u ?s3"
  obtain p' where p': "push_back_locked E now p = (Inr (), p')" "lastPopLevel (fst p') = -1"
    "take_back_ready p'"
    using assms(6) ready_take_back [OF assms(4,5), of E now] assms(5)
    by (cases "push_back_locked E now p") (auto simp: push_back_last_pop_def)
  have s2: "?s2 = \<lparr>queues = p, passed = (\<lambda>v. False)(t := True, u := True), replies = []\<rparr>"
    using assms(5) by (simp add: look_def psys_start_def)
  have s3: "?s3 = \<lparr>queues = p', passed = (\<lambda>v. False)(u := True), replies = [(t, Inr ())]\<rparr>"
    using assms(3) by (simp add: s2 take_back_def p'(1) fun_eq_iff)
  have "push_back_locked E now p' = (Inl (NoSuchLevel (2 ^ 64 - 1)), p')"
    using p'(2,3) by (simp add: push_back_locked_def take_back_ready_def)
  then have replies: "replies ?s4 = [(t, Inr ()), (u, Inl (NoSuchLevel (2 ^ 64 - 1)))]"
    by (simp only: take_back_fields s3 psys.select_convs) simp
  have "\<not> passed ?s0 t" "\<not> passed ?s1 u"
    using assms(3,5) by (simp_all add: look_def psys_start_def)
  then have steps: "pstep E now T ?s0 ?s1" "pstep E now T ?s1 ?s2"
    using assms(1,2) by (simp_all add: looked)
  have "passed ?s2 t" "passed ?s3 u"
    using assms(3) by (simp_all only: take_back_fields s2 psys.select_convs) simp_all
  then have steps': "pstep E now T ?s2 ?s3" "pstep E now T ?s3 ?s4"
    using assms(1,2) by (simp_all add: took_back)
  show ?thesis
    by (intro exI conjI four_steps) (rule steps, rule steps, rule steps', rule steps', rule replies)
qed

definition two_popped :: "string pstate" where
  "two_popped = snd (ppq_pop demo_env demo_urgent)"

lemma two_popped_state:
  "length (persistedQList (fst two_popped)) = 2" "lastPopLevel (fst two_popped) = 0"
  "lastPopedObject (fst two_popped) = Some ''a''"
  "fst (push_back_last_pop demo_env 5 two_popped) = Inr ()"
  by code_simp+

lemma two_popped_ready: "take_back_ready two_popped"
  by (simp add: take_back_ready_def two_popped_state)

lemma single_caller_safe_witness:
  "\<exists>s. (pstep demo_env 5 {1})\<^sup>*\<^sup>* (psys_start two_popped) s \<and> replies s = [(1, Inr ())] \<and>
     (\<forall>e. (1, Inl e) \<in> set (replies s) \<longrightarrow> (\<exists>q. e = QueueError q))"
proof -
  let ?s1 = "look 1 (psys_start two_popped)"
  let ?s2 = "take_back demo_env 5 1 ?s1"
  have "pstep demo_env 5 {1} (psys_start two_popped) ?s1"
    by (rule looked) (simp_all add: psys_start_def)
  moreover have "pstep demo_env 5 {1} ?s1 ?s2"
    by (rule took_back) (simp_all add: look_def psys_start_def two_popped_state)
  ultimately have run: "(pstep demo_env 5 {1})\<^sup>*\<^sup>* (psys_start two_popped) ?s2"
    by (rule converse_rtranclp_into_rtranclp [OF _ r_into_rtranclp])
  have "queues ?s1 = two_popped" "replies ?s1 = []"
    using two_popped_state(2) by (simp_all add: look_def psys_start_def)
  then have "replies ?s2 = [(1, fst (push_back_locked demo_env 5 two_popped))]"
    by (simp only: take_back_fields) simp
  then have replies: "replies ?s2 = [(1, Inr ())]"
    using two_popped_state(2,4) by (simp only: push_back_last_pop_def if_True order_refl)
  show ?thesis
  proof (intro exI conjI)
    show "\<forall>e. (1, Inl e) \<in> set (replies ?s2) \<longrightarrow> (\<exists>q. e = QueueError q)"
      by (rule single_caller_safe [OF two_popped_ready run])
  qed (rule run, rule replies)
qed

lemma two_callers_race_witness:
  "\<exists>s. (pstep demo_env 5 {1, 2})\<^sup>*\<^sup>* (psys_start two_popped) s \<and>
    replies s = [(1, Inr ()), (2, Inl (NoSuchLevel (2 ^ 64 - 1)))]"
  using two_callers_race [of 1 "{1, 2}" 2 two_popped demo_env 5] two_popped_ready
  by (simp add: two_popped_state)

end
