(* ===== verification/Priority_Monitor.thy ===== *)
theory Priority_Monitor
  imports Priority_Threads
begin

text \<open>
  Several threads on one \<open>ThreadsafePersistedPriorityQueue\<close>: the calls of
  kisscpp/threadsafe_persisted_priority_queue.hpp in the step relation of Monitor. \<open>push\<close>, \<open>pop\<close> and
  \<open>empty\<close> lock; \<open>shutdown\<close> and the two \<open>clear\<close> do not. (\<open>push_back_last_pop\<close>, which locks for its second
  half only, is taken apart in Priority_Threads.)
\<close>

section \<open>The calls\<close>

datatype 'a pcall = Prio_push 'a u32 | Prio_pop | Prio_empty | Prio_shutdown | Prio_clear_level nat | Prio_clear

datatype 'a preply = Prio_done | Prio_item "'a option" | Prio_flag bool | Prio_threw perror

definition prio_done :: "(perror, unit, 's) outcome \<Rightarrow> 'a preply \<times> 's" where
  "prio_done r = (case fst r of Inl e \<Rightarrow> Prio_threw e | Inr u \<Rightarrow> Prio_done, snd r)"

fun priority_call :: "'a qenv \<Rightarrow> int \<Rightarrow> 'a pcall \<Rightarrow> 'a pstate \<Rightarrow> 'a preply \<times> 'a pstate" where
  "priority_call E now (Prio_push x level) s = prio_done (ppq_push E now x level s)"
| "priority_call E now Prio_pop s =
     (let (r, s1) = ppq_pop E s in (case r of Inl e \<Rightarrow> Prio_threw e | Inr x \<Rightarrow> Prio_item x, s1))"
| "priority_call E now Prio_empty s = (Prio_flag (ppq_empty s), s)"
| "priority_call E now Prio_shutdown s = prio_done (ppq_shutdown E (\<lambda>i. now) s)"
| "priority_call E now (Prio_clear_level level) s = prio_done (ppq_clear_level E level s)"
| "priority_call E now Prio_clear s = prio_done (ppq_clear E s)"

definition prio_locked :: "'a pcall \<Rightarrow> bool" where
  "prio_locked c \<longleftrightarrow> (case c of Prio_push x level \<Rightarrow> True | Prio_pop \<Rightarrow> True | Prio_empty \<Rightarrow> True | _ \<Rightarrow> False)"

type_synonym 'a prio_sys = "(int, 'a pcall, 'a preply, 'a pstate) monitor"

definition prio_step :: "'a qenv \<Rightarrow> 'a prio_sys \<Rightarrow> 'a prio_sys \<Rightarrow> bool" where
  "prio_step E = mstep (\<le>) (priority_call E) prio_locked"

section \<open>The contract\<close>

fun prio_brought :: "'a pcall \<Rightarrow> 'a preply \<Rightarrow> 'a multiset" where
  "prio_brought (Prio_push x level) Prio_done = {#x#}"
| "prio_brought c r = {#}"

fun prio_given :: "'a pcall \<Rightarrow> 'a preply \<Rightarrow> 'a multiset" where
  "prio_given Prio_pop (Prio_item (Some x)) = {#x#}"
| "prio_given c r = {#}"

fun prio_names :: "'a pcall \<Rightarrow> nat" where
  "prio_names (Prio_push x level) = 1"
| "prio_names c = 0"

fun prio_can_store :: "'a qenv \<Rightarrow> 'a pcall \<Rightarrow> bool" where
  "prio_can_store E (Prio_push x level) = storable E x"
| "prio_can_store E c = True"

definition prio_ok :: "'a qenv \<Rightarrow> nat \<Rightarrow> int \<Rightarrow> 'a pstate \<Rightarrow> bool" where
  "prio_ok E n now s \<longleftrightarrow> ppq_ok E n now s \<and> 0 < levels (fst s)"

definition prio_held :: "'a qenv \<Rightarrow> 'a pstate \<Rightarrow> 'a multiset" where
  "prio_held E s = mset (concat (level_items E s))"

lemma mset_concat_update:
  "i < length xss \<Longrightarrow> mset (concat (xss[i := ys])) + mset (xss ! i) = mset (concat xss) + mset ys"
proof (induction xss arbitrary: i)
  case (Cons xs xss)
  then show ?case by (cases i) (simp_all add: ac_simps)
qed simp

lemma ppq_ok_later: "ppq_ok E n m s \<Longrightarrow> m \<le> now \<Longrightarrow> ppq_ok E n now s"
  by (auto simp: ppq_ok_def intro: pqueue.later)

lemma level_count: "ppq_ok E n now s \<Longrightarrow> length (level_items E s) = unat (levels (fst s))"
  by (simp add: ppq_ok_def level_items_def)

lemma prio_push_keeps:
  assumes "prio_ok E (Suc n) now s" "storable E x"
  shows "prio_ok E n now (snd (ppq_push E now x level s)) \<and>
    prio_held E (snd (ppq_push E now x level s)) = prio_held E s +
      (case fst (ppq_push E now x level s) of Inl e \<Rightarrow> {#} | Inr u \<Rightarrow> {#x#})"
proof -
  have ok: "ppq_ok E (Suc n) now s" "0 < levels (fst s)" using assms(1) by (simp_all add: prio_ok_def)
  note push = ppq_push_ok [OF ok assms(2), of level]
  let ?i = "clamp (unat (levels (fst s))) (unat level)"
  have "?i < length (level_items E s)"
    using level_count [OF ok(1)] ok(2) by (simp add: clamp_def word_less_nat_alt)
  from mset_concat_update [OF this, of "level_items E s ! ?i @ [x]"]
  have "mset (concat ((level_items E s)[?i := level_items E s ! ?i @ [x]])) = mset (concat (level_items E s)) + {#x#}"
    by simp
  moreover have "levels (fst (snd (ppq_push E now x level s))) = levels (fst s)"
    by (simp add: ppq_push_def Let_def on_level_frame)
  ultimately show ?thesis using push ok(2) by (simp add: prio_ok_def prio_held_def Let_def split: sum.split)
qed

lemma prio_pop_exhausted:
  assumes "ppq_ok E n now s" "\<forall>xs\<in>set (level_items E s). xs = []"
  shows "ppq_pop E s = (Inl (NoSuchLevel (unat (levels (fst s)))), ((fst s)\<lparr>lastPopLevel := int (unat (levels (fst s)))\<rparr>, snd s))"
  using all_levels_empty [OF assms] by (simp add: ppq_pop_def on_level_def Let_def)

lemma mset_concat_drop:
  assumes "i < length xss" "xss ! i = y # ys"
  shows "mset (concat xss) = mset (concat (xss[i := ys])) + {#y#}"
proof -
  have "mset (concat (xss[i := ys])) + {#y#} + mset ys = mset (concat xss) + mset ys"
    using mset_concat_update [OF assms(1), of ys] by (simp del: mset_concat add: assms(2))
  then show ?thesis by (simp only: add_right_cancel)
qed

lemma prio_pop_keeps:
  assumes "prio_ok E n now s"
  shows "prio_ok E n now (snd (ppq_pop E s)) \<and>
    prio_held E s = prio_held E (snd (ppq_pop E s)) +
      (case fst (ppq_pop E s) of Inr (Some x) \<Rightarrow> {#x#} | _ \<Rightarrow> {#})"
proof -
  have ok: "ppq_ok E n now s" "0 < levels (fst s)" using assms by (simp_all add: prio_ok_def)
  define i where "i = length (takeWhile (\<lambda>xs. xs = []) (level_items E s))"
  show ?thesis
  proof (cases "i < length (level_items E s)")
    case True
    then have "i < unat (levels (fst s))" using level_count [OF ok(1)] by simp
    note pop = ppq_pop_ok [OF ok(1) i_def this]
    have "level_items E s ! i \<noteq> []" using nth_after_takeWhile [OF True [unfolded i_def]] by (simp add: i_def)
    then obtain y ys where y: "level_items E s ! i = y # ys" by (cases "level_items E s ! i") auto
    have "prio_held E s = prio_held E (snd (ppq_pop E s)) + {#y#}"
      using mset_concat_drop [OF True y] by (simp only: prio_held_def pop(2) y list.sel)
    then show ?thesis using pop(1,3,6) ok(2) y by (simp add: prio_ok_def)
  next
    case False
    then have "\<not> (\<exists>xs\<in>set (level_items E s). xs \<noteq> [])"
      using takeWhile_length_less [of "level_items E s" "\<lambda>xs. xs = []"] by (simp only: i_def not_False_eq_True)
    then have "\<forall>xs\<in>set (level_items E s). xs = []" by blast
    note pop = prio_pop_exhausted [OF ok(1) this]
    have "ppq_ok E n now ((fst s)\<lparr>lastPopLevel := l\<rparr>, snd s) = ppq_ok E n now s"
      "level_items E ((fst s)\<lparr>lastPopLevel := l\<rparr>, snd s) = level_items E s" for l
      by (simp_all add: ppq_ok_def level_items_def)
    with ok show ?thesis by (simp add: pop prio_ok_def prio_held_def)
  qed
qed

lemma priority_call_keeps:
  assumes "prio_locked c" "prio_can_store E c" "prio_ok E (prio_names c + n) m s" "m \<le> now"
  shows "prio_ok E n now (snd (priority_call E now c s)) \<and>
    prio_held E s + prio_brought c (fst (priority_call E now c s)) =
      prio_given c (fst (priority_call E now c s)) + prio_held E (snd (priority_call E now c s))"
proof -
  have ok: "prio_ok E (prio_names c + n) now s" using assms(3) by (auto simp: prio_ok_def intro: ppq_ok_later [OF _ assms(4)])
  show ?thesis
  proof (cases c)
    case (Prio_push x level)
    with ok assms(2) have "prio_ok E (Suc n) now s" "storable E x" by simp_all
    from prio_push_keeps [OF this, of level] show ?thesis
      by (auto simp: Prio_push prio_done_def split: sum.split)
  next
    case Prio_pop
    with ok have "prio_ok E n now s" by simp
    from prio_pop_keeps [OF this] show ?thesis
      by (auto simp: Prio_pop Let_def split: prod.split sum.split option.split)
  qed (use ok assms(1) in \<open>simp_all add: prio_locked_def\<close>)
qed

interpretation priority: shared_container "(\<le>)" "priority_call E" prio_locked "prio_ok E" "prio_held E"
  prio_brought prio_given prio_names "prio_can_store E" for E
  by unfold_locales (use priority_call_keeps in blast)+

section \<open>Properties\<close>

text \<open>
  C13. Any number of threads that push to, pop from and look at a priority queue, in any interleaving in
  which no unlocked call has completed: the results are those of the same calls made one after the
  other in the order in which they completed, and the objects popped and those still on some level
  are those held at first and those whose push returned, none lost and none given twice; popping
  an empty queue, which has no defined result, takes nothing.
\<close>

theorem priority_threads:
  assumes "(prio_step E)\<^sup>*\<^sup>* (idle now s0) \<sigma>" and "all_locked prio_locked \<sigma>"
    and "ppq_ok E n now s0" and "0 < levels (fst s0)"
    and "sum_list (map prio_names (log_calls (log \<sigma>))) \<le> n"
    and "\<forall>c\<in>set (log_calls (log \<sigma>)). prio_can_store E c"
  shows "replay (priority_call E) (log \<sigma>) s0 = (map (snd \<circ> snd) (log \<sigma>), shared \<sigma>) \<and>
    prio_held E s0 + log_total prio_brought (log \<sigma>) = log_total prio_given (log \<sigma>) + prio_held E (shared \<sigma>)"
proof
  note run = assms(1) [unfolded prio_step_def]
  show "replay (priority_call E) (log \<sigma>) s0 = (map (snd \<circ> snd) (log \<sigma>), shared \<sigma>)"
    using atomic_inv_reachable [OF run] assms(2) by (simp add: atomic_inv_def)
  have "prio_ok E n now s0" using assms(3,4) by (simp add: prio_ok_def)
  from priority.threads_held [OF run assms(2) this assms(5,6)]
  show "prio_held E s0 + log_total prio_brought (log \<sigma>) = log_total prio_given (log \<sigma>) + prio_held E (shared \<sigma>)" .
qed

lemma priority_threads_witness:
  "\<exists>\<sigma>. (prio_step demo_env)\<^sup>*\<^sup>* (idle 5 demo_urgent) \<sigma> \<and> log_calls (log \<sigma>) = [Prio_push ''v'' 9, Prio_pop] \<and>
     {#''a'', ''b''#} + log_total prio_brought (log \<sigma>) = log_total prio_given (log \<sigma>) + prio_held demo_env (shared \<sigma>)"
proof -
  let ?i = "idle 5 demo_urgent :: string prio_sys"
  have i: "threads ?i = (\<lambda>_. Outside)" "objectMutex ?i = None" "clock ?i = 5" "log ?i = []"
    by (simp_all add: idle_def)
  have lk: "prio_locked (Prio_push ''v'' 9)" "prio_locked (Prio_pop :: string pcall)"
    by (simp_all add: prio_locked_def)
  obtain \<sigma>1 where 1: "(prio_step demo_env)\<^sup>*\<^sup>* ?i \<sigma>1" "threads \<sigma>1 = (\<lambda>_. Outside)" "objectMutex \<sigma>1 = None"
    "clock \<sigma>1 = 5" "log_calls (log \<sigma>1) = [Prio_push ''v'' 9]"
    by (rule locked_call_reachable [of "(\<le>)" "priority_call demo_env" prio_locked ?i ?i 0 "Prio_push ''v'' 9" 5])
      (simp_all add: i lk prio_step_def)
  obtain \<sigma>2 where 2: "(prio_step demo_env)\<^sup>*\<^sup>* ?i \<sigma>2" "log_calls (log \<sigma>2) = [Prio_push ''v'' 9, Prio_pop]"
    by (rule locked_call_reachable [OF 1(1) [unfolded prio_step_def], of 7 Prio_pop 5])
      (use 1 lk in \<open>simp_all add: prio_step_def\<close>)
  have l: "all_locked prio_locked \<sigma>2" using 2(2) lk by (simp add: all_locked_def)
  have h: "level_items demo_env demo_urgent = [[''a''], [''b'']]" "0 < levels (fst demo_urgent)" by code_simp+
  from priority_threads [OF 2(1) l demo_urgent_ok h(2)] 2 h(1) show ?thesis
    by (auto simp: demo_storable prio_held_def)
qed

end
