(* ===== verification/Base64_Rfc.thy ===== *)
theory Base64_Rfc
  imports Base64_Coder
begin

text \<open>
  The RFC 4648 conversion between bytes and base64 characters, over the bits of the
  characters: the documented behaviour of the Boost iterators, as an instance of
  \<open>base64_iterators\<close> that evaluates.
\<close>

section \<open>Bits of bytes and of base64 characters\<close>

definition byte_bits :: "char \<Rightarrow> bool list" where
  "byte_bits c = (case c of Char b0 b1 b2 b3 b4 b5 b6 b7 \<Rightarrow> [b7, b6, b5, b4, b3, b2, b1, b0])"

fun octets :: "bool list \<Rightarrow> string" where
  "octets (b7 # b6 # b5 # b4 # b3 # b2 # b1 # b0 # bs) = Char b0 b1 b2 b3 b4 b5 b6 b7 # octets bs"
| "octets _ = []"

fun sextets :: "bool list \<Rightarrow> bool list list" where
  "sextets (b1 # b2 # b3 # b4 # b5 # b6 # bs) = [b1, b2, b3, b4, b5, b6] # sextets bs"
| "sextets [] = []"
| "sextets bs = [take 6 (bs @ replicate 6 False)]"

definition sextet_value :: "bool list \<Rightarrow> nat" where
  "sextet_value bs = foldl (\<lambda>n b. 2 * n + (if b then 1 else 0)) 0 bs"

definition value_sextet :: "nat \<Rightarrow> bool list" where
  "value_sextet n = map (\<lambda>d. n div d mod 2 = 1) [32, 16, 8, 4, 2, 1]"

definition sextet_char :: "bool list \<Rightarrow> char" where
  "sextet_char bs = base64_alphabet ! sextet_value bs"

definition char_sextet :: "char \<Rightarrow> bool list option" where
  "char_sextet c = map_option value_sextet (map_of (zip base64_alphabet [0..<64]) c)"

fun all_sextets :: "string \<Rightarrow> bool list option" where
  "all_sextets [] = Some []"
| "all_sextets (c # cs) =
     (case char_sextet c of
        None \<Rightarrow> None
      | Some bs \<Rightarrow> map_option (\<lambda>rest. bs @ rest) (all_sextets cs))"

definition rfc_iters :: base64_iters where
  "rfc_iters =
     \<lparr>to_base64 = (\<lambda>s. map sextet_char (sextets (concat (map byte_bits s)))),
      from_base64 = (\<lambda>s. map_option octets (all_sextets s))\<rparr>"

section \<open>Facts about the bit groups\<close>

lemma length_byte_bits [simp]: "length (byte_bits c) = 8"
  by (cases c) (simp add: byte_bits_def)

lemma length_concat_byte_bits: "length (concat (map byte_bits s)) = 8 * length s"
  by (induction s) auto

lemma octets_byte_bits: "octets (byte_bits c @ bs) = c # octets bs"
  by (cases c) (simp add: byte_bits_def)

lemma octets_concat: "octets (concat (map byte_bits s) @ bs) = s @ octets bs"
  by (induction s) (simp_all add: octets_byte_bits)

lemma octets_zeros: "octets (replicate (8 * k) False) = replicate k nul"
  by (induction k) (simp_all add: numeral_eq_Suc)

lemma sextets_length6: "bs \<in> set (sextets xs) \<Longrightarrow> length bs = 6"
  by (induction xs rule: sextets.induct) auto

lemma length_sextets: "length (sextets bs) = (length bs + 5) div 6"
  by (induction bs rule: sextets.induct) auto

lemma concat_sextets:
  "concat (sextets bs) = bs @ replicate (6 * length (sextets bs) - length bs) False"
proof (induction bs rule: sextets.induct)
  case (1 b1 b2 b3 b4 b5 b6 bs)
  then show ?case by simp
qed (simp_all add: numeral_eq_Suc)

lemma list6_cases:
  assumes "length bs = 6"
  obtains b1 b2 b3 b4 b5 b6 where "bs = [b1, b2, b3, b4, b5, b6]"
  using assms by (auto simp: numeral_eq_Suc length_Suc_conv)

lemma value_sextet_value: "length bs = 6 \<Longrightarrow> value_sextet (sextet_value bs) = bs"
  by (erule list6_cases) (simp add: value_sextet_def sextet_value_def)

lemma sextet_value_less: "length bs = 6 \<Longrightarrow> sextet_value bs < 64"
  by (erule list6_cases) (simp add: sextet_value_def)

lemma alphabet_table: "\<forall>n<64. map_of (zip base64_alphabet [0..<64]) (base64_alphabet ! n) = Some n"
proof -
  have "distinct base64_alphabet" "length base64_alphabet = 64"
    by (simp_all add: base64_alphabet_def)
  then show ?thesis
    by (auto simp: map_of_zip_nth)
qed

lemma char_sextet_char: "length bs = 6 \<Longrightarrow> char_sextet (sextet_char bs) = Some bs"
  using alphabet_table sextet_value_less [of bs]
  by (simp add: char_sextet_def sextet_char_def value_sextet_value)

lemma all_sextets_map:
  "all_sextets cs = Some rest \<Longrightarrow> \<forall>bs\<in>set bss. length bs = 6 \<Longrightarrow>
   all_sextets (map sextet_char bss @ cs) = Some (concat bss @ rest)"
  by (induction bss) (simp_all add: char_sextet_char)

lemma all_sextets_A: "all_sextets (replicate k CHR ''A'') = Some (replicate (6 * k) False)"
proof (induction k)
  case (Suc k)
  have "char_sextet CHR ''A'' = Some (replicate 6 False)"
    by (simp add: char_sextet_def base64_alphabet_def value_sextet_def numeral_eq_Suc upt_rec)
  with Suc show ?case by (simp add: replicate_add [symmetric])
qed simp

section \<open>The instance\<close>

lemma rfc_zero_bits:
  "6 * ((8 * n + 5) div 6) - 8 * n + 6 * padding n = 8 * padding n"
proof -
  have d: "(24 * q + 5) div 6 = 4 * q" "(13 + 24 * q) div 6 = 4 * q + 2"
    "(21 + 24 * q) div 6 = 4 * q + 3" "(3 * q + 1) mod 3 = 1" "(3 * q + 2) mod 3 = 2" for q :: nat
    by (linarith | presburger)+
  have "n mod 3 = 0 \<or> n mod 3 = 1 \<or> n mod 3 = 2" by linarith
  moreover have "n = 3 * (n div 3) + n mod 3" by simp
  ultimately obtain q where "n = 3 * q \<or> n = 3 * q + 1 \<or> n = 3 * q + 2"
    by (metis add.right_neutral)
  then show ?thesis by (elim disjE) (simp_all add: d padding_def del: add_2_eq_Suc')
qed

lemma rfc_from_to:
  "from_base64 rfc_iters (to_base64 rfc_iters s @ replicate (padding (length s)) CHR ''A'') =
   Some (s @ replicate (padding (length s)) nul)"
proof -
  let ?k = "padding (length s)" and ?bits = "concat (map byte_bits s)"
  let ?z = "6 * length (sextets ?bits) - length ?bits"
  have z: "?z + 6 * ?k = 8 * ?k"
    using rfc_zero_bits by (simp add: length_sextets length_concat_byte_bits)
  have "all_sextets (map sextet_char (sextets ?bits) @ replicate ?k CHR ''A'') =
    Some (concat (sextets ?bits) @ replicate (6 * ?k) False)"
    by (intro all_sextets_map all_sextets_A ballI sextets_length6)
  also have "concat (sextets ?bits) @ replicate (6 * ?k) False = ?bits @ replicate (8 * ?k) False"
    by (simp add: concat_sextets replicate_add [symmetric] z)
  finally show ?thesis
    by (simp add: rfc_iters_def octets_concat octets_zeros)
qed

lemma rfc_chars: "set (to_base64 rfc_iters s) \<subseteq> set base64_alphabet"
proof -
  have "length base64_alphabet = 64" by (simp add: base64_alphabet_def)
  then show ?thesis
    by (auto simp: rfc_iters_def sextet_char_def intro!: nth_mem sextet_value_less
        dest!: sextets_length6)
qed

lemma rfc_length: "length (to_base64 rfc_iters s) = (4 * length s + 2) div 3"
proof -
  have "(8 * n + 5) div 6 = (4 * n + 2) div 3" for n :: nat by linarith
  then show ?thesis by (simp add: rfc_iters_def length_sextets length_concat_byte_bits)
qed

interpretation rfc: base64_iterators rfc_iters
  by unfold_locales (rule rfc_length rfc_chars rfc_from_to)+

section \<open>The standard's own description\<close>

text \<open>RFC 4648, section 4: groups of three bytes as numbers, the last group padded.\<close>

definition digit64 :: "nat \<Rightarrow> char" where
  "digit64 n = base64_alphabet ! (n mod 64)"

fun rfc4648 :: "string \<Rightarrow> string" where
  "rfc4648 [] = []"
| "rfc4648 [a] =
     [digit64 (of_char a div 4), digit64 (of_char a * 16 + 0)] @ ''==''"
| "rfc4648 [a, b] =
     [digit64 (of_char a div 4), digit64 (of_char a * 16 + of_char b div 16), digit64 (of_char b * 4 + 0)] @ ''=''"
| "rfc4648 (a # b # c # s) =
     [digit64 (of_char a div 4), digit64 (of_char a * 16 + of_char b div 16),
      digit64 (of_char b * 4 + of_char c div 64), digit64 (of_char c)] @ rfc4648 s"

lemma byte_parts:
  fixes b0 b1 b2 b3 b4 b5 b6 b7 :: bool
  defines "n \<equiv> of_char (Char b0 b1 b2 b3 b4 b5 b6 b7) :: nat"
  shows "n div 4 = sextet_value [b7, b6, b5, b4, b3, b2]" "n mod 4 = 2 * of_bool b1 + of_bool b0"
    "n div 16 = 8 * of_bool b7 + 4 * of_bool b6 + 2 * of_bool b5 + of_bool b4"
    "n mod 16 = 8 * of_bool b3 + 4 * of_bool b2 + 2 * of_bool b1 + of_bool b0"
    "n div 64 = 2 * of_bool b7 + of_bool b6" "n mod 64 = sextet_value [b5, b4, b3, b2, b1, b0]"
  unfolding n_def sextet_value_def
  by (cases b0; cases b1; cases b2; cases b3; cases b4; cases b5; cases b6; cases b7; simp)+

lemma sextet_value_cons:
  "sextet_value [a5, a4, a3, a2, a1, a0] =
     32 * of_bool a5 + 16 * of_bool a4 + 8 * of_bool a3 + 4 * of_bool a2 + 2 * of_bool a1 + of_bool a0"
  by (simp add: sextet_value_def)

lemma digit64_sextet: "length bs = 6 \<Longrightarrow> n mod 64 = sextet_value bs \<Longrightarrow> digit64 n = sextet_char bs"
  by (simp add: digit64_def sextet_char_def)

lemma shift_mod: "(x * 16 + y) mod 64 = (x mod 4 * 16 + y) mod (64 :: nat)" "(x * 4 + y) mod 64 = (x mod 16 * 4 + y) mod (64 :: nat)"
proof -
  have "x * 16 mod (4 * 16) = x mod 4 * 16" "x * 4 mod (16 * 4) = x mod 16 * 4" for x :: nat
    by (rule mod_mult_mult2)+
  then have "x * 16 mod 64 = x mod 4 * 16" "x * 4 mod 64 = x mod 16 * 4" for x :: nat
    by simp_all
  then show "(x * 16 + y) mod 64 = (x mod 4 * 16 + y) mod (64 :: nat)" "(x * 4 + y) mod 64 = (x mod 16 * 4 + y) mod (64 :: nat)"
    by (metis mod_add_left_eq)+
qed

lemma sextet_sum: "length bs = 6 \<Longrightarrow> n = sextet_value bs \<Longrightarrow> n mod 64 = sextet_value bs"
  using sextet_value_less [of bs] by simp

text \<open>The four digits of a group, in numbers and in bits.\<close>

lemma group_sums:
  "(2 * x1 + x0) * 16 + 0 = 32 * x1 + 16 * x0 + 8 * 0 + 4 * 0 + 2 * 0 + (0 :: nat)"
  "(2 * x1 + x0) * 16 + (8 * y3 + 4 * y2 + 2 * y1 + y0) = 32 * x1 + 16 * x0 + 8 * y3 + 4 * y2 + 2 * y1 + (y0 :: nat)"
  "(8 * y3 + 4 * y2 + 2 * y1 + y0) * 4 + 0 = 32 * y3 + 16 * y2 + 8 * y1 + 4 * y0 + 2 * 0 + (0 :: nat)"
  "(8 * y3 + 4 * y2 + 2 * y1 + y0) * 4 + (2 * x1 + x0) = 32 * y3 + 16 * y2 + 8 * y1 + 4 * y0 + 2 * x1 + (x0 :: nat)"
  by simp_all

lemma digits_of_bytes:
  "digit64 (of_char (Char a0 a1 a2 a3 a4 a5 a6 a7) div 4) = sextet_char [a7, a6, a5, a4, a3, a2]"
  "digit64 (of_char (Char a0 a1 a2 a3 a4 a5 a6 a7) * 16 + 0) = sextet_char [a1, a0, False, False, False, False]"
  "digit64 (of_char (Char a0 a1 a2 a3 a4 a5 a6 a7) * 16 + of_char (Char b0 b1 b2 b3 b4 b5 b6 b7) div 16) =
     sextet_char [a1, a0, b7, b6, b5, b4]"
  "digit64 (of_char (Char b0 b1 b2 b3 b4 b5 b6 b7) * 4 + 0) = sextet_char [b3, b2, b1, b0, False, False]"
  "digit64 (of_char (Char b0 b1 b2 b3 b4 b5 b6 b7) * 4 + of_char (Char c0 c1 c2 c3 c4 c5 c6 c7) div 64) =
     sextet_char [b3, b2, b1, b0, c7, c6]"
  "digit64 (of_char (Char c0 c1 c2 c3 c4 c5 c6 c7)) = sextet_char [c5, c4, c3, c2, c1, c0]"
  by (rule digit64_sextet, simp, (subst shift_mod)?, unfold byte_parts,
      (rule refl | (rule sextet_sum, simp, simp only: sextet_value_cons group_sums of_bool_eq)
        | (rule sextet_sum, simp, rule refl)))+

lemma bytes_to_sextets:
  "to_base64 rfc_iters [Char a0 a1 a2 a3 a4 a5 a6 a7] =
     [sextet_char [a7, a6, a5, a4, a3, a2], sextet_char [a1, a0, False, False, False, False]]"
  "to_base64 rfc_iters [Char a0 a1 a2 a3 a4 a5 a6 a7, Char b0 b1 b2 b3 b4 b5 b6 b7] =
     [sextet_char [a7, a6, a5, a4, a3, a2], sextet_char [a1, a0, b7, b6, b5, b4],
      sextet_char [b3, b2, b1, b0, False, False]]"
  "to_base64 rfc_iters (Char a0 a1 a2 a3 a4 a5 a6 a7 # Char b0 b1 b2 b3 b4 b5 b6 b7 # Char c0 c1 c2 c3 c4 c5 c6 c7 # s) =
     [sextet_char [a7, a6, a5, a4, a3, a2], sextet_char [a1, a0, b7, b6, b5, b4],
      sextet_char [b3, b2, b1, b0, c7, c6], sextet_char [c5, c4, c3, c2, c1, c0]] @ to_base64 rfc_iters s"
  by (simp_all add: rfc_iters_def byte_bits_def numeral_eq_Suc)

lemma rfc4648_split: "rfc4648 s = to_base64 rfc_iters s @ replicate (padding (length s)) CHR ''=''"
proof (induction s rule: rfc4648.induct)
  case 1
  then show ?case by (simp add: rfc_iters_def padding_def)
next
  case (2 a)
  obtain a0 a1 a2 a3 a4 a5 a6 a7 where a: "a = Char a0 a1 a2 a3 a4 a5 a6 a7" by (cases a)
  show ?case unfolding a rfc4648.simps digits_of_bytes bytes_to_sextets by (simp add: padding_def numeral_2_eq_2)
next
  case (3 a b)
  obtain a0 a1 a2 a3 a4 a5 a6 a7 b0 b1 b2 b3 b4 b5 b6 b7
    where c: "a = Char a0 a1 a2 a3 a4 a5 a6 a7" "b = Char b0 b1 b2 b3 b4 b5 b6 b7" by (cases a; cases b)
  show ?case unfolding c rfc4648.simps digits_of_bytes bytes_to_sextets by (simp add: padding_def)
next
  case (4 a b c s)
  obtain a0 a1 a2 a3 a4 a5 a6 a7 b0 b1 b2 b3 b4 b5 b6 b7 c0 c1 c2 c3 c4 c5 c6 c7
    where c: "a = Char a0 a1 a2 a3 a4 a5 a6 a7" "b = Char b0 b1 b2 b3 b4 b5 b6 b7" "c = Char c0 c1 c2 c3 c4 c5 c6 c7"
    by (cases a; cases b; cases c)
  have "padding (length (a # b # c # s)) = padding (length s)" by (simp add: padding_def mod_Suc)
  then show ?case unfolding 4 c rfc4648.simps digits_of_bytes bytes_to_sextets by simp
qed



section \<open>Records survive the round trip\<close>

text \<open>
  C24. A property tree that the JSON writer can write and the JSON reader reads back survives the
  queue's record coder: encoding succeeds, the record is one line of base64 characters without
  NUL, four for every three bytes begun, and decoding it gives the tree.
\<close>

theorem record_roundtrip:
  assumes "base64_iterators B" "write_json J t = Some s" "s \<noteq> []" "read_json J s = Some t"
  shows "\<exists>r. ptree_encode B J t = Inr r \<and> ptree_decode B J r = Inr t \<and>
    newline \<notin> set r \<and> nul \<notin> set r \<and> length r = 4 * ((length s + 2) div 3)"
  using base64_iterators.decode_encode [OF assms(1,3)] base64_iterators.encoded_line [OF assms(1), of s]
    base64_iterators.encoded_length [OF assms(1), of s] assms(2,4)
  by (simp add: ptree_encode_def ptree_decode_def)

text \<open>A JSON reader and writer of one-entry objects, to apply it to.\<close>

definition field_json :: "string json_io" where
  "field_json =
     \<lparr>write_json = (\<lambda>v. Some (''{\"n\":\"'' @ v @ ''\"}'')),
      read_json = (\<lambda>s. if length s < 8 then None else Some (take (length s - 8) (drop 6 s)))\<rparr>"

lemma record_roundtrip_witness:
  "ptree_encode rfc_iters field_json ''42'' = Inr ''eyJuIjoiNDIifQ=='' \<and>
   ptree_decode rfc_iters field_json ''eyJuIjoiNDIifQ=='' = Inr ''42''"
proof -
  have e: "ptree_encode rfc_iters field_json ''42'' = Inr ''eyJuIjoiNDIifQ==''" by code_simp
  have "write_json field_json ''42'' = Some ''{\"n\":\"42\"}''" "read_json field_json ''{\"n\":\"42\"}'' = Some ''42''"
    by code_simp+
  from record_roundtrip [OF rfc.base64_iterators_axioms this(1) _ this(2)] e show ?thesis by auto
qed

end
