(* ===== verification/Queue_Test.thy ===== *)
theory Queue_Test
  imports Queue_Demo Base64_Rfc
begin

text \<open>
  The repository's test of the persisted queue (tests/src/test_persisted_queue.cpp): a coder of
  strings on top of \<open>Base64BiCoder\<close>, and scenarios that construct a queue, push a number of
  strings, ask for its size, pop as many, and destroy it. The theory shows that they pass, one
  after the other on the same disk, for other numbers as well: a queue that is empty when it is
  destroyed leaves the disk as it found it.
\<close>

section \<open>The test\<close>

text \<open>\<open>StringBiCoder\<close>\<close>

definition string_encode :: "base64_iters \<Rightarrow> string \<Rightarrow> string option" where
  "string_encode B s = Some (encodeToBase64String B s)"

definition string_decode :: "base64_iters \<Rightarrow> string \<Rightarrow> string option" where
  "string_decode B r = (case decodeFromBase64 B r of Inl e \<Rightarrow> None | Inr s \<Rightarrow> Some s)"

definition string_env :: "base64_iters \<Rightarrow> string qenv \<Rightarrow> string qenv" where
  "string_env B E = E\<lparr>coder_encode := string_encode B, coder_decode := string_decode B\<rparr>"

fun push_times :: "'a qenv \<Rightarrow> int \<Rightarrow> 'a \<Rightarrow> nat \<Rightarrow> 'a qstate \<Rightarrow> (qerror, unit, 'a qstate) outcome" where
  "push_times E now x 0 s = (Inr (), s)"
| "push_times E now x (Suc k) s = and_then (push_back E now x s) (\<lambda>_ s1. push_times E now x k s1)"

fun pop_times :: "'a qenv \<Rightarrow> nat \<Rightarrow> 'a qstate \<Rightarrow> (qerror, 'a option list, 'a qstate) outcome" where
  "pop_times E 0 s = (Inr [], s)"
| "pop_times E (Suc k) s =
     and_then (pop_front E s) (\<lambda>x s1. and_then (pop_times E k s1) (\<lambda>xs s2. (Inr (x # xs), s2)))"

text \<open>
  One \<open>WHEN\<close> with its \<open>GIVEN\<close> and \<open>THEN\<close>: the value is what \<open>REQUIRE\<close> finds, together with what the
  pops return; the queue is destroyed in every case.
\<close>

definition scenario ::
  "'a qenv \<Rightarrow> 'a \<Rightarrow> int \<Rightarrow> nat \<Rightarrow> disk \<Rightarrow> (qerror, bool \<times> 'a option list, disk) outcome" where
  "scenario E x now k d =
     (let (r0, (q0, d0)) = open_queue E ''test_queue'' ''/tmp/'' 10 d in
      case r0 of
        Inl e \<Rightarrow> (Inl e, d0)
      | Inr u \<Rightarrow>
          (let (r, s) = and_then (push_times E now x k (q0, d0))
                 (\<lambda>_ s1. if pq_size (fst s1) = k
                    then and_then (pop_times E k s1) (\<lambda>xs s2. (Inr (True, xs), s2))
                    else (Inr (False, []), s1))
           in (r, snd (snd (destroy_queue E now s)))))"

fun scenarios ::
  "'a qenv \<Rightarrow> 'a \<Rightarrow> (int \<times> nat) list \<Rightarrow> disk \<Rightarrow> (qerror + bool \<times> 'a option list) list \<times> disk" where
  "scenarios E x [] d = ([], d)"
| "scenarios E x ((now, k) # ks) d =
     (let (r, d1) = scenario E x now k d; (rs, d2) = scenarios E x ks d1 in (r # rs, d2))"

section \<open>The coder\<close>

lemma string_env_paths [simp]:
  "path_append (string_env B E) = path_append E" "path_filename (string_env B E) = path_filename E"
  "dir_holds (string_env B E) = dir_holds E" "regex_match (string_env B E) = regex_match E"
  by (simp_all add: string_env_def)

lemma string_env_queue_env: "queue_env E \<Longrightarrow> queue_env (string_env B E)"
  by (simp add: queue_env_def)

lemma string_env_storable:
  assumes "base64_iterators B" "x \<noteq> []"
  shows "storable (string_env B E) x"
  using base64_iterators.decode_encode [OF assms] base64_iterators.encoded_line [OF assms(1), of x]
  by (simp add: storable_def string_env_def string_encode_def string_decode_def)

section \<open>Files come and go with their names\<close>

lemma push_listed:
  assumes "push_back E now x (q, d) = (Inr u, (q', d'))"
  shows "(d' = d \<and> persistedFileNames q' = persistedFileNames q) \<or>
    (\<exists>p c. own_file E q p \<and> disk_can_write d p \<and> set (persistedFileNames q') = insert p (set (persistedFileNames q)) \<and>
       d' = disk_write p c d)"
proof (cases "\<not> shut_down q \<and> maxItemsPerPage q \<le> length (last_items q) \<and> firstPage q \<noteq> lastPage q")
  case True
  let ?fn = "page_path E q (seq_text now (next_count now q))"
  have "own_file E q ?fn" by simp
  moreover have "\<exists>c. disk_can_write d ?fn \<and> d' = disk_write ?fn c d \<and>
      set (persistedFileNames q') = insert ?fn (set (persistedFileNames q))"
    using assms True push_back_spill [of q E now x d]
    by (auto simp: persistToFile_def Let_def split: if_splits option.splits)
  ultimately show ?thesis by blast
next
  case False
  consider "shut_down q" | "\<not> shut_down q" "length (last_items q) < maxItemsPerPage q"
    | "\<not> shut_down q" "maxItemsPerPage q \<le> length (last_items q)" "firstPage q = lastPage q"
    using False by linarith
  then show ?thesis
    by cases (use assms in \<open>auto simp: push_back_shut push_back_room push_back_alias\<close>)
qed

lemma pop_listed:
  assumes "pop_front E (q, d) = (Inr x, (q', d'))"
  shows "(d' = d \<and> persistedFileNames q' = persistedFileNames q) \<or>
    (\<exists>p. persistedFileNames q = p # persistedFileNames q' \<and> d' = disk_delete p d)"
proof -
  obtain v q1 d1 where f: "refill_first E (q, d) = (v, (q1, d1))" by (metis prod.exhaust)
  then have v: "v = Inr ()" "d' = d1" "persistedFileNames q' = persistedFileNames q1"
    using assms by (cases v; auto simp: pop_front_def split: if_splits list.splits)+
  show ?thesis
    using f v
    by (cases "persistedFileNames q")
      (auto simp: refill_first_def loadFrontFile_def loadFromFile_def new_page_def and_then_def Let_def
        split: if_splits option.splits sum.splits)
qed

text \<open>
  The state of a queue after it was \<open>s0\<close>, when no file on the disk was its own: the disk differs
  in the listed files only.
\<close>

definition listed_only :: "'a qenv \<Rightarrow> 'a qstate \<Rightarrow> 'a qstate \<Rightarrow> bool" where
  "listed_only E s0 s \<longleftrightarrow> same_home (fst s0) (fst s) \<and> only_own E (fst s) (snd s0) (snd s) \<and>
     (\<forall>p. own_file E (fst s) p \<longrightarrow>
        (case node_at (snd s) p of None \<Rightarrow> True | Some n \<Rightarrow> p \<in> set (persistedFileNames (fst s)) \<and> n \<noteq> Directory))"

lemma listed_only_push:
  assumes "listed_only E s0 (q, d)" "push_back E now x (q, d) = (Inr u, (q', d'))" "lists_own E q"
  shows "listed_only E s0 (q', d')"
  using push_listed [OF assms(2)] push_back_frame [OF assms(2,3)] assms(1) own_file_home [of q q' E]
  by (auto simp: listed_only_def only_own_def same_home_def split: option.splits if_splits)

lemma listed_only_pop:
  assumes "listed_only E s0 (q, d)" "pop_front E (q, d) = (Inr x, (q', d'))" "lists_own E q"
  shows "listed_only E s0 (q', d')"
  using pop_listed [OF assms(2)] pop_front_frame [OF assms(2,3)] assms(1) own_file_home [of q q' E]
  by (auto simp: listed_only_def only_own_def same_home_def split: option.splits if_splits)

section \<open>Pushing, popping, and the disk afterwards\<close>

lemma push_returns:
  assumes "queue_ok E (Suc n) now (q, d)" "storable E x"
    and "disk_can_write d (page_path E q (seq_text now (next_count now q)))"
  shows "fst (push_back E now x (q, d)) = Inr ()"
proof -
  have a: "pq_inv E (q, d)" "ready E (Suc n) now (q, d)" "\<not> shut_down q"
    using assms(1) by (simp_all add: queue_ok_def)
  have env: "queue_env E" using assms(1) by (simp add: queue_ok_def)
  consider "length (last_items q) < maxItemsPerPage q"
    | "maxItemsPerPage q \<le> length (last_items q)" "firstPage q = lastPage q"
    | "maxItemsPerPage q \<le> length (last_items q)" "firstPage q \<noteq> lastPage q"
    by linarith
  then show ?thesis
  proof cases
    case 1
    with a(3) show ?thesis by (simp add: push_back_room)
  next
    case 2
    with a(3) show ?thesis by (simp add: push_back_alias)
  next
    case 3
    show ?thesis
      by (rule queue_env.push_back_spill_written [OF env a(1,2,3) assms(2) 3 assms(3)]) simp
  qed
qed

lemma push_times_ok:
  assumes "queue_ok E (n + k) now s" "storable E x" "listed_only E s0 s" "\<forall>p. wr_ok (snd s0) p"
  obtains s' where "push_times E now x k s = (Inr (), s')" "contents E s' = contents E s @ replicate k x"
    "queue_ok E n now s'" "listed_only E s0 s'"
proof -
  have "\<exists>s'. push_times E now x k s = (Inr (), s') \<and> contents E s' = contents E s @ replicate k x \<and>
      queue_ok E n now s' \<and> listed_only E s0 s'"
    using assms(1,3)
  proof (induction k arbitrary: s)
    case (Suc k)
    obtain q d where s: "s = (q, d)" by fastforce
    have ok: "queue_ok E (Suc (n + k)) now (q, d)" using Suc.prems(1) by (simp add: s)
    let ?fn = "page_path E q (seq_text now (next_count now q))"
    have "own_file E q ?fn" by simp
    then have "disk_can_write d ?fn"
      using Suc.prems(2) assms(4)
      by (auto simp: s listed_only_def only_own_def disk_can_write_def dest!: spec [of _ ?fn])
    from push_returns [OF ok assms(2) this] obtain q1 d1 where
      p: "push_back E now x (q, d) = (Inr (), (q1, d1))" by (cases "push_back E now x (q, d)") auto
    have "lists_own E q" using ok ready_lists_own by (auto simp: queue_ok_def)
    from listed_only_push [OF _ p this] Suc.prems(2) have "listed_only E s0 (q1, d1)" by (simp add: s)
    moreover have "queue_ok E (n + k) now (q1, d1)" "contents E (q1, d1) = contents E (q, d) @ [x]"
      using pqueue.push_ok [OF ok assms(2)] pqueue.push_items [OF ok assms(2)] p by simp_all
    ultimately show ?case using Suc.IH [of "(q1, d1)"] p by (auto simp: s)
  qed auto
  with that show thesis by blast
qed

lemma pop_times_ok:
  assumes "queue_ok E n now s" "listed_only E s0 s" "k \<le> length (contents E s)"
  obtains s' where "pop_times E k s = (Inr (map Some (take k (contents E s))), s')"
    "contents E s' = drop k (contents E s)" "queue_ok E n now s'" "listed_only E s0 s'"
proof -
  have "\<exists>s'. pop_times E k s = (Inr (map Some (take k (contents E s))), s') \<and>
      contents E s' = drop k (contents E s) \<and> queue_ok E n now s' \<and> listed_only E s0 s'"
    using assms
  proof (induction k arbitrary: s)
    case (Suc k)
    obtain q d where s: "s = (q, d)" by fastforce
    obtain x xs where c: "contents E s = x # xs" using Suc.prems(3) by (cases "contents E s") auto
    obtain q1 d1 where p: "pop_front E (q, d) = (Inr (Some x), (q1, d1))"
      using pqueue.pop_value [OF Suc.prems(1)] c s by (cases "pop_front E (q, d)") auto
    have "lists_own E q" using Suc.prems(1) ready_lists_own by (auto simp: queue_ok_def s)
    from listed_only_pop [OF _ p this] Suc.prems(2) have "listed_only E s0 (q1, d1)" by (simp add: s)
    moreover have "queue_ok E n now (q1, d1)" "contents E (q1, d1) = xs"
      using pqueue.pop_ok [OF Suc.prems(1)] pqueue.pop_items [OF Suc.prems(1)] p s c by simp_all
    ultimately show ?case using Suc.IH [of "(q1, d1)"] Suc.prems(3) p c by (auto simp: s)
  qed auto
  with that show thesis by blast
qed

section \<open>A directory without files of the queue\<close>

definition unused_home :: "'a qenv \<Rightarrow> disk \<Rightarrow> bool" where
  "unused_home E d \<longleftrightarrow> node_at d ''/tmp/'' = Some Directory \<and> disk_accessible d \<and> (\<forall>p. wr_ok d p) \<and>
     (\<forall>p. own_file E (blank_queue E ''test_queue'' ''/tmp/'' 10) p \<longrightarrow> node_at d p = None) \<and>
     orphans E ''/tmp/'' ''test_queue'' d = [] \<and>
     \<not> disk_is_regular d (path_append E ''/tmp/'' ''test_queue_STATE'')"

text \<open>Disks that agree in every node are as good as equal.\<close>

definition same_nodes :: "disk \<Rightarrow> disk \<Rightarrow> bool" where
  "same_nodes d d' \<longleftrightarrow> node_at d' = node_at d \<and> rd_ok d' = rd_ok d \<and> wr_ok d' = wr_ok d \<and> rm_ok d' = rm_ok d"

lemma same_nodes_regular: "same_nodes d d' \<Longrightarrow> disk_is_regular d' = disk_is_regular d"
  by (simp add: same_nodes_def disk_is_regular_def fun_eq_iff)

lemma same_nodes_orphans:
  assumes "same_nodes d d'" "orphans E wdir name d = []"
  shows "orphans E wdir name d' = []"
proof -
  have keys: "p \<in> set (map fst (disk.entries e)) \<longleftrightarrow> node_at e p \<noteq> None" for p e
    by (simp add: node_at_def map_of_eq_None_iff)
  have "p \<notin> set (orphans E wdir name d')" for p
  proof
    assume "p \<in> set (orphans E wdir name d')"
    then have "p \<in> set (orphans E wdir name d)"
      using keys [of p d] keys [of p d'] assms(1) same_nodes_regular [OF assms(1)]
      by (auto simp: orphans_def dir_entries_def same_nodes_def)
    then show False using assms(2) by simp
  qed
  then show ?thesis by (metis list.set_intros(1) neq_Nil_conv)
qed

lemma unused_home_same: "unused_home E d \<Longrightarrow> same_nodes d d' \<Longrightarrow> unused_home E d'"
  using same_nodes_regular [of d d'] same_nodes_orphans [of d d' E]
  by (simp add: unused_home_def disk_accessible_def) (simp add: same_nodes_def)

lemma scenario_passes:
  assumes env: "queue_env E" and home: "unused_home E d" and x: "storable E x"
    and now: "0 < now" and k: "k < 10000"
  obtains d' where "scenario E x now k d = (Inr (True, replicate k (Some x)), d')" "same_nodes d d'"
proof -
  let ?q = "fresh_queue E ''test_queue'' ''/tmp/'' 10"
  have opens: "open_queue E ''test_queue'' ''/tmp/'' 10 d = (Inr (), (?q, d))"
    using home by (intro open_fresh) (simp_all add: unused_home_def)
  have name: "file_name_ok ''test_queue''" by (simp add: file_name_ok_def)
  have acc: "disk_accessible d" "\<forall>p. wr_ok d p" using home by (simp_all add: unused_home_def)
  have ok: "queue_ok E (0 + k) now (?q, d)" "contents E (?q, d) = []"
    using fresh_queue_ok [OF env name _ acc(1) now, of 10 k] k by simp_all
  have own: "own_file E ?q = own_file E (blank_queue E ''test_queue'' ''/tmp/'' 10)"
    by (simp add: own_file_def page_path_def fresh_queue_def blank_queue_def set_page_def fun_eq_iff)
  then have l: "listed_only E (?q, d) (?q, d)" using home by (simp add: listed_only_def unused_home_def same_home_def)
  obtain s1 where s1: "push_times E now x k (?q, d) = (Inr (), s1)" "contents E s1 = replicate k x"
    "queue_ok E 0 now s1" "listed_only E (?q, d) s1"
    by (rule push_times_ok [OF ok(1) x l]) (simp_all add: ok(2) acc(2))
  have size: "pq_size (fst s1) = k"
    using s1(2,3) pq_size_contents [of E "fst s1" "snd s1"] by (simp add: queue_ok_def)
  obtain q2 d2 where s2: "pop_times E k s1 = (Inr (replicate k (Some x)), (q2, d2))" "contents E (q2, d2) = []"
    "queue_ok E 0 now (q2, d2)" "listed_only E (?q, d) (q2, d2)"
    by (rule pop_times_ok [OF s1(3,4), of k]) (auto simp: s1(2))
  have inv: "pq_inv E (q2, d2)" using s2(3) by (simp add: queue_ok_def)
  have names: "persistedFileNames q2 = []" using s2(2) contents_Nil_iff [OF inv] by simp
  have "scenario E x now k d = (Inr (True, replicate k (Some x)), d2)"
    using destroy_empty [OF inv s2(2)] by (simp add: scenario_def opens s1(1) size s2(1))
  moreover have "same_nodes d d2"
    unfolding same_nodes_def
  proof (intro conjI ext)
    fix p
    have own2: "own_file E q2 = own_file E (blank_queue E ''test_queue'' ''/tmp/'' 10)"
      using s2(4) own own_file_home [of ?q q2 E] by (simp add: listed_only_def)
    show "node_at d2 p = node_at d p"
    proof (cases "own_file E q2 p")
      case True
      then have "node_at d2 p = None"
        using s2(4) by (auto simp: listed_only_def names split: option.splits)
      moreover have "node_at d p = None" using True home by (simp add: own2 unused_home_def)
      ultimately show ?thesis by simp
    next
      case False
      then show ?thesis using s2(4) by (simp add: listed_only_def only_own_def)
    qed
  qed (use s2(4) in \<open>simp_all add: listed_only_def only_own_def\<close>)
  ultimately show thesis using that by blast
qed

section \<open>Properties\<close>

text \<open>
  C25. The test passes: in a directory that holds no file of the queue, whatever numbers of strings
  (below ten thousand) the scenarios push, one after the other with a destructor and a constructor
  between them, every size is the number pushed and every pop returns the string pushed, from as
  many pages on disk as it takes; afterwards every file is as it was.
\<close>

theorem test_scenarios_pass:
  assumes "queue_env E" and "base64_iterators B" and "unused_home (string_env B E) d" and "x \<noteq> []"
    and "\<forall>e\<in>set ks. 0 < fst e \<and> snd e < 10000"
  shows "fst (scenarios (string_env B E) x ks d) = map (\<lambda>e. Inr (True, replicate (snd e) (Some x))) ks \<and>
    node_at (snd (scenarios (string_env B E) x ks d)) = node_at d"
  using assms(3,5)
proof (induction ks arbitrary: d)
  case (Cons e ks)
  obtain now k where e: "e = (now, k)" by fastforce
  obtain d1 where d1: "scenario (string_env B E) x now k d = (Inr (True, replicate k (Some x)), d1)" "same_nodes d d1"
    by (rule scenario_passes [OF string_env_queue_env [OF assms(1)] Cons.prems(1) string_env_storable [OF assms(2,4)], of now k])
      (use Cons.prems(2) e in simp_all)
  from Cons.IH [OF unused_home_same [OF Cons.prems(1) d1(2)]] Cons.prems(2) d1
  show ?case
    by (cases "scenarios (string_env B E) x ks d1") (simp add: e same_nodes_def)
qed simp

definition tmp_disk :: disk where
  "tmp_disk = demo_disk\<lparr>entries := [(''/tmp/'', Directory), (''/tmp//other'', Regular ''x'')]\<rparr>"

lemma tmp_disk_unused: "unused_home (string_env rfc_iters demo_env) tmp_disk"
proof -
  have "orphans (string_env rfc_iters demo_env) ''/tmp/'' ''test_queue'' tmp_disk = []"
    "\<not> disk_is_regular tmp_disk (path_append (string_env rfc_iters demo_env) ''/tmp/'' ''test_queue_STATE'')"
    "node_at tmp_disk ''/tmp/'' = Some Directory" by code_simp+
  moreover have "disk_accessible tmp_disk" "\<forall>p. wr_ok tmp_disk p"
    by (simp_all add: tmp_disk_def demo_disk_def disk_accessible_def)
  moreover have "node_at tmp_disk (page_path (string_env rfc_iters demo_env)
      (blank_queue (string_env rfc_iters demo_env) ''test_queue'' ''/tmp/'' 10) seq) = None" for seq
    by (simp add: page_path_def blank_queue_def demo_env_def posix_env_def node_at_def tmp_disk_def)
  ultimately show ?thesis by (auto simp: unused_home_def own_file_def)
qed

lemma test_scenarios_pass_witness:
  "fst (scenarios (string_env rfc_iters demo_env) ''test string 1'' [(5, 1), (5, 10), (6, 50)] tmp_disk) =
     [Inr (True, [Some ''test string 1'']), Inr (True, replicate 10 (Some ''test string 1'')),
      Inr (True, replicate 50 (Some ''test string 1''))]"
  using test_scenarios_pass [OF demo_queue_env rfc.base64_iterators_axioms tmp_disk_unused,
      of "''test string 1''" "[(5, 1), (5, 10), (6, 50)]"]
  by simp

end
