(* ===== verification/Log_Threads.thy ===== *)
theory Log_Threads
  imports Log_Manip
begin

text \<open>
  Several threads that log, each with \<open>LogStream\<close> objects of its own (kisscpp/logstream.cpp). The
  static members are shared. \<open>locked_write\<close> takes the mutex for the whole time in which it opens the
  file, puts its line into the pool and writes the pool; but \<open>do_write\<close> sets \<open>doFlush\<close> and compares
  the levels before that, without the mutex. A message is therefore two steps, and other
  threads' steps come between. (When no path is set, the line is put into the pool after the mutex
  has been released; the model keeps that access in the second step.)
\<close>

section \<open>The steps\<close>

text \<open>
  \<open>waiting t\<close> is the line with which thread \<open>t\<close> waits for the mutex, \<open>begun\<close> and \<open>handed\<close> list the
  lines for which \<open>locked_write\<close> was called, and those it has done with.
\<close>

record log_threads =
  log_shared :: log_sys
  waiting :: "nat \<Rightarrow> string option"
  begun :: "(nat \<times> string) list"
  handed :: "(nat \<times> string) list"

definition waits_with :: "nat \<Rightarrow> string \<Rightarrow> log_threads \<Rightarrow> log_threads" where
  "waits_with t l s = s\<lparr>waiting := (waiting s)(t := Some l), begun := begun s @ [(t, l)]\<rparr>"

text \<open>\<open>do_write\<close> up to the mutex, on the stream object \<open>st\<close>.\<close>

definition log_enter :: "nat \<Rightarrow> bool \<Rightarrow> string \<Rightarrow> log_stream \<Rightarrow> log_threads \<Rightarrow> log_threads" where
  "log_enter t b stamp st s =
     (let sys = (log_shared s)\<lparr>doFlush := b\<rparr>; s1 = s\<lparr>log_shared := sys\<rparr>
      in if passes (st, sys) then waits_with t (stamp @ '' ['' @ getSource (st, sys) @ ''] : '' @ mBuf st) s1
         else s1)"

text \<open>\<open>start_write\<close> and \<open>end_write\<close> up to the mutex: \<open>sign\<close> is \<open>+\<close> or \<open>-\<close>.\<close>

definition trace_enter :: "nat \<Rightarrow> char \<Rightarrow> string \<Rightarrow> log_stream \<Rightarrow> log_threads \<Rightarrow> log_threads" where
  "trace_enter t sign stamp st s =
     (let src = getSource (st, log_shared s)
      in if trace_on (log_shared s)
         then waits_with t (stamp @ '' ['' @ src @ ''] '' @ [sign] @ '' ['' @ src @ '']'') s else s)"

text \<open>The part under the mutex.\<close>

definition log_hand :: "bool \<Rightarrow> nat \<Rightarrow> log_threads \<Rightarrow> log_threads" where
  "log_hand openable t s =
     (case waiting s t of
        None \<Rightarrow> s
      | Some l \<Rightarrow> s\<lparr>log_shared := pool_line openable l (log_shared s), waiting := (waiting s)(t := None),
                    handed := handed s @ [(t, l)]\<rparr>)"

definition log_idle :: "log_sys \<Rightarrow> log_threads" where
  "log_idle sys = \<lparr>log_shared = sys, waiting = (\<lambda>t. None), begun = [], handed = []\<rparr>"

inductive lstep :: "log_threads \<Rightarrow> log_threads \<Rightarrow> bool" where
  message: "waiting s t = None \<Longrightarrow> lstep s (log_enter t b stamp st s)"
| trace: "waiting s t = None \<Longrightarrow> lstep s (trace_enter t sign stamp st s)"
| hand: "waiting s t \<noteq> None \<Longrightarrow> lstep s (log_hand openable t s)"
| reopen: "lstep s (s\<lparr>log_shared := set2ReOpen (log_shared s)\<rparr>)"

section \<open>A thread alone\<close>

text \<open>The two steps of a message with nothing between them are \<open>do_write\<close>.\<close>

lemma message_undisturbed:
  assumes "waiting s t = None"
  shows "log_shared (log_hand openable t (log_enter t b stamp st s)) = snd (do_write stamp openable b (st, log_shared s))"
  using assms
  by (simp add: log_enter_def log_hand_def waits_with_def do_write_def write_line_def locked_write_def passes_def Let_def)

section \<open>No line is lost between threads\<close>

definition own_lines :: "nat \<Rightarrow> (nat \<times> string) list \<Rightarrow> string list" where
  "own_lines t ls = map snd (filter (\<lambda>e. fst e = t) ls)"

lemma own_lines_simps [simp]:
  "own_lines t [] = []" "own_lines t (ls @ ks) = own_lines t ls @ own_lines t ks"
  "own_lines t [(u, l)] = (if u = t then [l] else [])"
  by (simp_all add: own_lines_def)

definition waiting_lines :: "nat \<Rightarrow> log_threads \<Rightarrow> string list" where
  "waiting_lines t s = (case waiting s t of None \<Rightarrow> [] | Some l \<Rightarrow> [l])"

definition lines_inv :: "log_sys \<Rightarrow> log_threads \<Rightarrow> bool" where
  "lines_inv sys s \<longleftrightarrow>
     all_lines (log_shared s) = all_lines sys @ map snd (handed s) \<and>
     (\<forall>t. own_lines t (begun s) = own_lines t (handed s) @ waiting_lines t s)"

lemma waits_with_inv:
  "lines_inv sys s \<Longrightarrow> waiting s t = None \<Longrightarrow> lines_inv sys (waits_with t l s)"
  by (simp add: lines_inv_def waits_with_def waiting_lines_def)

lemma flush_flag_inv: "lines_inv sys s \<Longrightarrow> lines_inv sys (s\<lparr>log_shared := (log_shared s)\<lparr>doFlush := b\<rparr>\<rparr>)"
  by (simp add: lines_inv_def waiting_lines_def)

lemma lstep_inv:
  assumes "lstep s s'" "lines_inv sys s"
  shows "lines_inv sys s'"
  using assms
proof (induction rule: lstep.induct)
  case (message s t b stamp st)
  have "waiting (s\<lparr>log_shared := (log_shared s)\<lparr>doFlush := b\<rparr>\<rparr>) t = None" using message by simp
  from waits_with_inv [OF flush_flag_inv [OF message(2)] this] flush_flag_inv [OF message(2)]
  show ?case by (simp add: log_enter_def Let_def)
next
  case (trace s t sign stamp st)
  then show ?case using waits_with_inv by (simp add: trace_enter_def Let_def)
next
  case (hand s t openable)
  then obtain l where "waiting s t = Some l" by blast
  with hand show ?case
    by (auto simp: log_hand_def lines_inv_def waiting_lines_def pool_line_lines)
next
  case (reopen s)
  then show ?case by (simp add: lines_inv_def waiting_lines_def set2ReOpen_def)
qed

lemma lstep_reachable_inv: "lstep\<^sup>*\<^sup>* (log_idle sys) s \<Longrightarrow> lines_inv sys s"
proof (induction rule: rtranclp_induct)
  case base
  show ?case by (simp add: lines_inv_def log_idle_def waiting_lines_def)
qed (rule lstep_inv)

section \<open>Properties\<close>


text \<open>
  C37. A flush can be overtaken: a thread flushes its line, and before it gets the mutex another one begins
  an ordinary message, which sets \<open>doFlush\<close> back. Both calls then return although the flushed line
  is still in memory, in a file that is open and with a pool far from full; a flush with no other
  thread in between leaves nothing there.
\<close>

theorem flush_overtaken:
  fixes t u :: nat
  assumes "t \<noteq> u" and "passes (a, sys)" and "passes (b, sys)" and "outFile sys = Some path"
    and "length (stringPool sys) + 2 \<le> unat (maxBufferSize sys)"
  shows "(\<exists>s. lstep\<^sup>*\<^sup>* (log_idle sys) s \<and> waiting s = (\<lambda>t. None) \<and>
      stamp @ '' ['' @ getSource (a, sys) @ ''] : '' @ mBuf a \<in> set (stringPool (log_shared s)) \<and>
      written (log_shared s) = written sys \<and> outFile (log_shared s) = Some path) \<and>
    stringPool (snd (do_write stamp True True (a, sys))) = []"
proof -
  let ?la = "stamp @ '' ['' @ getSource (a, sys) @ ''] : '' @ mBuf a"
  let ?lb = "'''' @ '' ['' @ getSource (b, sys) @ ''] : '' @ mBuf b"
  define s1 where "s1 = log_enter t True stamp a (log_idle sys)"
  define s2 where "s2 = log_enter u False [] b s1"
  define s3 where "s3 = log_hand True t s2"
  define s4 where "s4 = log_hand True u s3"
  have src: "getSource (c, sys\<lparr>doFlush := f\<rparr>) = getSource (c, sys)" for c f by (simp add: getSource_def)
  have pass: "passes (c, sys\<lparr>doFlush := f\<rparr>) = passes (c, sys)" for c f by (simp add: passes_def)
  have 1: "waiting s1 = (\<lambda>t. None)(t := Some ?la)" "log_shared s1 = sys\<lparr>doFlush := True\<rparr>"
    using assms(2) by (simp_all add: s1_def log_enter_def log_idle_def waits_with_def src pass Let_def)
  have 2: "waiting s2 = (\<lambda>t. None)(t := Some ?la, u := Some ?lb)" "log_shared s2 = sys\<lparr>doFlush := False\<rparr>"
    using assms(3) by (simp_all add: s2_def log_enter_def waits_with_def src pass 1 Let_def)
  have pool: "pool_line True l x = x\<lparr>stringPool := stringPool x @ [l]\<rparr>"
    if "outFile x = Some path" "length (stringPool x) < unat (maxBufferSize x)" "\<not> doFlush x" for l x
    using that by (simp add: pool_line_def Let_def)
  have 3: "waiting s3 = (\<lambda>t. None)(u := Some ?lb)"
    "log_shared s3 = sys\<lparr>doFlush := False, stringPool := stringPool sys @ [?la]\<rparr>"
    using assms(1,4,5) by (auto simp: s3_def log_hand_def 2 pool)
  have 4: "waiting s4 = (\<lambda>t. None)"
    "log_shared s4 = sys\<lparr>doFlush := False, stringPool := stringPool sys @ [?la, ?lb]\<rparr>"
    using assms(4,5) by (auto simp: s4_def log_hand_def 3 pool)
  have "lstep (log_idle sys) s1" unfolding s1_def by (rule lstep.message) (simp add: log_idle_def)
  then have "lstep\<^sup>*\<^sup>* (log_idle sys) s1" by (rule r_into_rtranclp)
  moreover have "lstep s1 s2" unfolding s2_def by (rule lstep.message) (use assms(1) in \<open>simp add: 1\<close>)
  ultimately have "lstep\<^sup>*\<^sup>* (log_idle sys) s2" by (rule rtranclp.rtrancl_into_rtrancl)
  moreover have "lstep s2 s3" unfolding s3_def by (rule lstep.hand) (use assms(1) in \<open>simp add: 2\<close>)
  ultimately have "lstep\<^sup>*\<^sup>* (log_idle sys) s3" by (rule rtranclp.rtrancl_into_rtrancl)
  moreover have "lstep s3 s4" unfolding s4_def by (rule lstep.hand) (simp add: 3)
  ultimately have "lstep\<^sup>*\<^sup>* (log_idle sys) s4" by (rule rtranclp.rtrancl_into_rtrancl)
  moreover have "snd (do_write stamp True True (a, sys)) = pool_line True ?la (sys\<lparr>doFlush := True\<rparr>)"
    using message_undisturbed [of "log_idle sys" t True True stamp a] assms(2)
    by (simp add: log_enter_def log_hand_def waits_with_def log_idle_def src pass Let_def)
  then have "stringPool (snd (do_write stamp True True (a, sys))) = []"
    using assms(4) by (simp add: pool_line_def write_pool_def Let_def)
  ultimately show ?thesis using 4 assms(4) by auto
qed

section \<open>Witnesses\<close>

definition other_log :: log_stream where
  "other_log = fst (log_put ''bye'' demo_log)"


lemma flush_overtaken_witness:
  "\<exists>s. lstep\<^sup>*\<^sup>* (log_idle ((snd demo_log)\<lparr>outFile := Some ''/tmp/a.log''\<rparr>)) s \<and> waiting s = (\<lambda>t. None) \<and>
     ''T [main] : started'' \<in> set (stringPool (log_shared s))"
proof -
  let ?sys = "(snd demo_log)\<lparr>outFile := Some ''/tmp/a.log''\<rparr>"
  have h: "passes (fst demo_log, ?sys)" "passes (other_log, ?sys)" "outFile ?sys = Some ''/tmp/a.log''"
    "length (stringPool ?sys) + 2 \<le> unat (maxBufferSize ?sys)"
    "getSource (fst demo_log, ?sys) = ''main''" "mBuf (fst demo_log) = ''started''"
    by code_simp+
  from flush_overtaken [of 1 2, OF _ h(1-4), of "''T''"] show ?thesis by (auto simp: h(5,6))
qed

end
