(* ===== verification/Spec2Isabelle.thy ===== *)
theory Spec2Isabelle
  imports Kcsrt_Log Configuration_Theorems Queue_Theorems Stat_Queues Delayed_Threads Priority_Monitor
    Queue_Test Log_Threads
begin

text \<open>
  A verification development for kisscpp, a C++ library for server processes that exchange JSON
  requests over TCP and for queues that persist themselves on disk (sources under src/kisscpp).

  \<^bold>\<open>The program.\<close> A \<open>Server\<close> (server.cpp) takes a lock file, loads the \<open>Config\<close> (configuration.cpp),
  sets up the log (logstream.cpp), the statistics (statskeeper.cpp) and the standard handlers
  (standard_handlers.cpp), and accepts connections on the services of an \<open>IoServicePool\<close>. A
  \<open>Connection\<close> (connection.cpp) reads one line, asks the white lists of the configuration and lets
  the \<open>RequestRouter\<close> (request_router.hpp) run the handler of the request's command. The other side
  is \<open>client\<close> (client.cpp), whose constructor is a whole call. \<open>PersistedQueue\<close> (persisted_queue.tpp)
  keeps its first and last page in memory and the pages between as files; three classes build on it:
  \<open>ThreadsafePersistedQueue\<close>, \<open>ThreadsafePersistedDelayedQueue\<close>, \<open>ThreadsafePersistedPriorityQueue\<close>.

  \<^bold>\<open>The theories,\<close> in the order they build on each other:
  \<^item> Prelude (results of calls that may throw, decimal rendering, list facts), Std_Map (\<open>std::map\<close> as
    sorted association lists, locale \<open>ordered_map\<close>), Streams (\<open>getline\<close>), Disk (files as an
    association list with permissions).
  \<^item> Base64_Coder: \<open>Base64BiCoder\<close>, \<open>PtreeBase64Bicoder\<close> over the locale \<open>base64_iterators\<close>; Base64_Rfc:
    its interpretation, equality with RFC 4648, the round trip of records.
  \<^item> Persisted_Queue: the class, one definition per member function, on a store of pages and the disk;
    Queue_Contract (the invariant and the abstraction to a list), Queue_Names, Queue_Ops,
    Queue_Recovery, Queue_Frame, Queue_Orphans, Queue_Fresh (the lemmas per group of operations),
    Fifo_Queue (runs of operations refine a list), Queue_Demo, Queue_Theorems (the properties),
    Queue_Test (the repository's tests, tests/src).
  \<^item> Monitor: threads, their calls and a mutex as a step relation, for any object whose members take
    the mutex or do not; the locale \<open>shared_container\<close> is what a container promises such threads.
    Safe_Queue: the thread safe queue as one. Delayed_Queue, Priority_Queue,
    Special_Queue_Theorems: the other two classes; Delayed_Threads, Priority_Monitor: their
    interpretations of the locale; Priority_Threads: taking back what was popped, by several threads.
  \<^item> Error_State, Stats_Keeper, Log_Stream and Log_Manip: the singletons. Stats_Threads: the gathering
    thread beside the threads that count. Log_Threads: threads that write to the log while another
    changes it. Stat_Queues: \<open>StatAbleQueue\<close>, the queues whose sizes are reported (locale
    \<open>stat_able_queue\<close>).
  \<^item> Property_Tree: what is used of \<open>boost::property_tree\<close>, as a record of operations and the locale
    \<open>property_tree\<close>, with an interpretation that evaluates; Ptree_Util: \<open>ptreeMerge\<close>, \<open>ptreeAddOrPut\<close>.
  \<^item> Request_Router, Standard_Handlers (every handler a record with its \<open>run\<close>), Configuration and
    Configuration_Theorems, Connection, Client, Io_Service_Pool, Server and Server_Theorems.
  \<^item> Exchange and this theory: a client and a server together. Server_Run: a server over a run of
    requests, periods and signals; the locales \<open>request_service\<close> and \<open>answering_service\<close> are the
    contract of the handlers, which every registered handler is shown to keep.
  \<^item> Echo_Server: the handler and the constructor of examples/kc_echo; Kcsrt: both examples as whole
    programs, and examples/kcsrt with its sending thread; Kcsrt_Log: what that thread writes to the log.

  \<^bold>\<open>How the code is modelled.\<close> A class is a record with the class's members, a member function a
  definition with the function's name that returns an exception or a value and the state it leaves,
  in both cases. What the code asks of the outside is a record of functions: \<open>qenv\<close> (coder, file
  names, clock), \<open>pt_ops\<close>, \<open>json_io\<close>, \<open>cfg_env\<close>, \<open>cl_env\<close>, \<open>sv_env\<close>, \<open>henv\<close>. Behaviour that C++ leaves
  undefined is an error of its own. Numbers keep their width where they can wrap (\<open>u32\<close>).

  \<^bold>\<open>What is shown.\<close> The persisted queue is a first-in first-out list, over restarts with and without
  a shutdown, and between threads; the delayed queue releases on time, the priority queue in order of
  level, and neither loses or invents an object between threads; counters, histories and log lines,
  those of several threads too, are neither lost nor invented. A connection routes exactly
  the requests the white lists admit and answers them; a client call ends after at most six events
  with the verdict the answer asks for; the lock file excludes; a started server accepts for ever and
  has its four handlers; a client and a server together do what the handler decides; a run of requests,
  periods and signals keeps the state of the handlers well formed and answers with a status. The
  example programs come to their end, remove their lock file and keep their books. Where the code
  does not keep what it promises, a theorem says so: shutdown twice, popping an exhausted priority
  queue, errors with upper-case identifiers, histories read too early, a timeout that comes late, two
  processes that start together, a failed start, nested settings of an instance file, counts taken
  while a period ends, two threads that take the same object back, a flush of the log that another
  thread overtakes, an address the sending thread cannot resolve.

  \<^bold>\<open>Bounds and fuel.\<close> \<open>ptreeMerge\<close> carries fuel: one more than the depth of the second tree is enough
  unless a child at the top has an empty name and children (\<open>merge_ends\<close>), and then none is
  (\<open>merge_of_array_never_ends\<close>). Page names are ordered while fewer than ten thousand pages are
  written in a second (\<open>page_names_ordered\<close>, \<open>page_names_overflow\<close>). \<open>loadStateFile\<close> does not end
  when its file cannot be opened; the model gives it an error of its own.

  \<^bold>\<open>Not modelled.\<close> threadsafe_queue.hpp does not compile. What Boost.Asio does inside a service, the
  interleaving of handlers of different services; the single memory accesses of a body that runs
  without the mutex (its effects come in one step, so the theorems on the delayed and the priority
  queue speak of runs in which no unlocked \<open>shutdown\<close> or \<open>clear\<close> has completed); the insertion of a key
  into a map of the statistics while the gathering thread walks over it; the trace lines written by
  local log objects, those of the sending thread of kcsrt apart; the messages on \<open>std::cerr\<close>; the
  arithmetic of \<open>double\<close> (a group instead); the lifetime of the buffer that \<open>handle_connect\<close> hands to
  \<open>async_write\<close>; the test framework the tests use.
\<close>

section \<open>A request and its answer\<close>

text \<open>
  C6. A whole exchange between a client and a server, when nothing breaks on the way: the client names
  itself and sends its request, the server answers, the client reads. If the server's white lists
  admit the client, the server's state changes exactly as routing the request does; the caller
  gets the handler's response when its status is success and otherwise the exception that the
  response asks for; a handler that throws is a permanent failure for the caller. If they do not
  admit it, the server's state stays and the caller gets a permanent failure.
\<close>

theorem exchange:
  assumes ops: "property_tree ops" and json: "json_laws (json N)" and statuses: "reads_statuses N"
    and client: "start_client ops N ccfg request response = (Inr (), c0)"
      "pt_get ops request ''kcm-client.id'' = None" "pt_get ops request ''kcm-client.instance'' = None"
      "handle_connect N None c0 = (Inr (), c1)" "outgoing c1 = Some msg"
      "handle_write None c1 = (Inr (), c)"
    and peer: "remote_ip p = Some ip" "arriving p = Some msg"
    and server: "start ops (json N) scfg router p (new_connection ops, w) = (Inr (), (k, w'))"
      "sent k = Some reply"
  shows "if isAllowedIp scfg ip \<and> isAllowedClient scfg (application_id ccfg) (application_instance ccfg)
    then (case route_request ops router (cl_request c0) (pt_new ops, w) of
        (Inr u, (r, w1)) \<Rightarrow> w' = w1 \<and> fst (handle_read ops N None reply c) = verdict ops N r \<and>
          cl_response (snd (handle_read ops N None reply c)) = r
      | (Inl e, (r, w1)) \<Rightarrow> w' = w1 \<and>
          (\<exists>m. fst (handle_read ops N None reply c) = Inl (PerminantCommsFailure m)))
    else w' = w \<and> (\<exists>m. fst (handle_read ops N None reply c) = Inl (PerminantCommsFailure m))"
proof -
  note adm = exchange_admitted [OF ops json client(1-5) peer, of scfg]
  have verd: "fst (handle_read ops N None reply c) = verdict ops N r \<and>
      cl_response (snd (handle_read ops N None reply c)) = r" if "write_json (json N) r = Some reply" for r
    by (rule handle_read_verdict [OF json_line [OF json that]])
  have fail: "fst (handle_read ops N None reply c) = Inl (PerminantCommsFailure m)"
    if "write_json (json N) (put_failure ops st m r) = Some reply" "st = RQST_CLIENT_DENIED \<or> st = RQST_UNKNOWN"
    for st m r
    using verd [OF that(1)] failure_verdict [OF ops statuses, of st m r] that(2) by (auto simp: retryable_def)
  show ?thesis
    using server
  proof (cases rule: reply_tree)
    case (refused m)
    with adm fail [OF refused(3)] show ?thesis by (auto split: if_splits)
  next
    case (answered t r)
    with adm verd [OF answered(3)] show ?thesis by (auto split: if_splits)
  next
    case (failed t e r m)
    with adm fail [OF failed(3)] show ?thesis by (auto split: if_splits)
  qed
qed

text \<open>A client of the echo application, on a server that admits everybody.\<close>

definition echo_request :: ptree where
  "echo_request = node [(''kcm-cmd'', leaf ''echo''), (''kcm-hst'', leaf ''h''), (''kcm-prt'', leaf ''9''),
     (''message'', leaf ''hello'')]"

definition open_config :: "ptree config" where
  "open_config = (fresh_config ptree_ops ''kc_echo'' ''0'')\<lparr>allow_all_ip_addrs := True, allow_all_applications := True\<rparr>"

definition echo_lines :: "(ptree \<times> string) list" where
  "echo_lines =
     [(node [(''kcm-cmd'', leaf ''echo''), (''kcm-hst'', leaf ''h''), (''kcm-prt'', leaf ''9''),
         (''message'', leaf ''hello''), (''kcm-client'', node [(''id'', leaf ''shop''), (''instance'', leaf ''1'')])], ''Q''),
      (node [(''kcm-sts'', leaf ''0''), (''you-sent'', leaf ''hello'')], ''R'')]"

definition echo_env :: "ptree cl_env" where
  "echo_env = demo_cl_env
     \<lparr>json := \<lparr>write_json = (\<lambda>t. map_option (\<lambda>s. s @ [newline]) (map_of echo_lines t)),
               read_json = (\<lambda>s. map_of (map (\<lambda>e. (snd e, fst e)) echo_lines) s)\<rparr>\<rparr>"

definition echo_peer :: peer where
  "echo_peer = \<lparr>remote_ip = Some ''10.0.0.9'', arriving = Some (''Q'' @ [newline]), writable = True\<rparr>"

lemma exchange_witness: "fst (handle_read ptree_ops echo_env None (''R'' @ [newline])
    (snd (handle_write None (snd (handle_connect echo_env None (snd (start_client ptree_ops echo_env
      (fresh_config ptree_ops ''shop'' ''1'') echo_request (pt_new ptree_ops)))))))) = Inr ()"
proof -
  let ?c0 = "snd (start_client ptree_ops echo_env (fresh_config ptree_ops ''shop'' ''1'') echo_request (pt_new ptree_ops))"
  let ?c1 = "snd (handle_connect echo_env None ?c0)"
  have j: "json_laws (json echo_env)"
    by (auto simp: json_laws_def echo_env_def echo_lines_def split: if_splits)
  have n: "reads_statuses echo_env"
    by (simp add: reads_statuses_def echo_env_def demo_cl_env_def status_text_def list_all_iff show_nat_digits)
  have c: "start_client ptree_ops echo_env (fresh_config ptree_ops ''shop'' ''1'') echo_request (pt_new ptree_ops) = (Inr (), ?c0)"
    "pt_get ptree_ops echo_request ''kcm-client.id'' = None" "pt_get ptree_ops echo_request ''kcm-client.instance'' = None"
    "handle_connect echo_env None ?c0 = (Inr (), ?c1)" "outgoing ?c1 = Some (''Q'' @ [newline])"
    "handle_write None ?c1 = (Inr (), snd (handle_write None ?c1))"
    by code_simp+
  have p: "remote_ip echo_peer = Some ''10.0.0.9''" "arriving echo_peer = Some (''Q'' @ [newline])"
    by (simp_all add: echo_peer_def)
  let ?router = "register_handler (echoHandler ptree_ops) [] :: (ptree, unit) router"
  let ?k = "fst (snd (start ptree_ops (json echo_env) open_config ?router echo_peer (new_connection ptree_ops, ())))"
  have s: "start ptree_ops (json echo_env) open_config ?router echo_peer (new_connection ptree_ops, ()) = (Inr (), (?k, ()))"
    "sent ?k = Some (''R'' @ [newline])"
    by code_simp+
  have a: "isAllowedIp open_config ''10.0.0.9'' \<and>
      isAllowedClient open_config (application_id (fresh_config ptree_ops ''shop'' ''1''))
        (application_instance (fresh_config ptree_ops ''shop'' ''1''))" by code_simp
  have r: "route_request ptree_ops ?router (cl_request ?c0) (pt_new ptree_ops, ()) =
      (Inr (), (node [(''kcm-sts'', leaf ''0''), (''you-sent'', leaf ''hello'')], ()))"
    "verdict ptree_ops echo_env (node [(''kcm-sts'', leaf ''0''), (''you-sent'', leaf ''hello'')]) = Inr ()" by code_simp+
  from exchange [OF boost.property_tree_axioms j n c p s] a r show ?thesis by simp
qed

end
